(* ===== verification/Qtrace_Prelude.thy ===== *)
theory Qtrace_Prelude
  imports Main "HOL-Library.Word"
begin

text \<open>
  The vocabulary every component of the qtrace analyzer shares: Rust's machine integers
  as words, checked and saturating arithmetic, little-endian bytes, UTF-8 validity as the
  Rust standard library decides it, and a result-and-state monad.

  A fallible Rust method that takes \<open>&mut self\<close> and a work guard and returns
  \<open>Result<A, E>\<close> is a function from a state to an \<open>E + A\<close> and the state it leaves behind,
  also when it fails: the code keeps whatever it had changed before an early return, and so
  does the model. \<open>usize\<close> is a natural number below \<open>2 ^ 64\<close> (the analyzer is a 64-bit Linux
  desktop program), so conversions from \<open>u8\<close>, \<open>u16\<close>, \<open>u32\<close> and \<open>u64\<close> to \<open>usize\<close> never fail.
\<close>

section \<open>Machine integers\<close>

type_synonym u8 = "8 word"
type_synonym u16 = "16 word"
type_synonym u32 = "32 word"
type_synonym u64 = "64 word"
type_synonym i32 = "32 word" \<comment> \<open>two's complement, read by \<open>sint\<close>\<close>
type_synonym i64 = "64 word" \<comment> \<open>two's complement, read by \<open>sint\<close>\<close>
type_synonym usize = nat

abbreviation u64_max :: u64 where
  "u64_max \<equiv> - 1"

definition usize_limit :: nat where
  "usize_limit = 18446744073709551616"

lemma usize_limit_eq: "usize_limit = 2 ^ 64"
  by (simp add: usize_limit_def)

definition checked_add_usize :: "usize \<Rightarrow> usize \<Rightarrow> usize option" where
  "checked_add_usize a b = (if a + b < usize_limit then Some (a + b) else None)"

definition checked_mul_usize :: "usize \<Rightarrow> usize \<Rightarrow> usize option" where
  "checked_mul_usize a b = (if a * b < usize_limit then Some (a * b) else None)"

definition checked_add :: "'a::len word \<Rightarrow> 'a word \<Rightarrow> 'a word option" where
  "checked_add a b = (if unat a + unat b < 2 ^ LENGTH('a) then Some (a + b) else None)"

definition checked_mul :: "'a::len word \<Rightarrow> 'a word \<Rightarrow> 'a word option" where
  "checked_mul a b = (if unat a * unat b < 2 ^ LENGTH('a) then Some (a * b) else None)"

definition saturating_add :: "'a::len word \<Rightarrow> 'a word \<Rightarrow> 'a word" where
  "saturating_add a b = (if unat a + unat b < 2 ^ LENGTH('a) then a + b else - 1)"

definition saturating_sub :: "'a::len word \<Rightarrow> 'a word \<Rightarrow> 'a word" where
  "saturating_sub a b = (if b \<le> a then a - b else 0)"

lemma unat_less_2p:
  fixes a :: "'a::len word"
  shows "unat a < 2 ^ LENGTH('a)"
  by (rule unsigned_less)

lemma checked_add_Some:
  "checked_add a b = Some c \<longleftrightarrow> c = a + b \<and> unat c = unat a + unat b"
proof
  assume "checked_add a b = Some c"
  then show "c = a + b \<and> unat c = unat a + unat b"
    by (auto simp: checked_add_def unat_word_ariths split: if_splits)
next
  assume c: "c = a + b \<and> unat c = unat a + unat b"
  then have "unat a + unat b < 2 ^ LENGTH('a)"
    by (metis unsigned_less)
  then show "checked_add a b = Some c"
    using c by (simp add: checked_add_def)
qed

lemma checked_mul_Some:
  "checked_mul a b = Some c \<Longrightarrow> unat c = unat a * unat b"
  by (auto simp: checked_mul_def unat_word_ariths split: if_splits)

lemma checked_add_usize_Some [simp]:
  "checked_add_usize a b = Some c \<longleftrightarrow> c = a + b \<and> a + b < usize_limit"
  by (auto simp: checked_add_usize_def)

lemma checked_mul_usize_Some [simp]:
  "checked_mul_usize a b = Some c \<longleftrightarrow> c = a * b \<and> a * b < usize_limit"
  by (auto simp: checked_mul_usize_def)

lemma unat_saturating_add:
  fixes a b :: "'a::len word"
  shows "unat (saturating_add a b) = min (unat a + unat b) (2 ^ LENGTH('a) - 1)"
proof -
  have "unat (- 1 :: 'a word) = 2 ^ LENGTH('a) - 1"
    by (simp add: unsigned_minus_1_eq_mask mask_eq_exp_minus_1)
  then show ?thesis
    by (auto simp: saturating_add_def unat_word_ariths)
qed

lemma saturating_add_ge:
  fixes a b :: "'a::len word"
  shows "a \<le> saturating_add a b"
proof -
  have "unat a \<le> 2 ^ LENGTH('a) - 1"
    using unat_less_2p [of a] by linarith
  then show ?thesis
    by (simp add: word_le_nat_alt unat_saturating_add)
qed

section \<open>Slices\<close>

text \<open>\<open>bytes.get(i..j)\<close>: the sub-slice, or \<open>None\<close> when the range is reversed or out of bounds.\<close>

definition slice_get :: "'a list \<Rightarrow> nat \<Rightarrow> nat \<Rightarrow> 'a list option" where
  "slice_get xs i j = (if i \<le> j \<and> j \<le> length xs then Some (take (j - i) (drop i xs)) else None)"

lemma slice_get_Some:
  "slice_get xs i j = Some ys \<longleftrightarrow> i \<le> j \<and> j \<le> length xs \<and> ys = take (j - i) (drop i xs)"
  by (auto simp: slice_get_def)

lemma length_slice_get: "slice_get xs i j = Some ys \<Longrightarrow> length ys = j - i"
  by (auto simp: slice_get_Some)

section \<open>Little-endian bytes\<close>

fun le_nat :: "u8 list \<Rightarrow> nat" where
  "le_nat [] = 0"
| "le_nat (b # bs) = unat b + 256 * le_nat bs"

definition from_le_bytes :: "u8 list \<Rightarrow> 'a::len word" where
  "from_le_bytes bs = word_of_nat (le_nat bs)"

fun le_bytes_nat :: "nat \<Rightarrow> nat \<Rightarrow> u8 list" where
  "le_bytes_nat 0 k = []"
| "le_bytes_nat (Suc n) k = word_of_nat k # le_bytes_nat n (k div 256)"

definition to_le_bytes :: "nat \<Rightarrow> 'a::len word \<Rightarrow> u8 list" where
  "to_le_bytes n w = le_bytes_nat n (unat w)"

lemma length_le_bytes_nat [simp]: "length (le_bytes_nat n k) = n"
  by (induction n arbitrary: k) auto

lemma length_to_le_bytes [simp]: "length (to_le_bytes n w) = n"
  by (simp add: to_le_bytes_def)

lemma le_nat_less: "le_nat bs < 256 ^ length bs"
proof (induction bs)
  case (Cons b bs)
  have "unat b < 256"
    using unsigned_less [of b] by simp
  with Cons show ?case by simp
qed simp

lemma le_nat_le_bytes_nat: "le_nat (le_bytes_nat n k) = k mod 256 ^ n"
proof (induction n arbitrary: k)
  case (Suc n)
  have "unat (word_of_nat k :: u8) = k mod 256"
    by (simp add: unsigned_of_nat take_bit_eq_mod)
  then show ?case
    by (simp add: Suc.IH mod_mult2_eq)
qed simp

lemma le_bytes_nat_le_nat: "le_bytes_nat (length bs) (le_nat bs) = bs"
proof (induction bs)
  case (Cons b bs)
  have b: "unat b < 256"
    using unsigned_less [of b] by simp
  have "word_of_nat (unat b + 256 * le_nat bs) = b"
  proof -
    have z: "(256 :: u8) = 0" by simp
    show ?thesis by (simp add: z)
  qed
  moreover have "(unat b + 256 * le_nat bs) div 256 = le_nat bs"
    using b by simp
  ultimately show ?case
    by (simp add: Cons.IH)
qed simp

lemma from_to_le_bytes:
  fixes w :: "'a::len word"
  assumes "LENGTH('a) \<le> 8 * n"
  shows "from_le_bytes (to_le_bytes n w) = w"
proof -
  have "unat w < 2 ^ LENGTH('a)"
    by (rule unsigned_less)
  also have "(2::nat) ^ LENGTH('a) \<le> 2 ^ (8 * n)"
    using assms by (simp add: power_increasing)
  also have "(2::nat) ^ (8 * n) = 256 ^ n"
    by (simp add: power_mult)
  finally have "unat w mod 256 ^ n = unat w"
    by simp
  then show ?thesis
    by (simp add: from_le_bytes_def to_le_bytes_def le_nat_le_bytes_nat)
qed

lemma to_from_le_bytes:
  assumes "8 * length bs = LENGTH('a)"
  shows "to_le_bytes (length bs) (from_le_bytes bs :: 'a::len word) = bs"
proof -
  have "le_nat bs < 2 ^ LENGTH('a)"
    using le_nat_less [of bs] by (simp add: assms [symmetric] power_mult)
  then have "unat (word_of_nat (le_nat bs) :: 'a word) = le_nat bs"
    by (simp add: unat_of_nat)
  then show ?thesis
    by (simp add: to_le_bytes_def from_le_bytes_def le_bytes_nat_le_nat)
qed

section \<open>UTF-8\<close>

text \<open>
  \<open>std::str::from_utf8\<close> accepts exactly the well-formed sequences of the Unicode standard:
  no overlong forms, no surrogates, nothing above U+10FFFF. A Rust \<open>String\<close> is the list of
  its bytes.
\<close>

type_synonym utf8 = "u8 list"

definition utf8_cont :: "u8 \<Rightarrow> bool" where
  "utf8_cont b \<longleftrightarrow> 0x80 \<le> b \<and> b \<le> 0xBF"

fun utf8_valid :: "u8 list \<Rightarrow> bool" where
  "utf8_valid [] = True"
| "utf8_valid (a # bs) =
     (if a < 0x80 then utf8_valid bs
      else case bs of
        [] \<Rightarrow> False
      | b # cs \<Rightarrow>
          if 0xC2 \<le> a \<and> a \<le> 0xDF then utf8_cont b \<and> utf8_valid cs
          else case cs of
            [] \<Rightarrow> False
          | c # ds \<Rightarrow>
              if a = 0xE0 then 0xA0 \<le> b \<and> b \<le> 0xBF \<and> utf8_cont c \<and> utf8_valid ds
              else if a = 0xED then 0x80 \<le> b \<and> b \<le> 0x9F \<and> utf8_cont c \<and> utf8_valid ds
              else if 0xE1 \<le> a \<and> a \<le> 0xEF then utf8_cont b \<and> utf8_cont c \<and> utf8_valid ds
              else case ds of
                [] \<Rightarrow> False
              | d # es \<Rightarrow>
                  if a = 0xF0 then 0x90 \<le> b \<and> b \<le> 0xBF \<and> utf8_cont c \<and> utf8_cont d \<and> utf8_valid es
                  else if a = 0xF4 then 0x80 \<le> b \<and> b \<le> 0x8F \<and> utf8_cont c \<and> utf8_cont d \<and> utf8_valid es
                  else 0xF1 \<le> a \<and> a \<le> 0xF3 \<and> utf8_cont b \<and> utf8_cont c \<and> utf8_cont d \<and> utf8_valid es)"

text \<open>The bytes of an ASCII literal of the source.\<close>

definition str_bytes :: "string \<Rightarrow> utf8" where
  "str_bytes s = map of_char s"

section \<open>Results with state\<close>

type_synonym ('s, 'e, 'a) rm = "'s \<Rightarrow> ('e + 'a) \<times> 's"

definition retR :: "'a \<Rightarrow> ('s, 'e, 'a) rm" where
  "retR x = (\<lambda>s. (Inr x, s))"

definition throwR :: "'e \<Rightarrow> ('s, 'e, 'a) rm" where
  "throwR e = (\<lambda>s. (Inl e, s))"

definition bindR :: "('s, 'e, 'a) rm \<Rightarrow> ('a \<Rightarrow> ('s, 'e, 'b) rm) \<Rightarrow> ('s, 'e, 'b) rm" where
  "bindR m k = (\<lambda>s. case m s of (Inl e, t) \<Rightarrow> (Inl e, t) | (Inr x, t) \<Rightarrow> k x t)"

definition thenR :: "('s, 'e, 'a) rm \<Rightarrow> ('s, 'e, 'b) rm \<Rightarrow> ('s, 'e, 'b) rm" where
  "thenR m n = bindR m (\<lambda>_. n)"

text \<open>Early return: \<open>if b { return Err(e) }\<close>.\<close>

definition guardR :: "bool \<Rightarrow> 'e \<Rightarrow> ('s, 'e, unit) rm" where
  "guardR b e = (if b then throwR e else retR ())"

definition optionR :: "'e \<Rightarrow> 'a option \<Rightarrow> ('s, 'e, 'a) rm" where
  "optionR e v = (case v of None \<Rightarrow> throwR e | Some x \<Rightarrow> retR x)"

text \<open>A \<open>Result\<close> computed without touching the state, under the \<open>?\<close> operator.\<close>

definition resultR :: "'e + 'a \<Rightarrow> ('s, 'e, 'a) rm" where
  "resultR r = (\<lambda>s. (r, s))"

text \<open>The current state, as a method reads the fields of \<open>self\<close>.\<close>

definition getR :: "('s, 'e, 's) rm" where
  "getR = (\<lambda>s. (Inr s, s))"

text \<open>\<open>map_err\<close>: the same computation with its error translated.\<close>

definition mapErrR :: "('d \<Rightarrow> 'e) \<Rightarrow> ('s, 'd, 'a) rm \<Rightarrow> ('s, 'e, 'a) rm" where
  "mapErrR f m = (\<lambda>s. case m s of (Inl d, t) \<Rightarrow> (Inl (f d), t) | (Inr x, t) \<Rightarrow> (Inr x, t))"

text \<open>A computation on the world alone, run where a local object is part of the state.\<close>

definition liftW :: "('w, 'e, 'a) rm \<Rightarrow> ('c \<times> 'w, 'e, 'a) rm" where
  "liftW m = (\<lambda>(c, w). case m w of (r, w') \<Rightarrow> (r, (c, w')))"

text \<open>A \<open>for\<close> loop that pushes one value per iteration.\<close>

fun forR :: "('x \<Rightarrow> ('s, 'e, 'a) rm) \<Rightarrow> 'x list \<Rightarrow> ('s, 'e, 'a list) rm" where
  "forR f [] = retR []"
| "forR f (x # xs) = bindR (f x) (\<lambda>y. bindR (forR f xs) (\<lambda>ys. retR (y # ys)))"

lemma retR_apply [simp]: "retR x s = (Inr x, s)"
  by (simp add: retR_def)

lemma throwR_apply [simp]: "throwR e s = (Inl e, s)"
  by (simp add: throwR_def)

lemma bindR_cong [fundef_cong]:
  assumes "m s = m' s'" and "\<And>x t. m' s' = (Inr x, t) \<Longrightarrow> k x t = k' x t" and "s = s'"
  shows "bindR m k s = bindR m' k' s'"
  using assms by (auto simp: bindR_def split: prod.splits sum.splits)

lemma bindR_Inr:
  "bindR m k s = (Inr y, t) \<longleftrightarrow> (\<exists>x u. m s = (Inr x, u) \<and> k x u = (Inr y, t))"
  by (auto simp: bindR_def split: prod.splits sum.splits)

lemma bindR_Inl:
  "bindR m k s = (Inl e, t) \<longleftrightarrow>
     m s = (Inl e, t) \<or> (\<exists>x u. m s = (Inr x, u) \<and> k x u = (Inl e, t))"
  by (auto simp: bindR_def split: prod.splits sum.splits)

lemma bindR_okE:
  assumes "bindR m k s = (Inr y, t)"
  obtains x u where "m s = (Inr x, u)" and "k x u = (Inr y, t)"
  using assms by (auto simp: bindR_Inr)

lemma bindR_step: "m s = (Inr x, u) \<Longrightarrow> bindR m k s = k x u"
  by (simp add: bindR_def)

lemma bindR_fail: "m s = (Inl e, u) \<Longrightarrow> bindR m k s = (Inl e, u)"
  by (simp add: bindR_def)

lemma thenR_Inr:
  "thenR m n s = (Inr y, t) \<longleftrightarrow> (\<exists>x u. m s = (Inr x, u) \<and> n u = (Inr y, t))"
  by (simp add: thenR_def bindR_Inr)

lemma guardR_apply: "guardR b e s = (if b then (Inl e, s) else (Inr (), s))"
  by (simp add: guardR_def)

lemma guardR_Inr [simp]: "guardR b e s = (Inr x, t) \<longleftrightarrow> \<not> b \<and> t = s"
  by (auto simp: guardR_def)

lemma optionR_Inr [simp]: "optionR e v s = (Inr x, t) \<longleftrightarrow> v = Some x \<and> t = s"
  by (auto simp: optionR_def split: option.splits)

lemma mapErrR_Inr [simp]: "mapErrR f m s = (Inr x, t) \<longleftrightarrow> m s = (Inr x, t)"
  by (auto simp: mapErrR_def split: prod.splits sum.splits)

lemma liftW_Inr [simp]: "liftW m (c, w) = (Inr x, (c', w')) \<longleftrightarrow> c' = c \<and> m w = (Inr x, w')"
  by (auto simp: liftW_def split: prod.splits)

lemma resultR_Inr [simp]: "resultR r s = (Inr x, t) \<longleftrightarrow> r = Inr x \<and> t = s"
  by (auto simp: resultR_def)

lemma getR_Inr [simp]: "getR s = (Inr x, t) \<longleftrightarrow> x = s \<and> t = s"
  by (auto simp: getR_def)

lemma retR_bindR [simp]: "bindR (retR x) k = k x"
  by (simp add: bindR_def retR_def)

lemma bindR_retR [simp]: "bindR m retR = m"
  by (auto simp: bindR_def retR_def fun_eq_iff split: prod.splits sum.splits)

lemma bindR_assoc: "bindR (bindR m k) l = bindR m (\<lambda>x. bindR (k x) l)"
  by (auto simp: bindR_def fun_eq_iff split: prod.splits sum.splits)

text \<open>The simplification rules that take a successful run apart.\<close>

lemmas rm_ok = bindR_Inr thenR_Inr retR_def throwR_def

subsection \<open>Relations every run respects\<close>

text \<open>
  \<open>stepR R E m\<close>: a run of \<open>m\<close> that succeeds leaves a state related by \<open>R\<close> to the one it started in,
  and a run that fails leaves one related by \<open>E\<close>. When \<open>R\<close> is a preorder and \<open>E\<close> absorbs it on the
  left, the combinators compose, because a failed run stops: a frame fact (\<open>a field is unchanged\<close>), a
  monotonicity fact or an invariant is proved once per primitive and lifted to every decoder.
\<close>

definition stepR :: "('s \<Rightarrow> 's \<Rightarrow> bool) \<Rightarrow> ('s \<Rightarrow> 's \<Rightarrow> bool) \<Rightarrow> ('s, 'e, 'a) rm \<Rightarrow> bool" where
  "stepR R E m \<longleftrightarrow> (\<forall>s. case m s of (Inr x, t) \<Rightarrow> R s t | (Inl e, t) \<Rightarrow> E s t)"

lemma stepR_ok: "stepR R E m \<Longrightarrow> m s = (Inr x, t) \<Longrightarrow> R s t"
  by (auto simp: stepR_def dest!: spec [of _ s])

lemma stepR_stop: "stepR R E m \<Longrightarrow> m s = (Inl e, t) \<Longrightarrow> E s t"
  by (auto simp: stepR_def dest!: spec [of _ s])

lemma stepRI:
  assumes "\<And>s x t. m s = (Inr x, t) \<Longrightarrow> R s t" and "\<And>s e t. m s = (Inl e, t) \<Longrightarrow> E s t"
  shows "stepR R E m"
  using assms by (auto simp: stepR_def split: prod.split sum.split)

lemma stepR_mapErrR: "stepR R E m \<Longrightarrow> stepR R E (mapErrR f m)"
  by (rule stepRI) (auto simp: mapErrR_def split: prod.splits sum.splits intro: stepR_ok stepR_stop)

lemma stepR_if: "stepR R E m \<Longrightarrow> stepR R E n \<Longrightarrow> stepR R E (if b then m else n)"
  by simp

lemma stepR_case_option: "stepR R E m \<Longrightarrow> (\<And>x. stepR R E (n x)) \<Longrightarrow> stepR R E (case v of None \<Rightarrow> m | Some x \<Rightarrow> n x)"
  by (simp split: option.split)

lemma stepR_case_prod: "(\<And>x y. stepR R E (m x y)) \<Longrightarrow> stepR R E (case v of (x, y) \<Rightarrow> m x y)"
  by (simp split: prod.split)

lemma stepR_Let: "(\<And>x. stepR R E (m x)) \<Longrightarrow> stepR R E (let x = v in m x)"
  by simp

lemma stepR_bindR_into:
  assumes "stepR R E m" and "\<And>s x t. m s = (Inr x, t) \<Longrightarrow> stepR R' E (k x)"
    and "\<And>s t u. R s t \<Longrightarrow> R' t u \<Longrightarrow> R' s u" and "\<And>s t u. R s t \<Longrightarrow> E t u \<Longrightarrow> E s u"
  shows "stepR R' E (bindR m k)"
proof (rule stepRI)
  fix s y t
  assume "bindR m k s = (Inr y, t)"
  then obtain x u where "m s = (Inr x, u)" and "k x u = (Inr y, t)"
    by (auto simp: bindR_Inr)
  then show "R' s t" using stepR_ok [OF assms(1)] stepR_ok [OF assms(2)] assms(3) by blast
next
  fix s e t
  assume "bindR m k s = (Inl e, t)"
  then consider "m s = (Inl e, t)" | x u where "m s = (Inr x, u)" and "k x u = (Inl e, t)"
    by (auto simp: bindR_Inl)
  then show "E s t"
  proof cases
    case 1
    then show ?thesis by (rule stepR_stop [OF assms(1)])
  next
    case (2 x u)
    then show ?thesis using stepR_ok [OF assms(1)] stepR_stop [OF assms(2)] assms(4) by blast
  qed
qed

locale step_frame =
  fixes R E :: "'s \<Rightarrow> 's \<Rightarrow> bool"
  assumes ok_refl: "R s s" and ok_trans: "R s t \<Longrightarrow> R t u \<Longrightarrow> R s u"
    and stop_refl: "E s s" and stop_after: "R s t \<Longrightarrow> E t u \<Longrightarrow> E s u"
begin

lemma step_ret: "stepR R E (retR x)"
  by (simp add: stepR_def ok_refl)

lemma step_throw: "stepR R E (throwR e)"
  by (simp add: stepR_def stop_refl)

lemma step_bind_dep:
  assumes "stepR R E m" and "\<And>s x t. m s = (Inr x, t) \<Longrightarrow> stepR R E (k x)"
  shows "stepR R E (bindR m k)"
  by (rule stepR_bindR_into [OF assms ok_trans stop_after])

lemma step_bind: "stepR R E m \<Longrightarrow> (\<And>x. stepR R E (k x)) \<Longrightarrow> stepR R E (bindR m k)"
  by (rule step_bind_dep)

lemma step_then: "stepR R E m \<Longrightarrow> stepR R E n \<Longrightarrow> stepR R E (thenR m n)"
  unfolding thenR_def by (rule step_bind)

lemma step_result: "stepR R E (\<lambda>s. (r, s))"
  by (simp add: stepR_def ok_refl stop_refl split: sum.split)

lemma step_resultR: "stepR R E (resultR r)"
  unfolding resultR_def by (rule step_result)

lemma step_guard: "stepR R E (guardR b e)"
  unfolding guardR_def by (intro stepR_if step_throw step_ret)

lemma step_option: "stepR R E (optionR e v)"
  unfolding optionR_def by (intro stepR_case_option step_throw step_ret)

lemma step_get: "stepR R E getR"
  by (simp add: getR_def stepR_def ok_refl)

lemma step_for: "(\<And>x. stepR R E (f x)) \<Longrightarrow> stepR R E (forR f xs)"
  by (induction xs) (simp_all add: step_ret step_bind)

lemmas step_rules = stepR_if stepR_case_prod stepR_Let stepR_mapErrR step_ret step_throw step_bind step_then
  step_resultR step_guard step_option step_get step_for

end

text \<open>A relation on the world where a local object is part of the state.\<close>

definition on_world :: "('w \<Rightarrow> 'w \<Rightarrow> bool) \<Rightarrow> 'c \<times> 'w \<Rightarrow> 'c \<times> 'w \<Rightarrow> bool" where
  "on_world R s t = R (snd s) (snd t)"

lemma stepR_liftW:
  assumes "stepR R E m" and "\<And>c w w'. R w w' \<Longrightarrow> R' (c, w) (c, w')" and "\<And>c w w'. E w w' \<Longrightarrow> E' (c, w) (c, w')"
  shows "stepR R' E' (liftW m)"
  by (rule stepRI) (auto simp: liftW_def split: prod.splits intro: assms(2,3) stepR_ok [OF assms(1)] stepR_stop [OF assms(1)])

end
