(* ===== verification/Provider_Control.thy ===== *)
theory Provider_Control
  imports Qtrace_Prelude
begin

text \<open>
  Work accounting and structured errors of the provider crate
  (\<open>qtrace-provider/src/control.rs\<close> and \<open>error.rs\<close>).

  \<open>WorkGuard\<close> is a trait: a guard is an object with interior state whose methods every decoder,
  index builder and query calls before it does work. It is modelled as a record of operations
  over a world \<open>'w\<close> that holds the state of the guard and of everything else outside the
  program (the allocator, the files). \<open>ProviderError\<close> keeps its code, stage, coordinate and
  bounded detail, so that the theorems can say which error a branch returns.
\<close>

section \<open>Work deltas and aborts\<close>

record work_delta =
  wd_input_bytes :: u64
  wd_decompressed_bytes :: u64
  wd_events :: u64
  wd_nodes :: u64
  wd_rows :: u64
  wd_resident_bytes :: u64

definition work_default :: work_delta where
  "work_default = \<lparr>wd_input_bytes = 0, wd_decompressed_bytes = 0, wd_events = 0, wd_nodes = 0,
     wd_rows = 0, wd_resident_bytes = 0\<rparr>"

datatype work_phase =
    VerifySource | OpenCache | BuildIndex | PublishCache | ReopenCache | PrepareAnalysis
  | PublishWorkspace

datatype budget_dimension =
    InputBytes | DecompressedBytes | Events | Nodes | Rows | ResidentBytes

datatype operation_abort =
    Cancelled
  | BudgetExceeded (ba_dimension: budget_dimension) (ba_limit: u64) (ba_consumed: u64)

definition budget_exceeded :: "budget_dimension \<Rightarrow> u64 \<Rightarrow> u64 \<Rightarrow> operation_abort" where
  "budget_exceeded dimension limit consumed = BudgetExceeded dimension limit consumed"

section \<open>Formatting\<close>

text \<open>The \<open>{}\<close> and \<open>{:#x}\<close> formats of unsigned integers.\<close>

fun decimal :: "nat \<Rightarrow> string" where
  "decimal n = (if n < 10 then [char_of (48 + n)] else decimal (n div 10) @ [char_of (48 + n mod 10)])"

fun hex_digits :: "nat \<Rightarrow> string" where
  "hex_digits n =
     (let d = (\<lambda>k. if k < 10 then char_of (48 + k) else char_of (87 + k))
      in if n < 16 then [d n] else hex_digits (n div 16) @ [d (n mod 16)])"

declare decimal.simps [simp del] hex_digits.simps [simp del]

definition hex_alternate :: "nat \<Rightarrow> string" where
  "hex_alternate n = ''0x'' @ hex_digits n"

definition dimension_debug :: "budget_dimension \<Rightarrow> string" where
  "dimension_debug d = (case d of
       InputBytes \<Rightarrow> ''InputBytes'' | DecompressedBytes \<Rightarrow> ''DecompressedBytes''
     | Events \<Rightarrow> ''Events'' | Nodes \<Rightarrow> ''Nodes'' | Rows \<Rightarrow> ''Rows''
     | ResidentBytes \<Rightarrow> ''ResidentBytes'')"

definition display_abort :: "operation_abort \<Rightarrow> string" where
  "display_abort a = (case a of
       Cancelled \<Rightarrow> ''operation cancelled''
     | BudgetExceeded dimension limit consumed \<Rightarrow>
         dimension_debug dimension @ '' budget exceeded: consumed '' @ decimal (unat consumed) @
         '', limit '' @ decimal (unat limit))"

section \<open>Provider errors\<close>

record source_coordinate =
  sc_offset :: u64
  sc_record_ordinal :: "u64 option"

datatype provider_error_detail = Message string | Abort operation_abort

record provider_error =
  pe_code :: string
  pe_stage :: string
  pe_source :: "source_coordinate option"
  pe_retryable :: bool
  pe_detail :: provider_error_detail

definition MAX_DETAIL_BYTES :: nat where
  "MAX_DETAIL_BYTES = 512"

text \<open>
  A \<open>str\<close> is its UTF-8 bytes; the width of the character that starts at a byte is read off
  that byte, as \<open>chars\<close> does. The loop of \<open>bounded_single_line\<close> takes whole characters while
  they fit and turns carriage returns and line feeds into spaces.
\<close>

definition utf8_width :: "char \<Rightarrow> nat" where
  "utf8_width c = (let b = (of_char c :: nat) in
     if b < 0x80 then 1 else if b < 0xE0 then 2 else if b < 0xF0 then 3 else 4)"

lemma utf8_width_pos: "0 < utf8_width c"
  by (simp add: utf8_width_def Let_def)

function bounded_single_line_from :: "nat \<Rightarrow> string \<Rightarrow> string" where
  "bounded_single_line_from n [] = []"
| "bounded_single_line_from n (c # cs) =
     (if n + utf8_width c > MAX_DETAIL_BYTES then []
      else (if c = CHR 0x0D \<or> c = CHR 0x0A then CHR '' '' else c) #
           take (utf8_width c - 1) cs @
           bounded_single_line_from (n + utf8_width c) (drop (utf8_width c - 1) cs))"
  by pat_completeness auto
termination
  by (relation "measure (\<lambda>(n, cs). length cs)") auto

definition bounded_single_line :: "string \<Rightarrow> string" where
  "bounded_single_line detail = bounded_single_line_from 0 detail"

definition provider_error_new ::
  "string \<Rightarrow> string \<Rightarrow> source_coordinate option \<Rightarrow> bool \<Rightarrow> string \<Rightarrow> provider_error" where
  "provider_error_new code stage source retryable detail =
     \<lparr>pe_code = code, pe_stage = stage, pe_source = source, pe_retryable = retryable,
      pe_detail = Message (bounded_single_line detail)\<rparr>"

definition stream_not_drained :: provider_error where
  "stream_not_drained = provider_error_new ''source.stream_not_drained'' ''finish'' None False
     ''event stream must return end-of-stream before finish''"

definition error_detail :: "provider_error \<Rightarrow> string" where
  "error_detail e = (case pe_detail e of
       Message detail \<Rightarrow> detail
     | Abort _ \<Rightarrow> ''operation aborted by work guard'')"

definition error_operation_abort :: "provider_error \<Rightarrow> operation_abort option" where
  "error_operation_abort e = (case pe_detail e of Abort abort \<Rightarrow> Some abort | Message _ \<Rightarrow> None)"

definition provider_error_of_abort :: "operation_abort \<Rightarrow> provider_error" where
  "provider_error_of_abort abort =
     \<lparr>pe_code = (case abort of
         Cancelled \<Rightarrow> ''control.cancelled''
       | BudgetExceeded _ _ _ \<Rightarrow> ''control.budget_exceeded''),
      pe_stage = ''control'', pe_source = None, pe_retryable = False, pe_detail = Abort abort\<rparr>"

definition display_error :: "provider_error \<Rightarrow> string" where
  "display_error e = pe_code e @ '' at '' @ pe_stage e @ '': '' @
     (case pe_detail e of Abort abort \<Rightarrow> display_abort abort | Message detail \<Rightarrow> detail)"

lemma error_operation_abort_of_abort [simp]:
  "error_operation_abort (provider_error_of_abort a) = Some a"
  by (simp add: error_operation_abort_def provider_error_of_abort_def)

lemma error_operation_abort_new [simp]:
  "error_operation_abort (provider_error_new c s src r d) = None"
  by (simp add: error_operation_abort_def provider_error_new_def)

lemma provider_error_new_simps [simp]:
  "pe_code (provider_error_new c s src r d) = c"
  "pe_stage (provider_error_new c s src r d) = s"
  "pe_source (provider_error_new c s src r d) = src"
  "pe_retryable (provider_error_new c s src r d) = r"
  by (simp_all add: provider_error_new_def)

section \<open>The work guard trait\<close>

record 'w work_guard =
  wg_consume :: "work_delta \<Rightarrow> ('w, operation_abort, unit) rm"
  wg_begin_phase :: "work_phase \<Rightarrow> 'w \<Rightarrow> 'w"
  wg_parallelism :: usize
  wg_begin_allocation_scope :: "work_delta \<Rightarrow> u64 \<Rightarrow> ('w, operation_abort, unit) rm"
  wg_end_allocation_scope :: "'w \<Rightarrow> 'w"

text \<open>The trait's provided methods, for an implementation that only defines \<open>consume\<close>.\<close>

definition default_guard :: "(work_delta \<Rightarrow> ('w, operation_abort, unit) rm) \<Rightarrow> 'w work_guard" where
  "default_guard consume =
     \<lparr>wg_consume = consume, wg_begin_phase = (\<lambda>_ w. w), wg_parallelism = 1,
      wg_begin_allocation_scope = (\<lambda>delta allowed_slack. consume delta),
      wg_end_allocation_scope = (\<lambda>w. w)\<rparr>"

text \<open>\<open>guard.consume(delta)?\<close> where the caller returns \<open>ProviderError\<close>.\<close>

definition consume :: "'w work_guard \<Rightarrow> work_delta \<Rightarrow> ('w, provider_error, unit) rm" where
  "consume G delta = mapErrR provider_error_of_abort (wg_consume G delta)"

definition allocation_scope_begin_with_delta ::
  "'w work_guard \<Rightarrow> work_delta \<Rightarrow> u64 \<Rightarrow> ('w, operation_abort, unit) rm" where
  "allocation_scope_begin_with_delta G delta allowed_slack =
     wg_begin_allocation_scope G delta allowed_slack"

definition allocation_scope_begin ::
  "'w work_guard \<Rightarrow> u64 \<Rightarrow> u64 \<Rightarrow> ('w, operation_abort, unit) rm" where
  "allocation_scope_begin G resident_bytes allowed_slack =
     allocation_scope_begin_with_delta G (work_default\<lparr>wd_resident_bytes := resident_bytes\<rparr>)
       allowed_slack"

definition allocation_scope_drop :: "'w work_guard \<Rightarrow> 'w \<Rightarrow> 'w" where
  "allocation_scope_drop G w = wg_end_allocation_scope G w"

section \<open>Bounded details\<close>

lemma length_bounded_single_line_from:
  "n \<le> MAX_DETAIL_BYTES \<Longrightarrow> n + length (bounded_single_line_from n cs) \<le> MAX_DETAIL_BYTES"
proof (induction n cs rule: bounded_single_line_from.induct)
  case (2 n c cs)
  show ?case
  proof (cases "n + utf8_width c > MAX_DETAIL_BYTES")
    case True
    with "2.prems" show ?thesis by simp
  next
    case False
    let ?w = "utf8_width c"
    have "n + ?w + length (bounded_single_line_from (n + ?w) (drop (?w - 1) cs)) \<le> MAX_DETAIL_BYTES"
      using "2.IH" False by simp
    moreover have "length (take (?w - 1) cs) \<le> ?w - 1"
      by simp
    ultimately show ?thesis
      using False utf8_width_pos [of c] by simp
  qed
qed simp

end
