(* ===== verification/Provider_Allocation.thy ===== *)
theory Provider_Allocation
  imports Provider_Control
begin

text \<open>
  Guarded heap allocation (\<open>qtrace-provider/src/allocation.rs\<close>): every vector, string and hash
  map the provider grows is first charged to the work guard inside an allocation scope.

  What the Rust toolchain fixes and the source does not (the size and alignment of a type, what
  the allocator answers, how much capacity a collection really gets, how many bytes a hash table
  for a number of entries asks for) is the record \<open>'w host\<close>,
  a parameter of every definition that allocates. A vector is its elements and a capacity; a
  definition that grows one takes the current capacity and returns the new one. The source reserves
  \<open>capacity - len\<close> further elements on a vector with \<open>len \<le> cap < capacity\<close>, so the buffer it asks the
  allocator for holds \<open>capacity\<close> elements.
\<close>

section \<open>The host\<close>

datatype rust_type =
    T_u8 | T_u64 | T_usize
  | T_RegisterWire | T_MemoryOperandWire | T_RegisterDefinition | T_MemoryOperand
  | T_RegisterObservation | T_CompletenessRange | T_TimelineDescriptor
  | T_ModuleEntry | T_DefinitionEntry | T_DeltaRun | T_IntervalEntry

record 'w host =
  size_of :: "rust_type \<Rightarrow> nat"
  align_of :: "rust_type \<Rightarrow> nat"
  heap_reserve :: "nat \<Rightarrow> 'w \<Rightarrow> bool \<times> 'w"
  granted_capacity :: "rust_type \<Rightarrow> nat \<Rightarrow> nat"
  table_bytes :: "rust_type \<Rightarrow> nat \<Rightarrow> nat"

definition u64_try_from :: "usize \<Rightarrow> u64 option" where
  "u64_try_from n = (if n < usize_limit then Some (word_of_nat n) else None)"

text \<open>\<open>try_reserve\<close> asks the allocator only when there is something to allocate.\<close>

definition try_reserve :: "'w host \<Rightarrow> nat \<Rightarrow> 'w \<Rightarrow> bool \<times> 'w" where
  "try_reserve H bytes w = (if bytes = 0 then (True, w) else heap_reserve H bytes w)"

section \<open>Error contexts\<close>

record allocation_error_context =
  aec_code :: string
  aec_stage :: string

definition context_error :: "allocation_error_context \<Rightarrow> string \<Rightarrow> provider_error" where
  "context_error ctx detail = provider_error_new (aec_code ctx) (aec_stage ctx) None False detail"

definition PROVIDER_ALLOCATION :: allocation_error_context where
  "PROVIDER_ALLOCATION =
     \<lparr>aec_code = ''control.resource_exhausted'', aec_stage = ''provider.allocation''\<rparr>"

definition FLIGHT_OPEN_ALLOCATION :: allocation_error_context where
  "FLIGHT_OPEN_ALLOCATION =
     \<lparr>aec_code = ''source.flight.resource'', aec_stage = ''flight.open''\<rparr>"

definition FLIGHT_RECOVERY_ALLOCATION :: allocation_error_context where
  "FLIGHT_RECOVERY_ALLOCATION =
     \<lparr>aec_code = ''source.flight.resource'', aec_stage = ''flight.recovery''\<rparr>"

definition allocation_abort :: "operation_abort \<Rightarrow> provider_error" where
  "allocation_abort abort = provider_error_of_abort abort"

section \<open>Capacity planning\<close>

definition checked_array_bytes_in ::
  "'w host \<Rightarrow> rust_type \<Rightarrow> usize \<Rightarrow> allocation_error_context \<Rightarrow> ('w, provider_error, u64) rm" where
  "checked_array_bytes_in H T count ctx =
     optionR (context_error ctx ''allocation byte count overflow'')
       (map_option word_of_nat (checked_mul_usize count (size_of H T)))"

definition checked_vec_capacity_in ::
  "'w host \<Rightarrow> rust_type \<Rightarrow> usize \<Rightarrow> allocation_error_context \<Rightarrow> ('w, provider_error, usize) rm" where
  "checked_vec_capacity_in H T count ctx =
     thenR (checked_array_bytes_in H T count ctx) (retR count)"

definition checked_geometric_capacity_in ::
  "usize \<Rightarrow> usize \<Rightarrow> usize \<Rightarrow> allocation_error_context \<Rightarrow> provider_error + usize" where
  "checked_geometric_capacity_in current required minimum ctx =
     (case checked_mul_usize current 2 of
        None \<Rightarrow> Inl (context_error ctx ''vector capacity overflow'')
      | Some doubled \<Rightarrow> Inr (max required (max minimum doubled)))"

definition checked_geometric_capacity ::
  "usize \<Rightarrow> usize \<Rightarrow> usize \<Rightarrow> provider_error + usize" where
  "checked_geometric_capacity current required minimum =
     checked_geometric_capacity_in current required minimum PROVIDER_ALLOCATION"

section \<open>Allocation scopes\<close>

text \<open>
  \<open>let _scope = AllocationScope::begin(guard, bytes, slack)?; body\<close>: the scope is dropped when
  the function returns, whether the body succeeded or not.
\<close>

definition with_allocation_scope ::
  "'w work_guard \<Rightarrow> u64 \<Rightarrow> u64 \<Rightarrow> ('w, provider_error, 'a) rm \<Rightarrow> ('w, provider_error, 'a) rm" where
  "with_allocation_scope G bytes slack body =
     bindR (mapErrR allocation_abort (allocation_scope_begin G bytes slack))
       (\<lambda>_ w. case body w of (r, w') \<Rightarrow> (r, allocation_scope_drop G w'))"

definition reserve_or :: "'w host \<Rightarrow> nat \<Rightarrow> provider_error \<Rightarrow> ('w, provider_error, unit) rm" where
  "reserve_or H bytes e = (\<lambda>w. case try_reserve H bytes w of
     (ok, w') \<Rightarrow> (if ok then Inr () else Inl e, w'))"

section \<open>Vectors and strings\<close>

definition try_reserve_vec_exact_in ::
  "'w host \<Rightarrow> 'w work_guard \<Rightarrow> rust_type \<Rightarrow> usize \<Rightarrow> usize \<Rightarrow> string \<Rightarrow> allocation_error_context \<Rightarrow>
   ('w, provider_error, usize) rm" where
  "try_reserve_vec_exact_in H G T cap capacity detail ctx =
     (if capacity \<le> cap then retR cap
      else bindR (checked_vec_capacity_in H T capacity ctx) (\<lambda>capacity.
           bindR (checked_array_bytes_in H T capacity ctx) (\<lambda>bytes.
           with_allocation_scope G bytes 0
             (thenR (reserve_or H (capacity * size_of H T) (context_error ctx detail))
                    (retR (granted_capacity H T capacity))))))"

text \<open>A reservation on a vector that has just been created with \<open>Vec::new\<close>.\<close>

definition try_reserve_vec_exact ::
  "'w host \<Rightarrow> 'w work_guard \<Rightarrow> rust_type \<Rightarrow> usize \<Rightarrow> string \<Rightarrow> ('w, provider_error, usize) rm" where
  "try_reserve_vec_exact H G T capacity detail =
     try_reserve_vec_exact_in H G T 0 capacity detail PROVIDER_ALLOCATION"

definition try_vec_with_capacity_in ::
  "'w host \<Rightarrow> 'w work_guard \<Rightarrow> rust_type \<Rightarrow> usize \<Rightarrow> string \<Rightarrow> allocation_error_context \<Rightarrow>
   ('w, provider_error, usize) rm" where
  "try_vec_with_capacity_in H G T capacity detail ctx =
     try_reserve_vec_exact_in H G T 0 capacity detail ctx"

text \<open>A vector with its capacity, as \<open>try_push_vec_in\<close> grows it.\<close>

record 'a rust_vec =
  rv_items :: "'a list"
  rv_capacity :: usize

definition try_push_vec_in ::
  "'w host \<Rightarrow> 'w work_guard \<Rightarrow> rust_type \<Rightarrow> 'a rust_vec \<Rightarrow> 'a \<Rightarrow> string \<Rightarrow> allocation_error_context \<Rightarrow>
   ('w, provider_error, 'a rust_vec) rm" where
  "try_push_vec_in H G T output value detail ctx =
     bindR
       (if length (rv_items output) = rv_capacity output then
          bindR (optionR (context_error ctx ''vector length overflow'')
                   (checked_add_usize (length (rv_items output)) 1)) (\<lambda>required.
          bindR (\<lambda>w. (checked_geometric_capacity_in (rv_capacity output) required 4 ctx, w)) (\<lambda>capacity.
          try_reserve_vec_exact_in H G T (rv_capacity output) capacity detail ctx))
        else retR (rv_capacity output))
       (\<lambda>cap. retR \<lparr>rv_items = rv_items output @ [value], rv_capacity = cap\<rparr>)"

definition try_copy_bytes_in ::
  "'w host \<Rightarrow> 'w work_guard \<Rightarrow> u8 list \<Rightarrow> string \<Rightarrow> allocation_error_context \<Rightarrow>
   ('w, provider_error, u8 list) rm" where
  "try_copy_bytes_in H G bytes detail ctx =
     thenR (try_reserve_vec_exact_in H G T_u8 0 (length bytes) detail ctx) (retR bytes)"

definition try_copy_bytes ::
  "'w host \<Rightarrow> 'w work_guard \<Rightarrow> u8 list \<Rightarrow> string \<Rightarrow> ('w, provider_error, u8 list) rm" where
  "try_copy_bytes H G bytes detail = try_copy_bytes_in H G bytes detail PROVIDER_ALLOCATION"

definition try_copy_string_in ::
  "'w host \<Rightarrow> 'w work_guard \<Rightarrow> utf8 \<Rightarrow> string \<Rightarrow> allocation_error_context \<Rightarrow>
   ('w, provider_error, utf8) rm" where
  "try_copy_string_in H G value detail ctx =
     bindR (optionR (context_error ctx detail) (u64_try_from (length value))) (\<lambda>bytes.
     with_allocation_scope G bytes 0
       (thenR (reserve_or H (length value) (context_error ctx detail)) (retR value)))"

definition try_copy_string ::
  "'w host \<Rightarrow> 'w work_guard \<Rightarrow> utf8 \<Rightarrow> string \<Rightarrow> ('w, provider_error, utf8) rm" where
  "try_copy_string H G value detail = try_copy_string_in H G value detail PROVIDER_ALLOCATION"

section \<open>Hash maps\<close>

fun next_power_of_two :: "nat \<Rightarrow> nat" where
  "next_power_of_two n = (if n \<le> 1 then 1 else 2 * next_power_of_two ((n + 1) div 2))"

declare next_power_of_two.simps [simp del]

definition checked_next_power_of_two :: "usize \<Rightarrow> usize option" where
  "checked_next_power_of_two n =
     (if next_power_of_two n < usize_limit then Some (next_power_of_two n) else None)"

definition hash_buckets :: "usize \<Rightarrow> usize option" where
  "hash_buckets required =
     (if required < 4 then Some 4
      else if required < 8 then Some 8
      else Option.bind (checked_mul_usize required 8) (\<lambda>scaled.
           Option.bind (checked_add_usize scaled 6) (\<lambda>scaled.
           checked_next_power_of_two (scaled div 7))))"

definition hash_table_layout_in ::
  "'w host \<Rightarrow> rust_type \<Rightarrow> usize \<Rightarrow> allocation_error_context \<Rightarrow> provider_error + (u64 \<times> u64)" where
  "hash_table_layout_in H KV required ctx =
     (if required = 0 then Inr (0, 0)
      else case hash_buckets required of
        None \<Rightarrow> Inl (context_error ctx ''hash bucket count overflow'')
      | Some buckets \<Rightarrow>
          let alignment_slack = align_of H KV - 1 in
          (case Option.bind (checked_mul_usize buckets (size_of H KV)) (\<lambda>bytes.
                Option.bind (checked_add_usize bytes alignment_slack) (\<lambda>bytes.
                Option.bind (checked_add_usize bytes buckets) (\<lambda>bytes.
                checked_add_usize bytes 16))) of
             None \<Rightarrow> Inl (context_error ctx ''hash allocation size overflow'')
           | Some bytes \<Rightarrow> Inr (word_of_nat bytes, word_of_nat alignment_slack)))"

text \<open>A hash map: its entries and the number of entries it can hold before it grows.\<close>

record ('k, 'v) hash_map =
  hm_entries :: "('k \<times> 'v) list"
  hm_capacity :: usize

definition hash_map_new :: "('k, 'v) hash_map" where
  "hash_map_new = \<lparr>hm_entries = [], hm_capacity = 0\<rparr>"

definition hash_map_get :: "('k, 'v) hash_map \<Rightarrow> 'k \<Rightarrow> 'v option" where
  "hash_map_get m k = map_of (hm_entries m) k"

definition hash_map_contains_key :: "('k, 'v) hash_map \<Rightarrow> 'k \<Rightarrow> bool" where
  "hash_map_contains_key m k \<longleftrightarrow> hash_map_get m k \<noteq> None"

definition hash_map_len :: "('k, 'v) hash_map \<Rightarrow> usize" where
  "hash_map_len m = length (hm_entries m)"

text \<open>Inserting replaces the value of a key that is present.\<close>

definition hash_map_insert :: "('k, 'v) hash_map \<Rightarrow> 'k \<Rightarrow> 'v \<Rightarrow> ('k, 'v) hash_map" where
  "hash_map_insert m k v =
     m\<lparr>hm_entries := (k, v) # filter (\<lambda>p. fst p \<noteq> k) (hm_entries m)\<rparr>"

definition try_reserve_hash_map_in ::
  "'w host \<Rightarrow> 'w work_guard \<Rightarrow> rust_type \<Rightarrow> ('k, 'v) hash_map \<Rightarrow> usize \<Rightarrow> string \<Rightarrow>
   allocation_error_context \<Rightarrow> ('w, provider_error, ('k, 'v) hash_map) rm" where
  "try_reserve_hash_map_in H G KV values additional detail ctx =
     (if additional = 0 \<or> hm_capacity values - hash_map_len values \<ge> additional then retR values
      else bindR (optionR (context_error ctx ''hash entry count overflow'')
                    (checked_add_usize (hash_map_len values) additional)) (\<lambda>required.
           bindR (\<lambda>w. (hash_table_layout_in H KV required ctx, w)) (\<lambda>(bytes, slack).
           with_allocation_scope G bytes slack
             (thenR (reserve_or H (table_bytes H KV required) (context_error ctx detail))
                (retR (values\<lparr>hm_capacity := granted_capacity H KV required\<rparr>))))))"

definition try_reserve_hash_map ::
  "'w host \<Rightarrow> 'w work_guard \<Rightarrow> rust_type \<Rightarrow> ('k, 'v) hash_map \<Rightarrow> usize \<Rightarrow> string \<Rightarrow>
   ('w, provider_error, ('k, 'v) hash_map) rm" where
  "try_reserve_hash_map H G KV values additional detail =
     try_reserve_hash_map_in H G KV values additional detail PROVIDER_ALLOCATION"

definition try_hash_map_with_capacity_in ::
  "'w host \<Rightarrow> 'w work_guard \<Rightarrow> rust_type \<Rightarrow> usize \<Rightarrow> string \<Rightarrow> allocation_error_context \<Rightarrow>
   ('w, provider_error, ('k, 'v) hash_map) rm" where
  "try_hash_map_with_capacity_in H G KV capacity detail ctx =
     try_reserve_hash_map_in H G KV hash_map_new capacity detail ctx"

section \<open>Facts about the planner and the maps\<close>

lemma next_power_of_two_power: "\<exists>k. next_power_of_two n = 2 ^ k"
proof (induction n rule: next_power_of_two.induct)
  case (1 n)
  show ?case
  proof (cases "n \<le> 1")
    case True
    then have "next_power_of_two n = 2 ^ 0"
      by (simp add: next_power_of_two.simps [of n])
    then show ?thesis by blast
  next
    case False
    with 1 obtain k where "next_power_of_two ((n + 1) div 2) = 2 ^ k" by blast
    with False have "next_power_of_two n = 2 ^ Suc k"
      by (simp add: next_power_of_two.simps [of n])
    then show ?thesis by blast
  qed
qed

lemma next_power_of_two_bounds:
  "n \<le> next_power_of_two n \<and> (0 < n \<longrightarrow> next_power_of_two n < 2 * n)"
proof (induction n rule: next_power_of_two.induct)
  case (1 n)
  show ?case
  proof (cases "n \<le> 1")
    case True
    then show ?thesis by (auto simp: next_power_of_two.simps [of n])
  next
    case False
    have "next_power_of_two n = 2 * next_power_of_two ((n + 1) div 2)"
      using False by (simp add: next_power_of_two.simps [of n])
    moreover have "(n + 1) div 2 \<le> next_power_of_two ((n + 1) div 2)"
      and "next_power_of_two ((n + 1) div 2) < 2 * ((n + 1) div 2)"
      using 1 False by auto
    ultimately show ?thesis
    proof -
      obtain k where k: "next_power_of_two ((n + 1) div 2) = 2 ^ k"
        using next_power_of_two_power by blast
      have "2 * 2 ^ k < 2 * n"
      proof (cases "k = 0")
        case True
        then show ?thesis using False by simp
      next
        case k0: False
        then have ev: "even ((2::nat) ^ k)" by simp
        have lt: "2 ^ k < 2 * ((n + 1) div 2)"
          using \<open>next_power_of_two ((n + 1) div 2) < 2 * ((n + 1) div 2)\<close> k by simp
        have "2 * ((n + 1) div 2) \<le> n + 1" by simp
        then have "2 ^ k \<le> n" using lt by linarith
        moreover have "2 ^ k \<noteq> n \<or> even n" using ev by auto
        ultimately show ?thesis using lt by (cases "even n") auto
      qed
      then show ?thesis
        using \<open>next_power_of_two n = _\<close> k \<open>(n + 1) div 2 \<le> _\<close> by simp
    qed
  qed
qed

lemma hash_map_get_new [simp]: "hash_map_get hash_map_new k = None"
  by (simp add: hash_map_get_def hash_map_new_def)

lemma hash_map_get_insert [simp]:
  "hash_map_get (hash_map_insert m k v) k' = (if k' = k then Some v else hash_map_get m k')"
proof -
  have "map_of (filter (\<lambda>p. fst p \<noteq> k) ps) k' = (if k' = k then None else map_of ps k')" for ps
    by (induction ps) auto
  from this [of "hm_entries m"] show ?thesis
    by (simp add: hash_map_get_def hash_map_insert_def)
qed

lemma hash_map_get_capacity [simp]: "hash_map_get (m\<lparr>hm_capacity := c\<rparr>) k = hash_map_get m k"
  by (simp add: hash_map_get_def)

lemma hash_map_len_capacity [simp]: "hash_map_len (m\<lparr>hm_capacity := c\<rparr>) = hash_map_len m"
  by (simp add: hash_map_len_def)

lemma hash_map_len_insert_le: "hash_map_len (hash_map_insert m k v) \<le> Suc (hash_map_len m)"
  by (simp add: hash_map_len_def hash_map_insert_def)

section \<open>What a client of the guard may rely on\<close>

text \<open>
  Relations on worlds, \<open>R\<close> for success and \<open>E\<close> for failure, that a call of \<open>consume\<close>, a refused
  allocation scope and a complete scope (authorize, allocate no more than was authorized, close) all
  respect are respected by every definition below, and by every decoder built from them.
  \<open>table_reserved\<close> is the same for the buffer of a hash table, which is authorized by the layout bound
  computed for it.
\<close>

locale guarded_world = step_frame R E for R E :: "'w \<Rightarrow> 'w \<Rightarrow> bool" +
  fixes H :: "'w host" and G :: "'w work_guard"
  assumes consume_step: "stepR R E (wg_consume G d)"
    and scope_refused: "wg_begin_allocation_scope G d s w = (Inl a, w') \<Longrightarrow> E w w'"
    and scope_reserved: "wg_begin_allocation_scope G d s w = (Inr u, w') \<Longrightarrow>
        n \<le> unat (wd_resident_bytes d) \<Longrightarrow> try_reserve H n w' = (ok, w'') \<Longrightarrow>
        (if ok then R else E) w (wg_end_allocation_scope G w'')"
    and table_reserved: "hash_table_layout_in H KV n ctx = Inr (b, sl) \<Longrightarrow>
        wg_begin_allocation_scope G (work_default\<lparr>wd_resident_bytes := b\<rparr>) sl w = (Inr u, w') \<Longrightarrow>
        try_reserve H (table_bytes H KV n) w' = (ok, w'') \<Longrightarrow> (if ok then R else E) w (wg_end_allocation_scope G w'')"
begin

lemma step_consume: "stepR R E (consume G d)"
  unfolding consume_def by (rule stepR_mapErrR [OF consume_step])

lemma step_scope_with:
  assumes "\<And>w u w' ok w''. wg_begin_allocation_scope G (work_default\<lparr>wd_resident_bytes := b\<rparr>) sl w = (Inr u, w') \<Longrightarrow>
    try_reserve H n w' = (ok, w'') \<Longrightarrow> (if ok then R else E) w (wg_end_allocation_scope G w'')"
  shows "stepR R E (with_allocation_scope G b sl (thenR (reserve_or H n e) (retR x)))" (is "stepR R E ?m")
proof -
  have "case ?m w of (Inr x, t) \<Rightarrow> R w t | (Inl e, t) \<Rightarrow> E w t" for w
  proof (cases "wg_begin_allocation_scope G (work_default\<lparr>wd_resident_bytes := b\<rparr>) sl w")
    case (Pair r w')
    show ?thesis
    proof (cases r)
      case (Inl a)
      then show ?thesis
        using scope_refused Pair
        by (simp add: with_allocation_scope_def allocation_scope_begin_def
            allocation_scope_begin_with_delta_def mapErrR_def bindR_def)
    next
      case (Inr u)
      obtain ok w'' where tr: "try_reserve H n w' = (ok, w'')" by (cases "try_reserve H n w'")
      have "(if ok then R else E) w (wg_end_allocation_scope G w'')"
        using assms [of w u w' ok w''] Pair Inr tr by simp
      with Pair Inr tr show ?thesis
        by (simp add: with_allocation_scope_def allocation_scope_begin_def allocation_scope_drop_def
            allocation_scope_begin_with_delta_def mapErrR_def bindR_def thenR_def reserve_or_def
            split: if_splits)
    qed
  qed
  then show ?thesis by (simp add: stepR_def)
qed

lemma step_scope:
  assumes "n \<le> unat b"
  shows "stepR R E (with_allocation_scope G b sl (thenR (reserve_or H n e) (retR x)))"
  by (rule step_scope_with, erule scope_reserved) (use assms in simp_all)

lemma step_table_scope:
  assumes "hash_table_layout_in H KV n ctx = Inr (b, sl)"
  shows "stepR R E (with_allocation_scope G b sl (thenR (reserve_or H (table_bytes H KV n) e) (retR x)))"
  by (rule step_scope_with) (rule table_reserved [OF assms])

lemma array_bytes_exact:
  assumes "checked_array_bytes_in H T count ctx w = (Inr b, w')"
  shows "count * size_of H T = unat b"
proof -
  have lt: "count * size_of H T < 2 ^ 64" and b: "b = word_of_nat (count * size_of H T)"
    using assms by (auto simp: checked_array_bytes_in_def usize_limit_eq)
  then show ?thesis
    by (simp only: b unat_of_nat) simp
qed

lemma step_array_bytes: "stepR R E (checked_array_bytes_in H T c ctx)"
  unfolding checked_array_bytes_in_def by (rule step_option)

lemma step_reserve_vec_in: "stepR R E (try_reserve_vec_exact_in H G T cap capacity detail ctx)"
  unfolding try_reserve_vec_exact_in_def checked_vec_capacity_in_def
  by (intro stepR_if step_ret step_then step_bind step_bind_dep step_array_bytes step_scope)
    (simp add: array_bytes_exact)

lemma step_reserve_vec: "stepR R E (try_reserve_vec_exact H G T capacity detail)"
  unfolding try_reserve_vec_exact_def by (rule step_reserve_vec_in)

lemma step_push_vec: "stepR R E (try_push_vec_in H G T output value detail ctx)"
  unfolding try_push_vec_in_def
  by (intro stepR_if step_bind step_ret step_option step_result step_reserve_vec_in)

lemma step_copy_bytes: "stepR R E (try_copy_bytes H G bytes detail)"
  unfolding try_copy_bytes_def try_copy_bytes_in_def
  by (intro step_then step_ret step_reserve_vec_in)

lemma step_copy_string: "stepR R E (try_copy_string H G value detail)"
  unfolding try_copy_string_def try_copy_string_in_def
  by (intro step_bind_dep step_option step_scope)
    (auto simp: u64_try_from_def usize_limit_eq unat_of_nat split: if_splits)

lemma step_reserve_map: "stepR R E (try_reserve_hash_map H G KV values additional detail)"
  unfolding try_reserve_hash_map_def try_reserve_hash_map_in_def
  by (auto intro!: stepR_if step_ret step_bind_dep step_option step_result step_table_scope)

lemmas allocation_steps =
  step_consume step_reserve_vec_in step_reserve_vec step_push_vec step_copy_bytes step_copy_string step_reserve_map

end

section \<open>What a successful allocation returns\<close>

lemma with_allocation_scope_Inr:
  "with_allocation_scope G b sl body w = (Inr x, w') \<Longrightarrow> \<exists>w1 w2. body w1 = (Inr x, w2)"
  by (auto simp: with_allocation_scope_def bindR_Inr split_beta) (metis prod.collapse)

lemma try_copy_string_result: "try_copy_string H G v d w = (Inr v', w') \<Longrightarrow> v' = v"
  by (auto simp: try_copy_string_def try_copy_string_in_def rm_ok dest!: with_allocation_scope_Inr)

lemma try_copy_bytes_result: "try_copy_bytes H G v d w = (Inr v', w') \<Longrightarrow> v' = v"
  by (auto simp: try_copy_bytes_def try_copy_bytes_in_def rm_ok)

lemma try_reserve_hash_map_result:
  "try_reserve_hash_map H G KV m n d w = (Inr m', w') \<Longrightarrow> \<exists>c. m' = m\<lparr>hm_capacity := c\<rparr>"
  by (auto simp: try_reserve_hash_map_def try_reserve_hash_map_in_def rm_ok
      dest!: with_allocation_scope_Inr split: if_splits prod.splits
      intro: exI [of _ "hm_capacity m"])

section \<open>Guards that never refuse\<close>

text \<open>
  The guard the analyzer passes where no budget applies accepts everything
  (\<open>AllowStateWork\<close> in \<open>qtrace-analysis/src/registers.rs\<close>). Under such a guard, on a host whose
  allocator has memory and whose types are small enough that no size computation overflows, decoding
  fails only for what the input says.
\<close>

definition roomy :: "'w host \<Rightarrow> bool" where
  "roomy H \<longleftrightarrow> (\<forall>n w. fst (heap_reserve H n w)) \<and> (\<forall>T. size_of H T \<le> 4096 \<and> align_of H T \<le> 4096)"

text \<open>A host for the concrete instances of the theorems: the allocator always has memory.\<close>

definition unbounded_host :: "'w host" where
  "unbounded_host = \<lparr>size_of = (\<lambda>T. case T of T_u8 \<Rightarrow> 1 | _ \<Rightarrow> 64), align_of = (\<lambda>T. case T of T_u8 \<Rightarrow> 1 | _ \<Rightarrow> 8),
     heap_reserve = (\<lambda>_ w. (True, w)), granted_capacity = (\<lambda>_ n. n),
     table_bytes = (\<lambda>T n. case hash_buckets n of None \<Rightarrow> 0 | Some b \<Rightarrow> if n = 0 then 0 else b * 64 + b + 16)\<rparr>"

lemma roomy_unbounded_host: "roomy unbounded_host"
  by (simp add: roomy_def unbounded_host_def split: rust_type.split)

definition allow_state_work :: "'w work_guard" where
  "allow_state_work = default_guard (\<lambda>_. retR ())"

locale permissive_guard =
  fixes G :: "'w work_guard"
  assumes consume_ok: "fst (wg_consume G d w) = Inr ()"
    and scope_ok: "fst (wg_begin_allocation_scope G d s w) = Inr ()"
begin

lemma ok_consume: "\<exists>w'. consume G d w = (Inr (), w')"
  using consume_ok [of d w] unfolding consume_def mapErrR_Inr
  by (metis prod.collapse)

lemma ok_scope:
  assumes "roomy H"
  shows "\<exists>w'. with_allocation_scope G b sl (thenR (reserve_or H n e) (retR x)) w = (Inr x, w')"
proof -
  obtain w1 where b: "wg_begin_allocation_scope G (work_default\<lparr>wd_resident_bytes := b\<rparr>) sl w = (Inr (), w1)"
    using scope_ok by (metis prod.collapse)
  obtain w2 where r: "try_reserve H n w1 = (True, w2)"
    using assms by (auto simp: try_reserve_def roomy_def) (metis prod.collapse)+
  show ?thesis
    by (simp add: with_allocation_scope_def allocation_scope_begin_def
        allocation_scope_begin_with_delta_def mapErrR_def bindR_def thenR_def reserve_or_def b r)
qed

lemma ok_array_bytes:
  assumes "roomy H" and "count < 2 ^ 50"
  shows "\<exists>b. checked_array_bytes_in H T count ctx w = (Inr b, w)"
proof -
  have "count * size_of H T \<le> count * 4096"
    using assms(1) by (simp add: roomy_def)
  also have "\<dots> < usize_limit"
    using assms by (simp add: usize_limit_def)
  finally show ?thesis
    by (simp add: checked_array_bytes_in_def checked_mul_usize_def optionR_def)
qed

lemma ok_reserve_vec_in:
  assumes "roomy H" and "capacity < 2 ^ 50"
  shows "\<exists>c w'. try_reserve_vec_exact_in H G T cap capacity detail ctx w = (Inr c, w')"
proof -
  obtain b where b: "checked_array_bytes_in H T capacity ctx w = (Inr b, w)"
    by atomize_elim (rule ok_array_bytes [OF assms])
  then have "checked_vec_capacity_in H T capacity ctx w = (Inr capacity, w)"
    by (simp add: checked_vec_capacity_in_def thenR_def bindR_def)
  moreover obtain w' where "with_allocation_scope G b 0 (thenR
      (reserve_or H (capacity * size_of H T) (context_error ctx detail))
      (retR (granted_capacity H T capacity))) w = (Inr (granted_capacity H T capacity), w')"
    by atomize_elim (rule ok_scope [OF assms(1)])
  ultimately show ?thesis
    using b by (simp add: try_reserve_vec_exact_in_def bindR_def)
qed

lemma ok_reserve_vec:
  assumes "roomy H" and "capacity < 2 ^ 50"
  shows "\<exists>c w'. try_reserve_vec_exact H G T capacity detail w = (Inr c, w')"
  unfolding try_reserve_vec_exact_def by (rule ok_reserve_vec_in [OF assms])

lemma ok_copy_bytes:
  assumes "roomy H" and "length v < 2 ^ 50"
  shows "\<exists>w'. try_copy_bytes H G v detail w = (Inr v, w')"
proof -
  obtain c w' where "try_reserve_vec_exact H G T_u8 (length v) detail w = (Inr c, w')"
    by atomize_elim (rule ok_reserve_vec [OF assms])
  then show ?thesis
    by (simp add: try_copy_bytes_def try_copy_bytes_in_def try_reserve_vec_exact_def thenR_def bindR_def)
qed

lemma ok_copy_string:
  assumes "roomy H" and "length v < usize_limit"
  shows "\<exists>w'. try_copy_string H G v detail w = (Inr v, w')"
  using ok_scope assms
  by (simp add: try_copy_string_def try_copy_string_in_def u64_try_from_def optionR_def)

lemma ok_layout:
  assumes "roomy H" and "n < 2 ^ 40"
  shows "\<exists>b sl. hash_table_layout_in H KV n ctx = Inr (b, sl)"
proof -
  have pow: "next_power_of_two ((n * 8 + 6) div 7) < 2 ^ 42" if "8 \<le> n"
  proof -
    have "next_power_of_two ((n * 8 + 6) div 7) < 2 * ((n * 8 + 6) div 7)"
      using next_power_of_two_bounds [of "(n * 8 + 6) div 7"] that by auto
    with assms that show ?thesis by simp
  qed
  have "\<exists>k < 2 ^ 42. hash_buckets n = Some k"
  proof (cases "n < 8")
    case True
    then show ?thesis by (simp add: hash_buckets_def)
  next
    case False
    then have "next_power_of_two ((n * 8 + 6) div 7) < 2 ^ 42"
      using pow by simp
    with False assms show ?thesis
      by (simp add: hash_buckets_def checked_mul_usize_def checked_add_usize_def
          checked_next_power_of_two_def usize_limit_def)
  qed
  then obtain k where k: "k < 2 ^ 42" "hash_buckets n = Some k" by blast
  have "k * size_of H KV \<le> 2 ^ 42 * 4096"
    using k(1) assms(1) by (intro mult_le_mono) (auto simp: roomy_def)
  moreover have "align_of H KV - 1 \<le> 4096"
    using assms(1) by (simp add: roomy_def le_diff_conv order_trans [of _ 4096])
  ultimately show ?thesis
    using k by (simp add: hash_table_layout_in_def checked_mul_usize_def checked_add_usize_def
        usize_limit_def Let_def)
qed

lemma ok_reserve_map:
  assumes "roomy H" and "hash_map_len m + n < 2 ^ 40"
  shows "\<exists>c w'. try_reserve_hash_map H G KV m n detail w = (Inr (m\<lparr>hm_capacity := c\<rparr>), w')"
proof (cases "n = 0 \<or> hm_capacity m - hash_map_len m \<ge> n")
  case True
  then have "try_reserve_hash_map H G KV m n detail w = (Inr (m\<lparr>hm_capacity := hm_capacity m\<rparr>), w)"
    by (simp add: try_reserve_hash_map_def try_reserve_hash_map_in_def)
  then show ?thesis by blast
next
  case False
  obtain b sl where "hash_table_layout_in H KV (hash_map_len m + n) PROVIDER_ALLOCATION = Inr (b, sl)"
    by atomize_elim (rule ok_layout [OF assms])
  moreover obtain w' where "with_allocation_scope G b sl (thenR
      (reserve_or H (table_bytes H KV (hash_map_len m + n)) (context_error PROVIDER_ALLOCATION detail))
      (retR (m\<lparr>hm_capacity := granted_capacity H KV (hash_map_len m + n)\<rparr>))) w =
      (Inr (m\<lparr>hm_capacity := granted_capacity H KV (hash_map_len m + n)\<rparr>), w')"
    by atomize_elim (rule ok_scope [OF assms(1)])
  ultimately have "try_reserve_hash_map H G KV m n detail w =
      (Inr (m\<lparr>hm_capacity := granted_capacity H KV (hash_map_len m + n)\<rparr>), w')"
    using False assms
    by (simp add: try_reserve_hash_map_def try_reserve_hash_map_in_def checked_add_usize_def
        optionR_def bindR_def usize_limit_def)
  then show ?thesis by blast
qed

end

interpretation allow_all: permissive_guard allow_state_work
  by unfold_locales (simp_all add: allow_state_work_def default_guard_def)

end
