(* ===== verification/Qtrb_Wire.thy ===== *)
theory Qtrb_Wire
  imports Provider_Allocation
begin

text \<open>
  The framing constants of QTRB streams (\<open>qtrace-provider/src/qtrb/wire.rs\<close>) and the bounded payload
  cursor every record decoder reads through (\<open>qtrb/cursor.rs\<close>).
\<close>

unbundle bit_operations_syntax

section \<open>Wire constants\<close>

definition MAGIC :: "u8 list" where "MAGIC = [0x51, 0x54, 0x52, 0x42]"
definition MAJOR_VERSION :: u8 where "MAJOR_VERSION = 1"
definition LITTLE_ENDIAN_MARKER :: u8 where "LITTLE_ENDIAN_MARKER = 1"
definition STREAM_HEADER_BYTES :: usize where "STREAM_HEADER_BYTES = 16"
definition RECORD_HEADER_BYTES :: usize where "RECORD_HEADER_BYTES = 8"
definition STOPPED_TERMINAL_FEATURE :: u32 where "STOPPED_TERMINAL_FEATURE = 1"

definition MAX_CONTEXT_STRING_BYTES :: usize where "MAX_CONTEXT_STRING_BYTES = 255"
definition MAX_MODULE_NAME_BYTES :: usize where "MAX_MODULE_NAME_BYTES = 255"
definition MAX_CALL_CATEGORY_BYTES :: usize where "MAX_CALL_CATEGORY_BYTES = 255"
definition MAX_CALL_NAME_BYTES :: usize where "MAX_CALL_NAME_BYTES = 255"
definition MAX_EVENT_NAME_BYTES :: usize where "MAX_EVENT_NAME_BYTES = 255"
definition MAX_EVENT_DETAIL_BYTES :: usize where "MAX_EVENT_DETAIL_BYTES = 4096"
definition MAX_CALL_CHUNK_DETAIL_BYTES :: usize where "MAX_CALL_CHUNK_DETAIL_BYTES = 3072"
definition MAX_EVENT_CHUNK_DETAIL_BYTES :: usize where "MAX_EVENT_CHUNK_DETAIL_BYTES = 3072"
definition MAX_LOGICAL_CALL_DETAIL_BYTES :: u32 where "MAX_LOGICAL_CALL_DETAIL_BYTES = push_bit 20 1"
definition MAX_MNEMONIC_BYTES :: usize where "MAX_MNEMONIC_BYTES = 16"
definition MAX_OPERANDS_BYTES :: usize where "MAX_OPERANDS_BYTES = 96"
definition MAX_DISASSEMBLY_BYTES :: usize where "MAX_DISASSEMBLY_BYTES = 112"
definition MAX_REGISTER_NAME_BYTES :: usize where "MAX_REGISTER_NAME_BYTES = 16"
definition MAX_GPR_COUNT :: usize where "MAX_GPR_COUNT = 34"
definition MAX_MEMORY_OPERAND_COUNT :: usize where "MAX_MEMORY_OPERAND_COUNT = 4"
definition MAX_CAPTURED_MEMORY_BYTES :: usize where "MAX_CAPTURED_MEMORY_BYTES = 64"
definition MAX_DICTIONARY_ENTRIES :: usize where "MAX_DICTIONARY_ENTRIES = push_bit 16 1"

definition TRACE_BEGIN_FIXED_PAYLOAD_BYTES :: u32 where "TRACE_BEGIN_FIXED_PAYLOAD_BYTES = 54"
definition MODULE_DEFINITION_FIXED_PAYLOAD_BYTES :: u32 where
  "MODULE_DEFINITION_FIXED_PAYLOAD_BYTES = 14"
definition INSTRUCTION_DEFINITION_FIXED_PAYLOAD_BYTES :: u32 where
  "INSTRUCTION_DEFINITION_FIXED_PAYLOAD_BYTES = 40"
definition ENCODED_MEMORY_OPERAND_BYTES :: u32 where "ENCODED_MEMORY_OPERAND_BYTES = 19"
definition INSTRUCTION_FIXED_PAYLOAD_BYTES :: u32 where "INSTRUCTION_FIXED_PAYLOAD_BYTES = 26"
definition MEMORY_FIXED_PAYLOAD_BYTES :: u32 where "MEMORY_FIXED_PAYLOAD_BYTES = 40"
definition CALL_FIXED_PAYLOAD_BYTES :: u32 where "CALL_FIXED_PAYLOAD_BYTES = 6"
definition CALL_CHUNK_METADATA_BYTES :: u32 where "CALL_CHUNK_METADATA_BYTES = 16"
definition CALL_CHUNK_FIXED_PAYLOAD_BYTES :: u32 where
  "CALL_CHUNK_FIXED_PAYLOAD_BYTES = CALL_CHUNK_METADATA_BYTES + CALL_FIXED_PAYLOAD_BYTES"
definition RULE_ERROR_FIXED_PAYLOAD_BYTES :: u32 where "RULE_ERROR_FIXED_PAYLOAD_BYTES = 4"
definition EVENT_CHUNK_METADATA_BYTES :: u32 where "EVENT_CHUNK_METADATA_BYTES = 16"
definition EVENT_CHUNK_FIXED_PAYLOAD_BYTES :: u32 where
  "EVENT_CHUNK_FIXED_PAYLOAD_BYTES = EVENT_CHUNK_METADATA_BYTES + RULE_ERROR_FIXED_PAYLOAD_BYTES"
definition TRACE_BEGIN_PAYLOAD_MAX :: u32 where
  "TRACE_BEGIN_PAYLOAD_MAX =
     TRACE_BEGIN_FIXED_PAYLOAD_BYTES + 2 * word_of_nat MAX_CONTEXT_STRING_BYTES"
definition MODULE_DEFINITION_PAYLOAD_MAX :: u32 where
  "MODULE_DEFINITION_PAYLOAD_MAX =
     MODULE_DEFINITION_FIXED_PAYLOAD_BYTES + word_of_nat MAX_MODULE_NAME_BYTES"
definition INSTRUCTION_DEFINITION_PAYLOAD_MAX :: u32 where
  "INSTRUCTION_DEFINITION_PAYLOAD_MAX =
     INSTRUCTION_DEFINITION_FIXED_PAYLOAD_BYTES
     + (2 + word_of_nat MAX_MNEMONIC_BYTES)
     + (2 + word_of_nat MAX_OPERANDS_BYTES)
     + (2 + word_of_nat MAX_DISASSEMBLY_BYTES)
     + 2 * word_of_nat MAX_GPR_COUNT * (1 + 2 + word_of_nat MAX_REGISTER_NAME_BYTES)
     + word_of_nat MAX_MEMORY_OPERAND_COUNT * ENCODED_MEMORY_OPERAND_BYTES"
definition INSTRUCTION_PAYLOAD_MAX :: u32 where
  "INSTRUCTION_PAYLOAD_MAX = INSTRUCTION_FIXED_PAYLOAD_BYTES + 2 * word_of_nat MAX_GPR_COUNT * 8"
definition MEMORY_PAYLOAD_MAX :: u32 where
  "MEMORY_PAYLOAD_MAX = MEMORY_FIXED_PAYLOAD_BYTES + 2 * word_of_nat MAX_CAPTURED_MEMORY_BYTES"
definition CALL_PAYLOAD_MAX :: u32 where
  "CALL_PAYLOAD_MAX = CALL_FIXED_PAYLOAD_BYTES + word_of_nat MAX_CALL_CATEGORY_BYTES
     + word_of_nat MAX_CALL_NAME_BYTES + word_of_nat MAX_EVENT_DETAIL_BYTES"
definition CALL_CHUNK_PAYLOAD_MAX :: u32 where
  "CALL_CHUNK_PAYLOAD_MAX = CALL_CHUNK_FIXED_PAYLOAD_BYTES + word_of_nat MAX_CALL_CATEGORY_BYTES
     + word_of_nat MAX_CALL_NAME_BYTES + word_of_nat MAX_CALL_CHUNK_DETAIL_BYTES"
definition RULE_ERROR_PAYLOAD_MAX :: u32 where
  "RULE_ERROR_PAYLOAD_MAX = RULE_ERROR_FIXED_PAYLOAD_BYTES + word_of_nat MAX_EVENT_NAME_BYTES
     + word_of_nat MAX_EVENT_DETAIL_BYTES"
definition EVENT_CHUNK_PAYLOAD_MAX :: u32 where
  "EVENT_CHUNK_PAYLOAD_MAX = EVENT_CHUNK_FIXED_PAYLOAD_BYTES + word_of_nat MAX_EVENT_NAME_BYTES
     + word_of_nat MAX_EVENT_CHUNK_DETAIL_BYTES"
definition TRACE_END_PAYLOAD_BYTES :: u32 where "TRACE_END_PAYLOAD_BYTES = 97"
definition TRACE_STOP_PAYLOAD_BYTES :: u32 where "TRACE_STOP_PAYLOAD_BYTES = 96"
definition MAX_RECORD_BYTES :: u32 where
  "MAX_RECORD_BYTES = word_of_nat RECORD_HEADER_BYTES + CALL_PAYLOAD_MAX"
definition MAX_OPAQUE_PAYLOAD_BYTES :: u32 where
  "MAX_OPAQUE_PAYLOAD_BYTES = MAX_RECORD_BYTES - word_of_nat RECORD_HEADER_BYTES"

definition OPTIONAL_RECORD_TYPE_MIN :: u16 where "OPTIONAL_RECORD_TYPE_MIN = 0x8000"
definition CHUNK_FLAG :: u16 where "CHUNK_FLAG = 1"
definition VALID_INSTRUCTION_FLAGS :: u32 where "VALID_INSTRUCTION_FLAGS = 0x0f"

lemmas wire_constants =
  MAGIC_def MAJOR_VERSION_def LITTLE_ENDIAN_MARKER_def STREAM_HEADER_BYTES_def
  RECORD_HEADER_BYTES_def STOPPED_TERMINAL_FEATURE_def MAX_CONTEXT_STRING_BYTES_def
  MAX_MODULE_NAME_BYTES_def MAX_CALL_CATEGORY_BYTES_def MAX_CALL_NAME_BYTES_def
  MAX_EVENT_NAME_BYTES_def MAX_EVENT_DETAIL_BYTES_def MAX_CALL_CHUNK_DETAIL_BYTES_def
  MAX_EVENT_CHUNK_DETAIL_BYTES_def MAX_LOGICAL_CALL_DETAIL_BYTES_def MAX_MNEMONIC_BYTES_def
  MAX_OPERANDS_BYTES_def MAX_DISASSEMBLY_BYTES_def MAX_REGISTER_NAME_BYTES_def MAX_GPR_COUNT_def
  MAX_MEMORY_OPERAND_COUNT_def MAX_CAPTURED_MEMORY_BYTES_def MAX_DICTIONARY_ENTRIES_def
  OPTIONAL_RECORD_TYPE_MIN_def CHUNK_FLAG_def VALID_INSTRUCTION_FLAGS_def

lemmas payload_maxima =
  TRACE_BEGIN_FIXED_PAYLOAD_BYTES_def MODULE_DEFINITION_FIXED_PAYLOAD_BYTES_def
  INSTRUCTION_DEFINITION_FIXED_PAYLOAD_BYTES_def ENCODED_MEMORY_OPERAND_BYTES_def
  INSTRUCTION_FIXED_PAYLOAD_BYTES_def MEMORY_FIXED_PAYLOAD_BYTES_def CALL_FIXED_PAYLOAD_BYTES_def
  CALL_CHUNK_METADATA_BYTES_def CALL_CHUNK_FIXED_PAYLOAD_BYTES_def RULE_ERROR_FIXED_PAYLOAD_BYTES_def
  EVENT_CHUNK_METADATA_BYTES_def EVENT_CHUNK_FIXED_PAYLOAD_BYTES_def TRACE_BEGIN_PAYLOAD_MAX_def
  MODULE_DEFINITION_PAYLOAD_MAX_def INSTRUCTION_DEFINITION_PAYLOAD_MAX_def INSTRUCTION_PAYLOAD_MAX_def
  MEMORY_PAYLOAD_MAX_def CALL_PAYLOAD_MAX_def CALL_CHUNK_PAYLOAD_MAX_def RULE_ERROR_PAYLOAD_MAX_def
  EVENT_CHUNK_PAYLOAD_MAX_def TRACE_END_PAYLOAD_BYTES_def TRACE_STOP_PAYLOAD_BYTES_def
  MAX_RECORD_BYTES_def MAX_OPAQUE_PAYLOAD_BYTES_def

section \<open>Record types\<close>

datatype record_type =
    RT_TraceBegin | RT_ModuleDefinition | RT_InstructionDefinition | RT_Instruction | RT_Memory
  | RT_Call | RT_Rule | RT_Error | RT_TraceEnd | RT_TraceStop

definition record_type_from_raw :: "u16 \<Rightarrow> record_type option" where
  "record_type_from_raw v =
     (if v = 1 then Some RT_TraceBegin
      else if v = 2 then Some RT_ModuleDefinition
      else if v = 3 then Some RT_InstructionDefinition
      else if v = 4 then Some RT_Instruction
      else if v = 5 then Some RT_Memory
      else if v = 6 then Some RT_Call
      else if v = 7 then Some RT_Rule
      else if v = 8 then Some RT_Error
      else if v = 9 then Some RT_TraceEnd
      else if v = 10 then Some RT_TraceStop
      else None)"

definition payload_limit :: "record_type \<Rightarrow> u16 \<Rightarrow> u32 option" where
  "payload_limit t flags = (case t of
       RT_TraceBegin \<Rightarrow> if flags = 0 then Some TRACE_BEGIN_PAYLOAD_MAX else None
     | RT_ModuleDefinition \<Rightarrow> if flags = 0 then Some MODULE_DEFINITION_PAYLOAD_MAX else None
     | RT_InstructionDefinition \<Rightarrow>
         if flags = 0 then Some INSTRUCTION_DEFINITION_PAYLOAD_MAX else None
     | RT_Instruction \<Rightarrow> if flags = 0 then Some INSTRUCTION_PAYLOAD_MAX else None
     | RT_Memory \<Rightarrow> if flags = 0 then Some MEMORY_PAYLOAD_MAX else None
     | RT_Call \<Rightarrow> if flags = 0 then Some CALL_PAYLOAD_MAX
                  else if flags = CHUNK_FLAG then Some CALL_CHUNK_PAYLOAD_MAX else None
     | RT_Rule \<Rightarrow> if flags = 0 then Some RULE_ERROR_PAYLOAD_MAX
                  else if flags = CHUNK_FLAG then Some EVENT_CHUNK_PAYLOAD_MAX else None
     | RT_Error \<Rightarrow> if flags = 0 then Some RULE_ERROR_PAYLOAD_MAX
                   else if flags = CHUNK_FLAG then Some EVENT_CHUNK_PAYLOAD_MAX else None
     | RT_TraceEnd \<Rightarrow> if flags = 0 then Some TRACE_END_PAYLOAD_BYTES else None
     | RT_TraceStop \<Rightarrow> if flags = 0 then Some TRACE_STOP_PAYLOAD_BYTES else None)"

section \<open>The payload cursor\<close>

record payload_cursor =
  pc_bytes :: "u8 list"
  pc_position :: usize
  pc_label :: string
  pc_coordinate :: source_coordinate

type_synonym ('w, 'a) payload_rm = "(payload_cursor \<times> 'w, provider_error, 'a) rm"

definition payload_cursor_new :: "u8 list \<Rightarrow> string \<Rightarrow> source_coordinate \<Rightarrow> payload_cursor" where
  "payload_cursor_new bytes label coordinate =
     \<lparr>pc_bytes = bytes, pc_position = 0, pc_label = label, pc_coordinate = coordinate\<rparr>"

definition pc_invalid_length :: "payload_cursor \<Rightarrow> provider_error" where
  "pc_invalid_length c =
     provider_error_new ''source.invalid_payload'' ''qtrb.payload'' (Some (pc_coordinate c)) False
       (''invalid '' @ pc_label c @ '' payload length'')"

definition pc_take :: "usize \<Rightarrow> ('w, u8 list) payload_rm" where
  "pc_take count = (\<lambda>(c, w).
     case checked_add_usize (pc_position c) count of
       None \<Rightarrow> (Inl (pc_invalid_length c), (c, w))
     | Some end \<Rightarrow>
         (case slice_get (pc_bytes c) (pc_position c) end of
            None \<Rightarrow> (Inl (pc_invalid_length c), (c, w))
          | Some bytes \<Rightarrow> (Inr bytes, (c\<lparr>pc_position := end\<rparr>, w))))"

definition pc_u8 :: "('w, u8) payload_rm" where
  "pc_u8 = bindR (pc_take 1) (\<lambda>bytes. retR (bytes ! 0))"

definition pc_u16_le :: "('w, u16) payload_rm" where
  "pc_u16_le = bindR (pc_take 2) (\<lambda>bytes. retR (from_le_bytes bytes))"

definition pc_u32_le :: "('w, u32) payload_rm" where
  "pc_u32_le = bindR (pc_take 4) (\<lambda>bytes. retR (from_le_bytes bytes))"

definition pc_u64_le :: "('w, u64) payload_rm" where
  "pc_u64_le = bindR (pc_take 8) (\<lambda>bytes. retR (from_le_bytes bytes))"

definition pc_i64_le :: "('w, i64) payload_rm" where
  "pc_i64_le = bindR (pc_take 8) (\<lambda>bytes. retR (from_le_bytes bytes))"

definition pc_error :: "string \<Rightarrow> string \<Rightarrow> ('w, 'a) payload_rm" where
  "pc_error code detail = (\<lambda>(c, w).
     (Inl (provider_error_new code ''qtrb.payload'' (Some (pc_coordinate c)) False detail), (c, w)))"

definition bounded_utf8_guarded ::
  "'w host \<Rightarrow> 'w work_guard \<Rightarrow> usize \<Rightarrow> string \<Rightarrow> ('w, utf8) payload_rm" where
  "bounded_utf8_guarded H G maximum field =
     bindR pc_u16_le (\<lambda>n.
     if unat n > maximum
     then pc_error ''source.invalid_payload'' (field @ '' exceeds '' @ decimal maximum @ '' bytes'')
     else bindR (pc_take (unat n)) (\<lambda>raw.
       if \<not> utf8_valid raw
       then pc_error ''source.invalid_utf8'' (field @ '' is not valid UTF-8'')
       else liftW (try_copy_string H G raw ''QTRB string allocation failed'')))"

definition pc_finish :: "('w, unit) payload_rm" where
  "pc_finish = (\<lambda>(c, w).
     (if pc_position c = length (pc_bytes c) then Inr () else Inl (pc_invalid_length c), (c, w)))"

text \<open>Run a decoder on a fresh cursor; the cursor is local to the caller.\<close>

definition with_payload ::
  "u8 list \<Rightarrow> string \<Rightarrow> source_coordinate \<Rightarrow> ('w, 'a) payload_rm \<Rightarrow> ('w, provider_error, 'a) rm" where
  "with_payload bytes label coordinate m =
     (\<lambda>w. case m (payload_cursor_new bytes label coordinate, w) of (r, (c, w')) \<Rightarrow> (r, w'))"

section \<open>What a successful read has consumed\<close>

text \<open>
  \<open>pc_rest c\<close> is what the cursor has not read yet. Every successful primitive splits off exactly
  the little-endian bytes of the value it returns, so a decoder that succeeds determines the bytes
  it has read: the rules below are applied as destructions to the chain of reads of a decoder.
\<close>

definition pc_rest :: "payload_cursor \<Rightarrow> u8 list" where
  "pc_rest c = drop (pc_position c) (pc_bytes c)"

text \<open>A length-prefixed string as the wire carries it.\<close>

definition wire_string :: "u8 list \<Rightarrow> u8 list" where
  "wire_string v = to_le_bytes 2 (word_of_nat (length v) :: u16) @ v"

lemma pc_take_ok:
  assumes "pc_take n (c, w) = (Inr bs, (c', w'))"
  shows "w' = w \<and> pc_rest c = bs @ pc_rest c' \<and> length bs = n"
proof -
  have "pc_position c + n \<le> length (pc_bytes c)" and "bs = take n (drop (pc_position c) (pc_bytes c))"
    and "c' = c\<lparr>pc_position := pc_position c + n\<rparr>" and "w' = w"
    using assms by (auto simp: pc_take_def slice_get_Some split: option.splits)
  then show ?thesis
    by (simp add: pc_rest_def add.commute [of _ n] flip: drop_drop)
qed

lemma pc_u8_ok: "pc_u8 (c, w) = (Inr v, (c', w')) \<Longrightarrow> w' = w \<and> pc_rest c = v # pc_rest c'"
  by (auto simp: pc_u8_def rm_ok length_Suc_conv dest!: pc_take_ok)

lemma le_read_ok:
  assumes "bindR (pc_take n) (\<lambda>bytes. retR (from_le_bytes bytes)) (c, w) = (Inr (v :: 'a::len word), (c', w'))"
    and "8 * n = LENGTH('a)"
  shows "w' = w \<and> pc_rest c = to_le_bytes n v @ pc_rest c'"
  using assms by (auto simp: rm_ok to_from_le_bytes dest!: pc_take_ok)

lemma pc_u16_le_ok:
  "pc_u16_le (c, w) = (Inr v, (c', w')) \<Longrightarrow> w' = w \<and> pc_rest c = to_le_bytes 2 v @ pc_rest c'"
  unfolding pc_u16_le_def by (rule le_read_ok) simp_all

lemma pc_u32_le_ok:
  "pc_u32_le (c, w) = (Inr v, (c', w')) \<Longrightarrow> w' = w \<and> pc_rest c = to_le_bytes 4 v @ pc_rest c'"
  unfolding pc_u32_le_def by (rule le_read_ok) simp_all

lemma pc_u64_le_ok:
  "pc_u64_le (c, w) = (Inr v, (c', w')) \<Longrightarrow> w' = w \<and> pc_rest c = to_le_bytes 8 v @ pc_rest c'"
  unfolding pc_u64_le_def by (rule le_read_ok) simp_all

lemma pc_i64_le_ok:
  "pc_i64_le (c, w) = (Inr v, (c', w')) \<Longrightarrow> w' = w \<and> pc_rest c = to_le_bytes 8 v @ pc_rest c'"
  unfolding pc_i64_le_def by (rule le_read_ok) simp_all

lemma pc_finish_ok: "pc_finish (c, w) = (Inr u, (c', w')) \<Longrightarrow> w' = w \<and> c' = c \<and> pc_rest c = []"
  by (auto simp: pc_finish_def pc_rest_def split: if_splits)

lemma pc_error_not_ok [simp]: "pc_error code detail s \<noteq> (Inr x, t)"
  by (cases s) (simp add: pc_error_def)

lemma bounded_utf8_ok:
  "bounded_utf8_guarded H G maximum field (c, w) = (Inr v, (c', w')) \<Longrightarrow>
     pc_rest c = wire_string v @ pc_rest c' \<and> utf8_valid v \<and> length v \<le> maximum"
  by (auto simp: bounded_utf8_guarded_def rm_ok wire_string_def split: if_splits
      dest!: pc_u16_le_ok pc_take_ok try_copy_string_result)

lemma with_payload_ok:
  "with_payload bytes label k m w = (Inr x, w') \<Longrightarrow>
     \<exists>c c'. m (c, w) = (Inr x, (c', w')) \<and> pc_rest c = bytes"
  by (auto simp: with_payload_def payload_cursor_new_def pc_rest_def split: prod.splits)

lemmas read_ok =
  pc_take_ok pc_u8_ok pc_u16_le_ok pc_u32_le_ok pc_u64_le_ok pc_i64_le_ok pc_finish_ok bounded_utf8_ok

text \<open>
  A chain of reads that succeeded is taken apart from the front, one elimination per read.
\<close>

named_theorems read_elims "eliminations that take a successful decoder apart"

lemma bind_retE [read_elims]:
  assumes "bindR (resultR r) k (c, w) = (Inr y, s)"
  obtains v where "r = Inr v" and "k v (c, w) = (Inr y, s)"
  using assms by (auto simp: bindR_Inr)

lemma else_okE [read_elims]:
  assumes "(if b then throwR e else m) s = (Inr y, t)"
  obtains "\<not> b" and "m s = (Inr y, t)"
  using assms by (auto split: if_splits)

lemma bind_u8E [read_elims]:
  assumes "bindR pc_u8 k (c, w) = (Inr y, s)"
  obtains v c1 where "pc_rest c = v # pc_rest c1" and "k v (c1, w) = (Inr y, s)"
  using assms by (auto simp: bindR_Inr dest!: pc_u8_ok)

lemma bind_u16E [read_elims]:
  assumes "bindR pc_u16_le k (c, w) = (Inr y, s)"
  obtains v c1 where "pc_rest c = to_le_bytes 2 v @ pc_rest c1" and "k v (c1, w) = (Inr y, s)"
  using assms by (auto simp: bindR_Inr dest!: pc_u16_le_ok)

lemma bind_u32E [read_elims]:
  assumes "bindR pc_u32_le k (c, w) = (Inr y, s)"
  obtains v c1 where "pc_rest c = to_le_bytes 4 v @ pc_rest c1" and "k v (c1, w) = (Inr y, s)"
  using assms by (auto simp: bindR_Inr dest!: pc_u32_le_ok)

lemma bind_u64E [read_elims]:
  assumes "bindR pc_u64_le k (c, w) = (Inr y, s)"
  obtains v c1 where "pc_rest c = to_le_bytes 8 v @ pc_rest c1" and "k v (c1, w) = (Inr y, s)"
  using assms by (auto simp: bindR_Inr dest!: pc_u64_le_ok)

lemma bind_i64E [read_elims]:
  assumes "bindR pc_i64_le k (c, w) = (Inr y, s)"
  obtains v c1 where "pc_rest c = to_le_bytes 8 v @ pc_rest c1" and "k v (c1, w) = (Inr y, s)"
  using assms by (auto simp: bindR_Inr dest!: pc_i64_le_ok)

lemma bind_takeE [read_elims]:
  assumes "bindR (pc_take n) k (c, w) = (Inr y, s)"
  obtains v c1 where "pc_rest c = v @ pc_rest c1" and "length v = n" and "k v (c1, w) = (Inr y, s)"
  using assms by (auto simp: bindR_Inr dest!: pc_take_ok)

lemma bind_finishE [read_elims]:
  assumes "bindR pc_finish k (c, w) = (Inr y, s)"
  obtains "pc_rest c = []" and "k () (c, w) = (Inr y, s)"
  using assms by (auto simp: bindR_Inr dest!: pc_finish_ok)

lemma bind_utf8E [read_elims]:
  assumes "bindR (bounded_utf8_guarded H G maximum field) k (c, w) = (Inr y, s)"
  obtains v c1 w1 where "pc_rest c = wire_string v @ pc_rest c1" and "utf8_valid v"
    and "length v \<le> maximum" and "k v (c1, w1) = (Inr y, s)"
  using assms by (auto simp: bindR_Inr dest!: bounded_utf8_ok)

lemma bind_reserveE [read_elims]:
  assumes "bindR (liftW (try_reserve_vec_exact H G T n detail)) k (c, w) = (Inr y, s)"
  obtains v w1 where "k v (c, w1) = (Inr y, s)"
  using assms by (auto simp: bindR_Inr)

lemma bind_copy_stringE [read_elims]:
  assumes "bindR (liftW (try_copy_string H G v detail)) k (c, w) = (Inr y, s)"
  obtains w1 where "k v (c, w1) = (Inr y, s)"
  using assms by (auto simp: bindR_Inr dest!: try_copy_string_result)

lemma bind_copy_bytesE [read_elims]:
  assumes "bindR (liftW (try_copy_bytes H G v detail)) k (c, w) = (Inr y, s)"
  obtains w1 where "k v (c, w1) = (Inr y, s)"
  using assms by (auto simp: bindR_Inr dest!: try_copy_bytes_result)

lemma forR_ok:
  assumes "\<And>x c w y c' w'. x \<in> set xs \<Longrightarrow> f x (c, w) = (Inr y, (c', w')) \<Longrightarrow>
      pc_rest c = enc y @ pc_rest c' \<and> P x y"
    and "forR f xs (c, w) = (Inr ys, (c', w'))"
  shows "pc_rest c = concat (map enc ys) @ pc_rest c' \<and> list_all2 P xs ys"
  using assms
proof (induction xs arbitrary: c w ys)
  case Nil
  then show ?case by simp
next
  case (Cons x xs)
  obtain y c1 w1 ys' where y: "f x (c, w) = (Inr y, (c1, w1))"
    and ys': "forR f xs (c1, w1) = (Inr ys', (c', w'))" and ys: "ys = y # ys'"
    using Cons.prems(2) by (auto simp: rm_ok)
  have "pc_rest c = enc y @ pc_rest c1 \<and> P x y"
    using Cons.prems(1) [of x c w y c1 w1] y by simp
  moreover have "pc_rest c1 = concat (map enc ys') @ pc_rest c' \<and> list_all2 P xs ys'"
    using Cons.IH [OF _ ys'] Cons.prems(1) by (metis list.set_intros(2))
  ultimately show ?case using ys by simp
qed

section \<open>What a read accepts\<close>

text \<open>
  \<open>accepts m c x c'\<close>: from cursor \<open>c\<close>, in any world, \<open>m\<close> returns \<open>x\<close> and leaves \<open>c'\<close>. A cursor in the
  middle of a payload is \<open>pc_at d r\<close> with \<open>d\<close> read and \<open>r\<close> to come, so the rules run a decoder along
  the concatenation it reads.
\<close>

definition pc_at :: "u8 list \<Rightarrow> u8 list \<Rightarrow> string \<Rightarrow> source_coordinate \<Rightarrow> payload_cursor" where
  "pc_at d r l k = \<lparr>pc_bytes = d @ r, pc_position = length d, pc_label = l, pc_coordinate = k\<rparr>"

definition accepts :: "('w, 'a) payload_rm \<Rightarrow> payload_cursor \<Rightarrow> 'a \<Rightarrow> payload_cursor \<Rightarrow> bool" where
  "accepts m c x c' \<longleftrightarrow> (length (pc_bytes c) < usize_limit \<longrightarrow>
     pc_bytes c' = pc_bytes c \<and> (\<forall>w. \<exists>w'. m (c, w) = (Inr x, (c', w'))))"

named_theorems accept_intros "rules that run a decoder along the bytes it reads"

lemma accepts_ret [accept_intros]: "accepts (retR x) c x c"
  by (simp add: accepts_def)

lemma accepts_bind [accept_intros]:
  assumes "accepts m c x c1" and "accepts (k x) c1 y c2"
  shows "accepts (bindR m k) c y c2"
  using assms unfolding accepts_def bindR_def
  by (metis (no_types, lifting) case_prod_conv old.sum.simps(6))

lemma accepts_conv: "accepts m c x c' \<Longrightarrow> c' = c'' \<Longrightarrow> accepts m c x c''"
  by simp

lemma accepts_else [accept_intros]: "\<not> b \<Longrightarrow> accepts n c x c' \<Longrightarrow> accepts (if b then m else n) c x c'"
  by simp

lemma accepts_take:
  assumes "n = length b"
  shows "accepts (pc_take n) (pc_at d (b @ r) l k) b (pc_at (d @ b) r l k)"
  using assms
  by (auto simp: accepts_def pc_at_def pc_take_def checked_add_usize_def slice_get_def)

lemma accepts_u8 [accept_intros]: "accepts pc_u8 (pc_at d (v # r) l k) v (pc_at (d @ [v]) r l k)"
proof -
  have "accepts (pc_take 1) (pc_at d ([v] @ r) l k) [v] (pc_at (d @ [v]) r l k)"
    by (rule accepts_take) simp
  then have "accepts pc_u8 (pc_at d ([v] @ r) l k) ([v] ! 0) (pc_at (d @ [v]) r l k)"
    unfolding pc_u8_def by (rule accepts_bind) (rule accepts_ret)
  then show ?thesis by simp
qed

lemma accepts_le:
  fixes v :: "'a::len word"
  assumes "8 * n = LENGTH('a)"
  shows "accepts (bindR (pc_take n) (\<lambda>bytes. retR (from_le_bytes bytes)))
    (pc_at d (to_le_bytes n v @ r) l k) v (pc_at (d @ to_le_bytes n v) r l k)"
proof -
  have "accepts (bindR (pc_take n) (\<lambda>bytes. retR (from_le_bytes bytes)))
    (pc_at d (to_le_bytes n v @ r) l k) (from_le_bytes (to_le_bytes n v) :: 'a word)
    (pc_at (d @ to_le_bytes n v) r l k)"
    by (rule accepts_bind [OF accepts_take]) (simp_all add: accepts_ret)
  then show ?thesis using assms by (simp add: from_to_le_bytes)
qed

lemma accepts_u16 [accept_intros]:
  "accepts pc_u16_le (pc_at d (to_le_bytes 2 v @ r) l k) v (pc_at (d @ to_le_bytes 2 v) r l k)"
  unfolding pc_u16_le_def by (rule accepts_le) simp

lemma accepts_u32 [accept_intros]:
  "accepts pc_u32_le (pc_at d (to_le_bytes 4 v @ r) l k) v (pc_at (d @ to_le_bytes 4 v) r l k)"
  unfolding pc_u32_le_def by (rule accepts_le) simp

lemma accepts_u64 [accept_intros]:
  "accepts pc_u64_le (pc_at d (to_le_bytes 8 v @ r) l k) v (pc_at (d @ to_le_bytes 8 v) r l k)"
  unfolding pc_u64_le_def by (rule accepts_le) simp

lemma accepts_i64 [accept_intros]:
  "accepts pc_i64_le (pc_at d (to_le_bytes 8 v @ r) l k) v (pc_at (d @ to_le_bytes 8 v) r l k)"
  unfolding pc_i64_le_def by (rule accepts_le) simp

lemma accepts_finish [accept_intros]: "accepts pc_finish (pc_at d [] l k) () (pc_at d [] l k)"
  by (simp add: accepts_def pc_finish_def pc_at_def)

lemma accepts_liftW: "(\<And>w. \<exists>w'. m w = (Inr x, w')) \<Longrightarrow> accepts (liftW m) c x c"
  by (simp add: accepts_def)

lemma accepts_with_payload:
  assumes "accepts m (pc_at [] bytes l k) x c'" and "length bytes < usize_limit"
  shows "\<exists>w'. with_payload bytes l k m w = (Inr x, w')"
  using assms
  by (auto simp: accepts_def pc_at_def with_payload_def payload_cursor_new_def) (metis case_prod_conv)

lemma accepts_forR:
  assumes "\<And>x y d r. (x, y) \<in> set (zip xs ys) \<Longrightarrow>
      accepts (f x) (pc_at d (enc y @ r) l k) y (pc_at (d @ enc y) r l k)"
    and "length xs = length ys"
  shows "accepts (forR f xs) (pc_at d (concat (map enc ys) @ r) l k) ys
      (pc_at (d @ concat (map enc ys)) r l k)"
  using assms(2,1)
proof (induction xs ys arbitrary: d rule: list_induct2)
  case Nil
  then show ?case by (simp add: accepts_def)
next
  case (Cons x xs y ys)
  have "accepts (f x) (pc_at d (enc y @ concat (map enc ys) @ r) l k) y
      (pc_at (d @ enc y) (concat (map enc ys) @ r) l k)"
    using Cons.prems by simp
  moreover have "accepts (forR f xs) (pc_at (d @ enc y) (concat (map enc ys) @ r) l k) ys
      (pc_at ((d @ enc y) @ concat (map enc ys)) r l k)"
    by (rule Cons.IH) (simp add: Cons.prems)
  ultimately show ?case
    by (auto intro!: accepts_bind accepts_ret)
qed

context permissive_guard
begin

lemma accepts_reserve:
  assumes "roomy H" and "n < 65536" and "accepts m c y c'"
  shows "accepts (bindR (liftW (try_reserve_vec_exact H G T n detail)) (\<lambda>_. m)) c y c'"
  unfolding accepts_def
proof (intro impI conjI allI)
  assume len: "length (pc_bytes c) < usize_limit"
  then show "pc_bytes c' = pc_bytes c"
    using assms(3) by (simp add: accepts_def)
  fix w
  obtain x w1 where "try_reserve_vec_exact H G T n detail w = (Inr x, w1)"
    using ok_reserve_vec [OF assms(1), of n T detail w] assms(2) by auto
  then have "bindR (liftW (try_reserve_vec_exact H G T n detail)) (\<lambda>_. m) (c, w) = m (c, w1)"
    by (simp add: bindR_def liftW_def)
  then show "\<exists>w'. bindR (liftW (try_reserve_vec_exact H G T n detail)) (\<lambda>_. m) (c, w) = (Inr y, (c', w'))"
    using assms(3) len by (simp add: accepts_def)
qed

lemma accepts_copy_string:
  "roomy H \<Longrightarrow> length v < 65536 \<Longrightarrow> accepts (liftW (try_copy_string H G v detail)) c v c"
  by (rule accepts_liftW) (simp add: ok_copy_string usize_limit_def)

lemma accepts_copy_bytes:
  "roomy H \<Longrightarrow> length v < 65536 \<Longrightarrow> accepts (liftW (try_copy_bytes H G v detail)) c v c"
  by (rule accepts_liftW) (simp add: ok_copy_bytes)

lemma accepts_utf8:
  assumes "roomy H" and "utf8_valid v" and "length v \<le> maximum" and "length v < 65536"
  shows "accepts (bounded_utf8_guarded H G maximum field) (pc_at d (wire_string v @ r) l k) v
    (pc_at (d @ wire_string v) r l k)"
proof -
  have u: "unat (word_of_nat (length v) :: u16) = length v"
    using assms by (simp add: unat_of_nat)
  have a: "accepts (pc_take (unat (word_of_nat (length v) :: u16)))
     (pc_at (d @ to_le_bytes 2 (word_of_nat (length v) :: u16)) (v @ r) l k) v
     (pc_at ((d @ to_le_bytes 2 (word_of_nat (length v) :: u16)) @ v) r l k)"
    by (rule accepts_take) (rule u)
  show ?thesis
    unfolding bounded_utf8_guarded_def wire_string_def append_assoc
    by (rule accepts_conv) (rule accept_intros a accepts_copy_string | simp add: u assms not_less)+
qed

end

end
