(* ===== verification/Provider_Model.thy ===== *)
theory Provider_Model
  imports Qtrace_Prelude
begin

text \<open>
  The normalized event model of the provider crate (\<open>qtrace-provider/src/model.rs\<close>) and the typed
  payloads of QTRB records (\<open>qtrb/events.rs\<close>): enumerations with their wire names, register
  snapshots, event keys and records, and the completeness ranges that say which part of an
  artifact an answer covers. A Rust enum is a datatype with a prefix on its constructors where
  two enums share variant names; a struct is a record.
\<close>

section \<open>Provenance\<close>

datatype provenance = Captured | Derived | Heuristic | Unknown | Damaged

definition provenance_all :: "provenance list" where
  "provenance_all = [Captured, Derived, Heuristic, Unknown, Damaged]"

fun provenance_wire_name :: "provenance \<Rightarrow> string" where
  "provenance_wire_name Captured = ''captured''"
| "provenance_wire_name Derived = ''derived''"
| "provenance_wire_name Heuristic = ''heuristic''"
| "provenance_wire_name Unknown = ''unknown''"
| "provenance_wire_name Damaged = ''damaged''"

definition provenance_from_wire_name :: "string \<Rightarrow> provenance option" where
  "provenance_from_wire_name name = find (\<lambda>v. provenance_wire_name v = name) provenance_all"

section \<open>Capabilities\<close>

record provider_capabilities =
  cap_global_ordering :: bool
  cap_per_thread_ordering :: bool
  cap_full_register_checkpoint :: bool
  cap_register_read_write_observation :: bool
  cap_memory_metadata :: bool
  cap_memory_before_after :: bool
  cap_lifecycle :: bool
  cap_signal_and_termination :: bool
  cap_loss_and_damage_ranges :: bool

definition qtrb_register_observations :: provider_capabilities where
  "qtrb_register_observations =
     \<lparr>cap_global_ordering = False, cap_per_thread_ordering = True,
      cap_full_register_checkpoint = False, cap_register_read_write_observation = True,
      cap_memory_metadata = True, cap_memory_before_after = True, cap_lifecycle = True,
      cap_signal_and_termination = True, cap_loss_and_damage_ranges = True\<rparr>"

section \<open>Event kinds\<close>

datatype event_kind =
    K_Begin | K_ModuleDefinition | K_InstructionDefinition | K_Instruction | K_Memory
  | K_SemanticCall | K_SemanticRule | K_SemanticError | K_ThreadLifecycle | K_Syscall
  | K_Signal | K_SignalHandlerBoundary | K_Termination | K_RegisterCheckpoint
  | K_RegisterDelta | K_StringDefinition | K_CoverageGap | K_Discontinuity | K_OpaqueOptional

definition event_kind_all :: "event_kind list" where
  "event_kind_all = [
    K_Begin, K_ModuleDefinition, K_InstructionDefinition, K_Instruction, K_Memory
    , K_SemanticCall, K_SemanticRule, K_SemanticError, K_ThreadLifecycle, K_Syscall, K_Signal
    , K_SignalHandlerBoundary, K_Termination, K_RegisterCheckpoint, K_RegisterDelta
    , K_StringDefinition, K_CoverageGap, K_Discontinuity, K_OpaqueOptional]"

fun external_tag :: "event_kind \<Rightarrow> string" where
  "external_tag K_Begin = ''begin''"
| "external_tag K_ModuleDefinition = ''module_definition''"
| "external_tag K_InstructionDefinition = ''instruction_definition''"
| "external_tag K_Instruction = ''instruction''"
| "external_tag K_Memory = ''memory''"
| "external_tag K_SemanticCall = ''semantic_call''"
| "external_tag K_SemanticRule = ''semantic_rule''"
| "external_tag K_SemanticError = ''semantic_error''"
| "external_tag K_ThreadLifecycle = ''thread_lifecycle''"
| "external_tag K_Syscall = ''syscall''"
| "external_tag K_Signal = ''signal''"
| "external_tag K_SignalHandlerBoundary = ''signal_handler_boundary''"
| "external_tag K_Termination = ''termination''"
| "external_tag K_RegisterCheckpoint = ''register_checkpoint''"
| "external_tag K_RegisterDelta = ''register_delta''"
| "external_tag K_StringDefinition = ''string_definition''"
| "external_tag K_CoverageGap = ''coverage_gap''"
| "external_tag K_Discontinuity = ''discontinuity''"
| "external_tag K_OpaqueOptional = ''opaque_optional''"

definition event_kind_from_external_tag :: "string \<Rightarrow> event_kind option" where
  "event_kind_from_external_tag tag = find (\<lambda>k. external_tag k = tag) event_kind_all"

section \<open>Typed payloads of QTRB records\<close>

datatype trace_profile = Fast | Balanced | Full

record begin_metadata =
  bm_module_base :: u64
  bm_target_offset :: u64
  bm_target_address :: u64
  bm_pid :: u32
  bm_tid :: "u32 option"
  bm_profile :: trace_profile
  bm_compression_enabled :: bool
  bm_effective_buffer_bytes :: u64
  bm_run_id :: u64
  bm_scene :: utf8
  bm_target :: utf8
  bm_pointer_width :: u8
  bm_chunk_index :: "u32 option"
  bm_chunk_generation :: "u32 option"

datatype pc_relative_kind = PcNone | PcInstruction | PcPage

record register_definition =
  rd_slot :: u8
  rd_captured_width :: u8
  rd_name :: utf8

record register_observation =
  ro_slot :: u8
  ro_captured_width :: u8
  ro_name :: utf8
  ro_value :: u64

datatype register_extend = ExtendNone | Uxtw | Sxtw | Lsl | Sxtx

datatype memory_address_mode = OffsetMode | PreIndex | PostIndex

datatype memory_direction = MemRead | MemWrite | MemReadWrite | MemUnknown

record memory_operand =
  mo_base :: "u8 option"
  mo_index :: "u8 option"
  mo_extend :: register_extend
  mo_mode :: memory_address_mode
  mo_shift :: u8
  mo_direction :: memory_direction
  mo_writeback :: bool
  mo_size :: u32
  mo_displacement :: i64

record instruction_definition =
  id_definition_id :: u32
  id_opcode :: u32
  id_read_mask :: u64
  id_write_mask :: u64
  id_pc_displacement :: i64
  id_flags :: u32
  id_pc_kind :: pc_relative_kind
  id_condition :: u8
  id_slow_memory_path :: bool
  id_mnemonic :: utf8
  id_operands :: utf8
  id_disassembly :: utf8
  id_reads :: "register_definition list"
  id_writes :: "register_definition list"
  id_memory_operands :: "memory_operand list"

record instruction =
  in_definition_id :: u32
  in_module_id :: u32
  in_relative_pc :: u64
  in_read_before :: "register_observation list"
  in_write_after :: "register_observation list"

datatype capture_bytes = NotCaptured | Unavailable | CapturedBytes "u8 list"

record memory_access =
  ma_module_id :: u32
  ma_relative_pc :: u64
  ma_address :: u64
  ma_size :: u32
  ma_direction :: memory_direction
  ma_metadata_available :: bool
  ma_flags :: u16
  ma_value :: u64
  ma_before :: capture_bytes
  ma_after :: capture_bytes

record terminal_metrics =
  tm_instructions :: u64
  tm_encoded_bytes :: u64
  tm_compressed_bytes :: u64
  tm_cache_hits :: u64
  tm_cache_misses :: u64
  tm_cache_collisions :: u64
  tm_buffer_swaps :: u64
  tm_producer_waits :: u64
  tm_producer_wait_ns :: u64
  tm_effective_buffer_bytes :: u64

datatype termination_kind = Completed | Stopped | Intent | UnknownTermination

record termination_intent =
  ti_pc :: u64
  ti_syscall_number :: i64
  ti_arguments :: "u64 list"

record termination_event =
  te_kind :: termination_kind
  te_reason :: "utf8 option"
  te_return_value :: "u64 option"
  te_elapsed_ms :: u64
  te_metrics :: terminal_metrics
  te_intent :: "termination_intent option"

section \<open>Normalized payloads\<close>

record module_definition =
  md_module_id :: u32
  md_base :: u64
  md_name :: utf8

record semantic_event =
  se_category :: "utf8 option"
  se_name :: utf8
  se_detail :: utf8
  se_fragment_sequences :: "u64 list"

datatype thread_lifecycle_phase = ThreadBegin | ThreadEnd

record thread_lifecycle =
  tl_tid :: u32
  tl_phase :: thread_lifecycle_phase
  tl_creator_tid :: "u32 option"
  tl_start_routine :: "u64 option"
  tl_module_generation :: "u64 option"

record syscall =
  sy_tid :: u32
  sy_number :: i64
  sy_pc :: u64
  sy_arguments :: "u64 list"
  sy_result :: "i64 option"

datatype signal_pc_source = PcSourceUnknown | QbdiLogical | KernelUcontext | GuestHandlerContext

record signal_event =
  si_tid :: u32
  si_number :: i32
  si_code :: i32
  si_pc :: u64
  si_sp :: u64
  si_fault_address :: u64
  si_flags :: u32
  si_pc_source :: signal_pc_source

datatype signal_handler_phase = HandlerBegin | HandlerReturn

record signal_handler_boundary =
  sh_tid :: u32
  sh_phase :: signal_handler_phase
  sh_number :: i32
  sh_code :: i32
  sh_pc :: u64
  sh_sp :: u64
  sh_fault_address :: u64
  sh_flags :: u32
  sh_pc_source :: signal_pc_source
  sh_depth :: u16
  sh_nested_delivery_count :: u16
  sh_begin_sequence :: "u64 option"

subsection \<open>Registers\<close>

datatype register_slot =
    X0 | X1 | X2 | X3 | X4 | X5 | X6 | X7 | X8 | X9 | X10 | X11 | X12 | X13 | X14 | X15 | X16
  | X17 | X18 | X19 | X20 | X21 | X22 | X23 | X24 | X25 | X26 | X27 | X28 | X29 | X30 | Sp
  | Pc | Nzcv

fun register_index :: "register_slot \<Rightarrow> usize" where
  "register_index X0 = 0"
| "register_index X1 = 1"
| "register_index X2 = 2"
| "register_index X3 = 3"
| "register_index X4 = 4"
| "register_index X5 = 5"
| "register_index X6 = 6"
| "register_index X7 = 7"
| "register_index X8 = 8"
| "register_index X9 = 9"
| "register_index X10 = 10"
| "register_index X11 = 11"
| "register_index X12 = 12"
| "register_index X13 = 13"
| "register_index X14 = 14"
| "register_index X15 = 15"
| "register_index X16 = 16"
| "register_index X17 = 17"
| "register_index X18 = 18"
| "register_index X19 = 19"
| "register_index X20 = 20"
| "register_index X21 = 21"
| "register_index X22 = 22"
| "register_index X23 = 23"
| "register_index X24 = 24"
| "register_index X25 = 25"
| "register_index X26 = 26"
| "register_index X27 = 27"
| "register_index X28 = 28"
| "register_index X29 = 29"
| "register_index X30 = 30"
| "register_index Sp = 31"
| "register_index Pc = 32"
| "register_index Nzcv = 33"

definition REGISTER_COUNT :: usize where
  "REGISTER_COUNT = 34"

definition register_from_index :: "usize \<Rightarrow> register_slot option" where
  "register_from_index i = (if i < 34 then Some ([
    X0, X1, X2, X3, X4, X5, X6, X7, X8, X9, X10, X11, X12, X13, X14, X15, X16, X17, X18, X19
    , X20, X21, X22, X23, X24, X25, X26, X27, X28, X29, X30, Sp, Pc, Nzcv] ! i) else None)"

record register_value =
  rgv_slot :: register_slot
  rgv_value :: u64

record register_snapshot =
  rs_values :: "u64 list"

definition register_snapshot_new :: "u64 list \<Rightarrow> register_snapshot option" where
  "register_snapshot_new values =
     (if length values = REGISTER_COUNT then Some \<lparr>rs_values = values\<rparr> else None)"

definition register_snapshot_value :: "register_snapshot \<Rightarrow> register_slot \<Rightarrow> u64 option" where
  "register_snapshot_value snap slot =
     (if register_index slot < length (rs_values snap)
      then Some (rs_values snap ! register_index slot) else None)"

fun register_snapshot_apply :: "register_snapshot \<Rightarrow> register_value list \<Rightarrow> register_snapshot" where
  "register_snapshot_apply snap [] = snap"
| "register_snapshot_apply snap (item # changed) =
     register_snapshot_apply
       (if register_index (rgv_slot item) < length (rs_values snap)
        then snap\<lparr>rs_values := (rs_values snap)[register_index (rgv_slot item) := rgv_value item]\<rparr>
        else snap) changed"

record register_checkpoint =
  rc_values :: "register_value list"

definition register_checkpoint_value :: "register_checkpoint \<Rightarrow> register_slot \<Rightarrow> u64 option" where
  "register_checkpoint_value cp slot =
     map_option rgv_value (find (\<lambda>item. rgv_slot item = slot) (rc_values cp))"

record register_delta =
  rdl_mask :: u64
  rdl_changed :: "register_value list"
  rdl_ancestry_reliable :: bool

record string_definition =
  sd_id :: u32
  sd_bytes :: "u8 list"

record coverage_gap =
  cg_tid :: u32
  cg_pc :: u64
  cg_sp :: u64
  cg_fault_address :: u64
  cg_reason_flags :: u32
  cg_dropped_count :: u32

section \<open>Completeness ranges\<close>

datatype range_domain = CapturedSequence | SourceBytes | MemoryAddresses

definition range_domain_all :: "range_domain list" where
  "range_domain_all = [CapturedSequence, SourceBytes, MemoryAddresses]"

fun range_domain_wire_name :: "range_domain \<Rightarrow> string" where
  "range_domain_wire_name CapturedSequence = ''captured_sequence''"
| "range_domain_wire_name SourceBytes = ''source_bytes''"
| "range_domain_wire_name MemoryAddresses = ''memory_addresses''"

definition range_domain_from_wire_name :: "string \<Rightarrow> range_domain option" where
  "range_domain_from_wire_name name = find (\<lambda>v. range_domain_wire_name v = name) range_domain_all"

datatype range_bounds = InclusiveSequence u64 u64 | HalfOpen u64 u64

fun range_bounds_wire_name :: "range_bounds \<Rightarrow> string" where
  "range_bounds_wire_name (InclusiveSequence first final) = ''inclusive_sequence''"
| "range_bounds_wire_name (HalfOpen start end_exclusive) = ''half_open''"

fun range_bounds_endpoints :: "range_bounds \<Rightarrow> u64 \<times> u64" where
  "range_bounds_endpoints (InclusiveSequence first final) = (first, final)"
| "range_bounds_endpoints (HalfOpen start end_exclusive) = (start, end_exclusive)"

definition range_bounds_from_wire_parts :: "string \<Rightarrow> u64 \<times> u64 \<Rightarrow> range_bounds option" where
  "range_bounds_from_wire_parts name endpoints =
     (if name = ''inclusive_sequence'' then Some (InclusiveSequence (fst endpoints) (snd endpoints))
      else if name = ''half_open'' then Some (HalfOpen (fst endpoints) (snd endpoints))
      else None)"

datatype completeness_cause =
    C_Retained | C_MissingTerminal | C_Active | C_Stale | C_Rotating | C_Unreliable
  | C_Incomplete | C_Lost | C_Overwritten | C_CoverageGap | C_Checksum | C_UnterminatedThread
  | C_Truncation | C_Unknown

definition completeness_cause_all :: "completeness_cause list" where
  "completeness_cause_all = [
    C_Retained, C_MissingTerminal, C_Active, C_Stale, C_Rotating, C_Unreliable, C_Incomplete
    , C_Lost, C_Overwritten, C_CoverageGap, C_Checksum, C_UnterminatedThread, C_Truncation
    , C_Unknown]"

fun completeness_cause_wire_name :: "completeness_cause \<Rightarrow> string" where
  "completeness_cause_wire_name C_Retained = ''retained''"
| "completeness_cause_wire_name C_MissingTerminal = ''missing_terminal''"
| "completeness_cause_wire_name C_Active = ''active''"
| "completeness_cause_wire_name C_Stale = ''stale''"
| "completeness_cause_wire_name C_Rotating = ''rotating''"
| "completeness_cause_wire_name C_Unreliable = ''unreliable''"
| "completeness_cause_wire_name C_Incomplete = ''incomplete''"
| "completeness_cause_wire_name C_Lost = ''lost''"
| "completeness_cause_wire_name C_Overwritten = ''overwritten''"
| "completeness_cause_wire_name C_CoverageGap = ''coverage_gap''"
| "completeness_cause_wire_name C_Checksum = ''checksum''"
| "completeness_cause_wire_name C_UnterminatedThread = ''unterminated_thread''"
| "completeness_cause_wire_name C_Truncation = ''truncation''"
| "completeness_cause_wire_name C_Unknown = ''unknown''"

definition completeness_cause_from_wire_name :: "string \<Rightarrow> completeness_cause option" where
  "completeness_cause_from_wire_name name =
     find (\<lambda>v. completeness_cause_wire_name v = name) completeness_cause_all"

record completeness_range =
  cr_domain :: range_domain
  cr_bounds :: range_bounds
  cr_provenance :: provenance
  cr_cause :: completeness_cause

definition captured_sequence_with_cause ::
  "u64 \<Rightarrow> u64 \<Rightarrow> provenance \<Rightarrow> completeness_cause \<Rightarrow> completeness_range option" where
  "captured_sequence_with_cause first final prov cause =
     (if first > final then None
      else Some \<lparr>cr_domain = CapturedSequence, cr_bounds = InclusiveSequence first final,
                 cr_provenance = prov, cr_cause = cause\<rparr>)"

definition captured_sequence :: "u64 \<Rightarrow> u64 \<Rightarrow> provenance \<Rightarrow> completeness_range option" where
  "captured_sequence first final prov = captured_sequence_with_cause first final prov C_Unknown"

definition half_open ::
  "range_domain \<Rightarrow> u64 \<Rightarrow> u64 \<Rightarrow> provenance \<Rightarrow> completeness_cause \<Rightarrow> completeness_range option" where
  "half_open domain start end_exclusive prov cause =
     (if start > end_exclusive then None
      else Some \<lparr>cr_domain = domain, cr_bounds = HalfOpen start end_exclusive,
                 cr_provenance = prov, cr_cause = cause\<rparr>)"

definition source_bytes_with_cause ::
  "u64 \<Rightarrow> u64 \<Rightarrow> provenance \<Rightarrow> completeness_cause \<Rightarrow> completeness_range option" where
  "source_bytes_with_cause start end_exclusive prov cause =
     half_open SourceBytes start end_exclusive prov cause"

definition source_bytes :: "u64 \<Rightarrow> u64 \<Rightarrow> provenance \<Rightarrow> completeness_range option" where
  "source_bytes start end_exclusive prov = source_bytes_with_cause start end_exclusive prov C_Unknown"

definition memory_addresses_with_cause ::
  "u64 \<Rightarrow> u64 \<Rightarrow> provenance \<Rightarrow> completeness_cause \<Rightarrow> completeness_range option" where
  "memory_addresses_with_cause start end_exclusive prov cause =
     half_open MemoryAddresses start end_exclusive prov cause"

definition memory_addresses :: "u64 \<Rightarrow> u64 \<Rightarrow> provenance \<Rightarrow> completeness_range option" where
  "memory_addresses start end_exclusive prov =
     memory_addresses_with_cause start end_exclusive prov C_Unknown"

definition range_contains :: "completeness_range \<Rightarrow> u64 \<Rightarrow> bool" where
  "range_contains r coordinate = (case cr_bounds r of
       InclusiveSequence first final \<Rightarrow> first \<le> coordinate \<and> coordinate \<le> final
     | HalfOpen start end_exclusive \<Rightarrow> start \<le> coordinate \<and> coordinate < end_exclusive)"

fun completeness_cause_order :: "completeness_cause \<Rightarrow> u8" where
  "completeness_cause_order C_Retained = 0"
| "completeness_cause_order C_Active = 1"
| "completeness_cause_order C_Rotating = 2"
| "completeness_cause_order C_Stale = 3"
| "completeness_cause_order C_Unreliable = 4"
| "completeness_cause_order C_Incomplete = 5"
| "completeness_cause_order C_Lost = 6"
| "completeness_cause_order C_Overwritten = 7"
| "completeness_cause_order C_CoverageGap = 8"
| "completeness_cause_order C_Checksum = 9"
| "completeness_cause_order C_UnterminatedThread = 10"
| "completeness_cause_order C_MissingTerminal = 11"
| "completeness_cause_order C_Truncation = 12"
| "completeness_cause_order C_Unknown = 13"

fun provenance_canonical_order :: "provenance \<Rightarrow> u8" where
  "provenance_canonical_order Captured = 0"
| "provenance_canonical_order Derived = 1"
| "provenance_canonical_order Heuristic = 2"
| "provenance_canonical_order Unknown = 3"
| "provenance_canonical_order Damaged = 4"

fun domain_canonical_order :: "range_domain \<Rightarrow> u8" where
  "domain_canonical_order CapturedSequence = 0"
| "domain_canonical_order SourceBytes = 1"
| "domain_canonical_order MemoryAddresses = 2"

definition completeness_canonical_key :: "completeness_range \<Rightarrow> u8 \<times> u8 \<times> u64 \<times> u64 \<times> u8" where
  "completeness_canonical_key r =
     (let (first, final) = range_bounds_endpoints (cr_bounds r) in
      (domain_canonical_order (cr_domain r), completeness_cause_order (cr_cause r), first, final,
       provenance_canonical_order (cr_provenance r)))"

definition merge_canonical_completeness ::
  "completeness_range \<Rightarrow> completeness_range \<Rightarrow> completeness_range option" where
  "merge_canonical_completeness left right =
     (if cr_domain left \<noteq> cr_domain right \<or> cr_cause left \<noteq> cr_cause right \<or>
         cr_provenance left \<noteq> cr_provenance right then None
      else case (cr_bounds left, cr_bounds right) of
        (InclusiveSequence left_first left_last, InclusiveSequence right_first right_last) \<Rightarrow>
          if right_first \<le> saturating_add left_last 1
          then captured_sequence_with_cause left_first (max left_last right_last)
                 (cr_provenance left) (cr_cause left)
          else None
      | (HalfOpen left_start left_end, HalfOpen right_start right_end) \<Rightarrow>
          if right_start \<le> left_end
          then (case cr_domain left of
                  SourceBytes \<Rightarrow> source_bytes_with_cause left_start (max left_end right_end)
                    (cr_provenance left) (cr_cause left)
                | MemoryAddresses \<Rightarrow> memory_addresses_with_cause left_start (max left_end right_end)
                    (cr_provenance left) (cr_cause left)
                | CapturedSequence \<Rightarrow> None)
          else None
      | _ \<Rightarrow> None)"

text \<open>The custom deserializer re-checks the bounds of the four fields it has read.\<close>

definition completeness_range_deserialize ::
  "range_domain \<Rightarrow> range_bounds \<Rightarrow> provenance \<Rightarrow> completeness_cause \<Rightarrow> completeness_range option" where
  "completeness_range_deserialize domain bounds prov cause = (case (domain, bounds) of
       (CapturedSequence, InclusiveSequence first final) \<Rightarrow>
         captured_sequence_with_cause first final prov cause
     | (SourceBytes, HalfOpen start end_exclusive) \<Rightarrow>
         source_bytes_with_cause start end_exclusive prov cause
     | (MemoryAddresses, HalfOpen start end_exclusive) \<Rightarrow>
         memory_addresses_with_cause start end_exclusive prov cause
     | _ \<Rightarrow> None)"

datatype discontinuity_cause =
    D_Loss | D_Damage | D_Overwrite | D_Truncation | D_Unknown

definition discontinuity_cause_all :: "discontinuity_cause list" where
  "discontinuity_cause_all = [D_Loss, D_Damage, D_Overwrite, D_Truncation, D_Unknown]"

fun discontinuity_cause_wire_name :: "discontinuity_cause \<Rightarrow> string" where
  "discontinuity_cause_wire_name D_Loss = ''loss''"
| "discontinuity_cause_wire_name D_Damage = ''damage''"
| "discontinuity_cause_wire_name D_Overwrite = ''overwrite''"
| "discontinuity_cause_wire_name D_Truncation = ''truncation''"
| "discontinuity_cause_wire_name D_Unknown = ''unknown''"

definition discontinuity_cause_from_wire_name :: "string \<Rightarrow> discontinuity_cause option" where
  "discontinuity_cause_from_wire_name name =
     find (\<lambda>v. discontinuity_cause_wire_name v = name) discontinuity_cause_all"

record discontinuity =
  dc_cause :: discontinuity_cause
  dc_evidence :: completeness_range

record opaque_optional_record =
  oo_record_type :: u16
  oo_flags :: u16
  oo_bytes :: "u8 list"

section \<open>Events\<close>

datatype event_payload =
    P_Begin begin_metadata
  | P_ModuleDefinition module_definition
  | P_InstructionDefinition instruction_definition
  | P_Instruction instruction
  | P_Memory memory_access
  | P_SemanticCall semantic_event
  | P_SemanticRule semantic_event
  | P_SemanticError semantic_event
  | P_ThreadLifecycle thread_lifecycle
  | P_Syscall syscall
  | P_Signal signal_event
  | P_SignalHandlerBoundary signal_handler_boundary
  | P_Termination termination_event
  | P_RegisterCheckpoint register_checkpoint
  | P_RegisterDelta register_delta
  | P_StringDefinition string_definition
  | P_CoverageGap coverage_gap
  | P_Discontinuity discontinuity
  | P_OpaqueOptional opaque_optional_record

fun payload_kind :: "event_payload \<Rightarrow> event_kind" where
  "payload_kind (P_Begin x) = K_Begin"
| "payload_kind (P_ModuleDefinition x) = K_ModuleDefinition"
| "payload_kind (P_InstructionDefinition x) = K_InstructionDefinition"
| "payload_kind (P_Instruction x) = K_Instruction"
| "payload_kind (P_Memory x) = K_Memory"
| "payload_kind (P_SemanticCall x) = K_SemanticCall"
| "payload_kind (P_SemanticRule x) = K_SemanticRule"
| "payload_kind (P_SemanticError x) = K_SemanticError"
| "payload_kind (P_ThreadLifecycle x) = K_ThreadLifecycle"
| "payload_kind (P_Syscall x) = K_Syscall"
| "payload_kind (P_Signal x) = K_Signal"
| "payload_kind (P_SignalHandlerBoundary x) = K_SignalHandlerBoundary"
| "payload_kind (P_Termination x) = K_Termination"
| "payload_kind (P_RegisterCheckpoint x) = K_RegisterCheckpoint"
| "payload_kind (P_RegisterDelta x) = K_RegisterDelta"
| "payload_kind (P_StringDefinition x) = K_StringDefinition"
| "payload_kind (P_CoverageGap x) = K_CoverageGap"
| "payload_kind (P_Discontinuity x) = K_Discontinuity"
| "payload_kind (P_OpaqueOptional x) = K_OpaqueOptional"

type_synonym artifact_digest = "u8 list"
type_synonym timeline_id = u64

record event_key =
  ek_artifact :: artifact_digest
  ek_timeline :: timeline_id
  ek_record_ordinal :: u64
  ek_source_offset :: u64
  ek_sequence :: "u64 option"
  ek_tid :: "u32 option"

definition event_key_new ::
  "artifact_digest \<Rightarrow> timeline_id \<Rightarrow> u64 \<Rightarrow> u64 \<Rightarrow> u64 option \<Rightarrow> u32 option \<Rightarrow> event_key" where
  "event_key_new artifact timeline record_ordinal source_offset seq tid =
     \<lparr>ek_artifact = artifact, ek_timeline = timeline, ek_record_ordinal = record_ordinal,
      ek_source_offset = source_offset, ek_sequence = seq, ek_tid = tid\<rparr>"

datatype event_scope =
    ArtifactScope
  | FlightChunk (fc_chunk_index: u32) (fc_generation: u32) (fc_tid: u32)

definition MAX_FRAGMENT_SOURCE_OFFSETS :: usize where
  "MAX_FRAGMENT_SOURCE_OFFSETS = 65535"

fun any_adjacent :: "('a \<Rightarrow> 'a \<Rightarrow> bool) \<Rightarrow> 'a list \<Rightarrow> bool" where
  "any_adjacent p (x # y # zs) = (p x y \<or> any_adjacent p (y # zs))"
| "any_adjacent p _ = False"

definition fragment_source_offsets_new :: "u64 list \<Rightarrow> u64 list option" where
  "fragment_source_offsets_new offsets =
     (if length offsets > MAX_FRAGMENT_SOURCE_OFFSETS \<or> any_adjacent (\<lambda>a b. a \<ge> b) offsets
      then None else Some offsets)"

text \<open>
  The bounded visitor of the deserializer: it checks every element as it arrives and stops at
  the first one that breaks the bound or the order.
\<close>

fun fragment_offsets_visit_seq :: "u64 list \<Rightarrow> u64 list \<Rightarrow> u64 list option" where
  "fragment_offsets_visit_seq offsets [] = Some offsets"
| "fragment_offsets_visit_seq offsets (offset # rest) =
     (if length offsets = MAX_FRAGMENT_SOURCE_OFFSETS then None
      else if offsets \<noteq> [] \<and> last offsets \<ge> offset then None
      else fragment_offsets_visit_seq (offsets @ [offset]) rest)"

record event_record =
  er_key :: event_key
  er_provenance :: provenance
  er_payload :: event_payload
  er_scope :: event_scope
  er_fragment_source_offsets :: "u64 list"

definition event_record_new :: "event_key \<Rightarrow> provenance \<Rightarrow> event_payload \<Rightarrow> event_record" where
  "event_record_new key prov payload =
     \<lparr>er_key = key, er_provenance = prov, er_payload = payload, er_scope = ArtifactScope,
      er_fragment_source_offsets = []\<rparr>"

definition event_record_new_scoped ::
  "event_key \<Rightarrow> provenance \<Rightarrow> event_scope \<Rightarrow> event_payload \<Rightarrow> event_record" where
  "event_record_new_scoped key prov scope payload =
     \<lparr>er_key = key, er_provenance = prov, er_payload = payload, er_scope = scope,
      er_fragment_source_offsets = []\<rparr>"

definition event_record_with_fragment_source_offsets ::
  "event_key \<Rightarrow> provenance \<Rightarrow> event_payload \<Rightarrow> u64 list \<Rightarrow> event_record option" where
  "event_record_with_fragment_source_offsets key prov payload offsets =
     (case fragment_source_offsets_new offsets of
        None \<Rightarrow> None
      | Some offs \<Rightarrow>
          if offs \<noteq> [] \<and> hd offs \<noteq> ek_source_offset key then None
          else Some \<lparr>er_key = key, er_provenance = prov, er_payload = payload,
                     er_scope = ArtifactScope, er_fragment_source_offsets = offs\<rparr>)"

text \<open>The deserializer of a stored record: the offsets go through the bounded visitor.\<close>

definition event_record_deserialize ::
  "event_key \<Rightarrow> provenance \<Rightarrow> event_payload \<Rightarrow> event_scope \<Rightarrow> u64 list \<Rightarrow> event_record option" where
  "event_record_deserialize key prov payload scope raw_offsets =
     (case fragment_offsets_visit_seq [] raw_offsets of
        None \<Rightarrow> None
      | Some offs \<Rightarrow>
          if offs \<noteq> [] \<and> hd offs \<noteq> ek_source_offset key then None
          else Some \<lparr>er_key = key, er_provenance = prov, er_payload = payload, er_scope = scope,
                     er_fragment_source_offsets = offs\<rparr>)"

definition event_record_kind :: "event_record \<Rightarrow> event_kind" where
  "event_record_kind r = payload_kind (er_payload r)"

definition event_record_register_delta :: "event_record \<Rightarrow> register_delta option" where
  "event_record_register_delta r = (case er_payload r of P_RegisterDelta v \<Rightarrow> Some v | _ \<Rightarrow> None)"

record source_identity =
  sid_artifact :: artifact_digest
  sid_format :: utf8
  sid_format_major :: u8
  sid_format_minor :: u8
  sid_source_bytes :: u64

record timeline_descriptor =
  tld_id :: timeline_id
  tld_tid :: "u32 option"
  tld_label :: "utf8 option"

record provider_counters =
  pcn_records_seen :: u64
  pcn_events_emitted :: u64
  pcn_opaque_records :: u64
  pcn_damaged_records :: u64
  pcn_input_bytes :: u64
  pcn_decompressed_bytes :: u64

record provider_summary =
  ps_timelines :: "timeline_descriptor list"
  ps_termination :: "termination_event option"
  ps_counters :: provider_counters
  ps_completeness :: "completeness_range list"

end
