(* ===== verification/Qtrb_Events.thy ===== *)
theory Qtrb_Events
  imports Qtrb_Wire Provider_Model
begin

text \<open>
  Decoders of the record payloads that QTRB streams and Flight recordings share
  (\<open>qtrace-provider/src/qtrb/events.rs\<close>): instruction definitions, instructions and memory accesses
  nested in a Flight journal, and the facts about the payload cursor that all decoders use.
\<close>

section \<open>Shared decoders\<close>

definition shared_invalid_payload :: "source_coordinate \<Rightarrow> string \<Rightarrow> provider_error" where
  "shared_invalid_payload coordinate detail =
     provider_error_new ''source.invalid_payload'' ''qtrb.shared_payload'' (Some coordinate) False detail"

definition nested :: "u8 list \<Rightarrow> u16 \<Rightarrow> source_coordinate \<Rightarrow> ('w, provider_error, u8 list) rm" where
  "nested payload expected_kind coordinate =
     with_payload payload ''nested QTRB record'' coordinate
       (bindR pc_u16_le (\<lambda>kind.
        bindR pc_u16_le (\<lambda>flags.
        bindR pc_u32_le (\<lambda>count.
        if kind \<noteq> expected_kind \<or> flags \<noteq> 0 \<or> unat count \<noteq> length payload - 8
        then throwR (shared_invalid_payload coordinate ''invalid nested QTRB record'')
        else pc_take (unat count)))))"

definition decode_direction :: "u8 \<Rightarrow> source_coordinate \<Rightarrow> provider_error + memory_direction" where
  "decode_direction v coordinate =
     (if v = 1 then Inr MemRead
      else if v = 2 then Inr MemWrite
      else if v = 3 then Inr MemReadWrite
      else Inl (shared_invalid_payload coordinate ''invalid memory access direction''))"

definition count_ones :: "u64 \<Rightarrow> usize" where
  "count_ones bits = length (filter (bit bits) [0..<64])"

text \<open>The \<open>for slot in 0..MAX_GPR_COUNT\<close> loop, over the slots that are left.\<close>

fun shared_registers_loop ::
  "'w host \<Rightarrow> 'w work_guard \<Rightarrow> u64 \<Rightarrow> string \<Rightarrow> source_coordinate \<Rightarrow> usize list \<Rightarrow>
   ('w, register_definition list) payload_rm" where
  "shared_registers_loop H G bits field coordinate [] = retR []"
| "shared_registers_loop H G bits field coordinate (slot # slots) =
     (if bits AND push_bit slot 1 = 0 then shared_registers_loop H G bits field coordinate slots
      else bindR pc_u8 (\<lambda>captured_width.
           bindR (bounded_utf8_guarded H G MAX_REGISTER_NAME_BYTES field) (\<lambda>name.
           if captured_width = 0 \<or> captured_width > 16 \<or> name = []
           then throwR (shared_invalid_payload coordinate ''invalid register definition'')
           else bindR (shared_registers_loop H G bits field coordinate slots) (\<lambda>registers.
                retR (\<lparr>rd_slot = word_of_nat slot, rd_captured_width = captured_width,
                       rd_name = name\<rparr> # registers)))))"

definition shared_registers ::
  "'w host \<Rightarrow> 'w work_guard \<Rightarrow> u64 \<Rightarrow> string \<Rightarrow> source_coordinate \<Rightarrow>
   ('w, register_definition list) payload_rm" where
  "shared_registers H G bits field coordinate =
     bindR (liftW (try_reserve_vec_exact H G T_RegisterDefinition (count_ones bits)
              ''Flight register definition allocation failed'')) (\<lambda>_.
     shared_registers_loop H G bits field coordinate [0..<MAX_GPR_COUNT])"

definition shared_memory_state ::
  "'w host \<Rightarrow> 'w work_guard \<Rightarrow> string \<Rightarrow> source_coordinate \<Rightarrow> ('w, capture_bytes) payload_rm" where
  "shared_memory_state H G field coordinate =
     bindR pc_u8 (\<lambda>state.
     bindR pc_u8 (\<lambda>n. let count = unat n in
     if count > MAX_CAPTURED_MEMORY_BYTES
     then throwR (shared_invalid_payload coordinate ''memory capture exceeds maximum'')
     else bindR (pc_take count) (\<lambda>bytes.
       if state = 0 \<and> count = 0 then retR NotCaptured
       else if state = 1 then
         bindR (liftW (try_copy_bytes H G bytes ''Flight memory capture allocation failed''))
           (\<lambda>copy. retR (CapturedBytes copy))
       else if state = 2 \<and> count = 0 then retR Unavailable
       else throwR (shared_invalid_payload coordinate (''invalid '' @ field @ '' state'')))))"

definition decode_extend :: "u8 \<Rightarrow> register_extend" where
  "decode_extend v =
     (if v = 0 then ExtendNone else if v = 1 then Uxtw else if v = 2 then Sxtw
      else if v = 3 then Lsl else Sxtx)"

definition decode_mode :: "u8 \<Rightarrow> memory_address_mode" where
  "decode_mode v = (if v = 0 then OffsetMode else if v = 1 then PreIndex else PostIndex)"

definition decode_pc_kind :: "u8 \<Rightarrow> pc_relative_kind" where
  "decode_pc_kind v = (if v = 0 then PcNone else if v = 1 then PcInstruction else PcPage)"

text \<open>One memory operand of an instruction definition: the body of the \<open>memory_count\<close> loop.\<close>

definition shared_memory_operand :: "source_coordinate \<Rightarrow> ('w, memory_operand) payload_rm" where
  "shared_memory_operand coordinate =
     bindR pc_u8 (\<lambda>base.
     bindR pc_u8 (\<lambda>index.
     bindR pc_u8 (\<lambda>extend.
     bindR pc_u8 (\<lambda>mode.
     bindR pc_u8 (\<lambda>shift.
     bindR pc_u8 (\<lambda>direction.
     bindR pc_u8 (\<lambda>writeback.
     bindR pc_u32_le (\<lambda>bytes.
     bindR pc_i64_le (\<lambda>displacement.
     if (base \<ge> word_of_nat MAX_GPR_COUNT \<and> base \<noteq> - 1)
        \<or> (index \<ge> word_of_nat MAX_GPR_COUNT \<and> index \<noteq> - 1)
        \<or> extend > 4 \<or> mode > 2 \<or> \<not> (1 \<le> direction \<and> direction \<le> 3) \<or> writeback > 1
     then throwR (shared_invalid_payload coordinate ''invalid instruction memory operand'')
     else bindR (resultR (decode_direction direction coordinate)) (\<lambda>direction.
       retR \<lparr>mo_base = if base \<noteq> - 1 then Some base else None,
             mo_index = if index \<noteq> - 1 then Some index else None,
             mo_extend = decode_extend extend, mo_mode = decode_mode mode, mo_shift = shift,
             mo_direction = direction, mo_writeback = (writeback = 1), mo_size = bytes,
             mo_displacement = displacement\<rparr>))))))))))"

definition decode_instruction_definition_payload ::
  "'w host \<Rightarrow> 'w work_guard \<Rightarrow> u8 list \<Rightarrow> source_coordinate \<Rightarrow>
   ('w, provider_error, instruction_definition) rm" where
  "decode_instruction_definition_payload H G payload coordinate =
     with_payload payload ''INSTRUCTION_DEF'' coordinate
       (bindR pc_u32_le (\<lambda>definition_id.
        bindR pc_u32_le (\<lambda>opcode.
        bindR pc_u64_le (\<lambda>read_mask.
        bindR pc_u64_le (\<lambda>write_mask.
        bindR pc_i64_le (\<lambda>pc_displacement.
        bindR pc_u32_le (\<lambda>flags.
        bindR pc_u8 (\<lambda>pc_kind.
        bindR pc_u8 (\<lambda>condition.
        bindR pc_u8 (\<lambda>memory_count.
        bindR pc_u8 (\<lambda>slow_memory_path.
        if definition_id = 0
           \<or> flags AND NOT VALID_INSTRUCTION_FLAGS \<noteq> 0
           \<or> pc_kind > 2
           \<or> slow_memory_path > 1
           \<or> unat memory_count > MAX_MEMORY_OPERAND_COUNT
           \<or> drop_bit MAX_GPR_COUNT read_mask \<noteq> 0
           \<or> drop_bit MAX_GPR_COUNT write_mask \<noteq> 0
        then throwR (shared_invalid_payload coordinate ''invalid instruction definition metadata'')
        else
        bindR (bounded_utf8_guarded H G MAX_MNEMONIC_BYTES ''mnemonic'') (\<lambda>mnemonic.
        bindR (bounded_utf8_guarded H G MAX_OPERANDS_BYTES ''operands'') (\<lambda>operands.
        bindR (bounded_utf8_guarded H G MAX_DISASSEMBLY_BYTES ''disassembly'') (\<lambda>disassembly.
        bindR (shared_registers H G read_mask ''read register'' coordinate) (\<lambda>reads.
        bindR (shared_registers H G write_mask ''write register'' coordinate) (\<lambda>writes.
        bindR (liftW (try_reserve_vec_exact H G T_MemoryOperand (unat memory_count)
                 ''Flight memory operand allocation failed'')) (\<lambda>_.
        bindR (forR (\<lambda>_. shared_memory_operand coordinate) [0..<unat memory_count]) (\<lambda>memory_operands.
        bindR pc_finish (\<lambda>_.
        retR \<lparr>id_definition_id = definition_id, id_opcode = opcode, id_read_mask = read_mask,
              id_write_mask = write_mask, id_pc_displacement = pc_displacement, id_flags = flags,
              id_pc_kind = decode_pc_kind pc_kind, id_condition = condition,
              id_slow_memory_path = (slow_memory_path = 1), id_mnemonic = mnemonic,
              id_operands = operands, id_disassembly = disassembly, id_reads = reads,
              id_writes = writes, id_memory_operands = memory_operands\<rparr>)))))))))))))))))))"

definition decode_instruction_definition_record ::
  "'w host \<Rightarrow> 'w work_guard \<Rightarrow> u8 list \<Rightarrow> source_coordinate \<Rightarrow>
   ('w, provider_error, instruction_definition) rm" where
  "decode_instruction_definition_record H G payload coordinate =
     bindR (nested payload 3 coordinate) (\<lambda>inner.
     decode_instruction_definition_payload H G inner coordinate)"

record decoded_instruction =
  di_local_sequence :: u64
  di_instruction :: instruction

text \<open>One observed register value: the body of the loops over the definition's registers.\<close>

definition shared_observation ::
  "'w host \<Rightarrow> 'w work_guard \<Rightarrow> string \<Rightarrow> register_definition \<Rightarrow> ('w, register_observation) payload_rm" where
  "shared_observation H G detail register =
     bindR (liftW (try_copy_string H G (rd_name register) detail)) (\<lambda>name.
     bindR pc_u64_le (\<lambda>v.
     retR \<lparr>ro_slot = rd_slot register, ro_captured_width = rd_captured_width register,
           ro_name = name, ro_value = v\<rparr>))"

definition decode_instruction_payload ::
  "'w host \<Rightarrow> 'w work_guard \<Rightarrow> u8 list \<Rightarrow> instruction_definition \<Rightarrow> u32 option \<Rightarrow> source_coordinate \<Rightarrow>
   ('w, provider_error, decoded_instruction) rm" where
  "decode_instruction_payload H G payload df expected_module_id coordinate =
     with_payload payload ''INSTRUCTION'' coordinate
       (bindR pc_u64_le (\<lambda>local_sequence.
        bindR pc_u32_le (\<lambda>module_id.
        bindR pc_u64_le (\<lambda>relative_pc.
        bindR pc_u32_le (\<lambda>definition_id.
        bindR pc_u8 (\<lambda>read_count.
        bindR pc_u8 (\<lambda>write_count.
        if (case expected_module_id of None \<Rightarrow> False | Some expected \<Rightarrow> module_id \<noteq> expected)
           \<or> definition_id \<noteq> id_definition_id df
           \<or> unat read_count \<noteq> length (id_reads df)
           \<or> unat write_count \<noteq> length (id_writes df)
        then throwR (shared_invalid_payload coordinate
               ''instruction register counts or dictionary references are invalid'')
        else
        bindR (liftW (try_reserve_vec_exact H G T_RegisterObservation (unat read_count)
                 ''Flight instruction read allocation failed'')) (\<lambda>_.
        bindR (forR (shared_observation H G ''Flight instruction read name allocation failed'')
                 (id_reads df)) (\<lambda>read_before.
        bindR (liftW (try_reserve_vec_exact H G T_RegisterObservation (unat write_count)
                 ''Flight instruction write allocation failed'')) (\<lambda>_.
        bindR (forR (shared_observation H G ''Flight instruction write name allocation failed'')
                 (id_writes df)) (\<lambda>write_after.
        bindR pc_finish (\<lambda>_.
        retR \<lparr>di_local_sequence = local_sequence,
              di_instruction = \<lparr>in_definition_id = definition_id, in_module_id = module_id,
                in_relative_pc = relative_pc, in_read_before = read_before,
                in_write_after = write_after\<rparr>\<rparr>))))))))))))"

definition decode_instruction_record ::
  "'w host \<Rightarrow> 'w work_guard \<Rightarrow> u8 list \<Rightarrow> instruction_definition \<Rightarrow> source_coordinate \<Rightarrow>
   ('w, provider_error, decoded_instruction) rm" where
  "decode_instruction_record H G payload df coordinate =
     bindR (nested payload 4 coordinate) (\<lambda>inner.
     decode_instruction_payload H G inner df (Some 1) coordinate)"

definition decode_memory_payload_for_module ::
  "'w host \<Rightarrow> 'w work_guard \<Rightarrow> u8 list \<Rightarrow> u32 option \<Rightarrow> source_coordinate \<Rightarrow>
   ('w, provider_error, memory_access) rm" where
  "decode_memory_payload_for_module H G payload expected_module_id coordinate =
     with_payload payload ''MEMORY'' coordinate
       (bindR pc_u32_le (\<lambda>module_id.
        bindR pc_u64_le (\<lambda>relative_pc.
        bindR pc_u8 (\<lambda>raw_direction.
        bindR (resultR (decode_direction raw_direction coordinate)) (\<lambda>direction.
        bindR pc_u8 (\<lambda>metadata_available.
        bindR pc_u16_le (\<lambda>flags.
        bindR pc_u64_le (\<lambda>address.
        bindR pc_u32_le (\<lambda>bytes.
        bindR pc_u64_le (\<lambda>v.
        if (case expected_module_id of None \<Rightarrow> False | Some expected \<Rightarrow> module_id \<noteq> expected)
           \<or> metadata_available > 1
        then throwR (shared_invalid_payload coordinate ''invalid memory metadata'')
        else
        bindR (shared_memory_state H G ''before memory'' coordinate) (\<lambda>before.
        bindR (shared_memory_state H G ''after memory'' coordinate) (\<lambda>after.
        bindR pc_finish (\<lambda>_.
        retR \<lparr>ma_module_id = module_id, ma_relative_pc = relative_pc, ma_address = address,
              ma_size = bytes, ma_direction = direction,
              ma_metadata_available = (metadata_available = 1), ma_flags = flags, ma_value = v,
              ma_before = before, ma_after = after\<rparr>)))))))))))))"

definition decode_memory_record ::
  "'w host \<Rightarrow> 'w work_guard \<Rightarrow> u8 list \<Rightarrow> source_coordinate \<Rightarrow> ('w, provider_error, memory_access) rm" where
  "decode_memory_record H G payload coordinate =
     bindR (nested payload 5 coordinate) (\<lambda>inner.
     decode_memory_payload_for_module H G inner (Some 1) coordinate)"

section \<open>The wire format of the shared payloads\<close>

text \<open>
  The specification the decoders are held to: each payload as the bytes that carry it, and the
  range of values a recorder may write. A decoder that succeeds has read exactly the encoding of
  what it returns, and it accepts every encoding of a well-formed value.
\<close>

definition name_wf :: "usize \<Rightarrow> utf8 \<Rightarrow> bool" where
  "name_wf maximum v \<longleftrightarrow> utf8_valid v \<and> length v \<le> maximum"

definition wire_register :: "register_definition \<Rightarrow> u8 list" where
  "wire_register r = rd_captured_width r # wire_string (rd_name r)"

definition register_wf :: "register_definition \<Rightarrow> bool" where
  "register_wf r \<longleftrightarrow> 0 < rd_captured_width r \<and> rd_captured_width r \<le> 16 \<and> rd_name r \<noteq> [] \<and>
     name_wf MAX_REGISTER_NAME_BYTES (rd_name r)"

definition registers_wf :: "u64 \<Rightarrow> register_definition list \<Rightarrow> bool" where
  "registers_wf bits rs \<longleftrightarrow>
     map rd_slot rs = map word_of_nat (filter (bit bits) [0..<MAX_GPR_COUNT]) \<and> list_all register_wf rs"

definition wire_slot :: "u8 option \<Rightarrow> u8" where
  "wire_slot s = (case s of None \<Rightarrow> - 1 | Some v \<Rightarrow> v)"

definition slot_wf :: "u8 option \<Rightarrow> bool" where
  "slot_wf s \<longleftrightarrow> (case s of None \<Rightarrow> True | Some v \<Rightarrow> v < word_of_nat MAX_GPR_COUNT)"

fun wire_extend :: "register_extend \<Rightarrow> u8" where
  "wire_extend ExtendNone = 0"
| "wire_extend Uxtw = 1"
| "wire_extend Sxtw = 2"
| "wire_extend Lsl = 3"
| "wire_extend Sxtx = 4"

fun wire_mode :: "memory_address_mode \<Rightarrow> u8" where
  "wire_mode OffsetMode = 0"
| "wire_mode PreIndex = 1"
| "wire_mode PostIndex = 2"

fun wire_pc_kind :: "pc_relative_kind \<Rightarrow> u8" where
  "wire_pc_kind PcNone = 0"
| "wire_pc_kind PcInstruction = 1"
| "wire_pc_kind PcPage = 2"

fun wire_direction :: "memory_direction \<Rightarrow> u8" where
  "wire_direction MemRead = 1"
| "wire_direction MemWrite = 2"
| "wire_direction MemReadWrite = 3"
| "wire_direction MemUnknown = 0"

definition wire_bool :: "bool \<Rightarrow> u8" where
  "wire_bool b = (if b then 1 else 0)"

definition wire_memory_operand :: "memory_operand \<Rightarrow> u8 list" where
  "wire_memory_operand m =
     wire_slot (mo_base m) # wire_slot (mo_index m) # wire_extend (mo_extend m) #
     wire_mode (mo_mode m) # mo_shift m # wire_direction (mo_direction m) #
     wire_bool (mo_writeback m) # to_le_bytes 4 (mo_size m) @ to_le_bytes 8 (mo_displacement m)"

definition memory_operand_wf :: "memory_operand \<Rightarrow> bool" where
  "memory_operand_wf m \<longleftrightarrow> slot_wf (mo_base m) \<and> slot_wf (mo_index m) \<and> mo_direction m \<noteq> MemUnknown"

definition wire_instruction_definition :: "instruction_definition \<Rightarrow> u8 list" where
  "wire_instruction_definition d =
     to_le_bytes 4 (id_definition_id d) @ to_le_bytes 4 (id_opcode d) @
     to_le_bytes 8 (id_read_mask d) @ to_le_bytes 8 (id_write_mask d) @
     to_le_bytes 8 (id_pc_displacement d) @ to_le_bytes 4 (id_flags d) @
     wire_pc_kind (id_pc_kind d) # id_condition d # word_of_nat (length (id_memory_operands d)) #
     wire_bool (id_slow_memory_path d) # wire_string (id_mnemonic d) @ wire_string (id_operands d) @
     wire_string (id_disassembly d) @ concat (map wire_register (id_reads d)) @
     concat (map wire_register (id_writes d)) @
     concat (map wire_memory_operand (id_memory_operands d))"

definition instruction_definition_wf :: "instruction_definition \<Rightarrow> bool" where
  "instruction_definition_wf d \<longleftrightarrow>
     id_flags d AND NOT VALID_INSTRUCTION_FLAGS = 0 \<and>
     drop_bit MAX_GPR_COUNT (id_read_mask d) = 0 \<and> drop_bit MAX_GPR_COUNT (id_write_mask d) = 0 \<and>
     name_wf MAX_MNEMONIC_BYTES (id_mnemonic d) \<and> name_wf MAX_OPERANDS_BYTES (id_operands d) \<and>
     name_wf MAX_DISASSEMBLY_BYTES (id_disassembly d) \<and>
     registers_wf (id_read_mask d) (id_reads d) \<and> registers_wf (id_write_mask d) (id_writes d) \<and>
     length (id_memory_operands d) \<le> MAX_MEMORY_OPERAND_COUNT \<and>
     list_all memory_operand_wf (id_memory_operands d)"

definition wire_observations :: "register_observation list \<Rightarrow> u8 list" where
  "wire_observations os = concat (map (\<lambda>r. to_le_bytes 8 (ro_value r)) os)"

definition observes :: "register_definition \<Rightarrow> register_observation \<Rightarrow> bool" where
  "observes r ob \<longleftrightarrow> ro_slot ob = rd_slot r \<and> ro_captured_width ob = rd_captured_width r \<and>
     ro_name ob = rd_name r"

definition wire_instruction :: "u64 \<Rightarrow> instruction \<Rightarrow> u8 list" where
  "wire_instruction sequence i =
     to_le_bytes 8 sequence @ to_le_bytes 4 (in_module_id i) @ to_le_bytes 8 (in_relative_pc i) @
     to_le_bytes 4 (in_definition_id i) @ word_of_nat (length (in_read_before i)) #
     word_of_nat (length (in_write_after i)) # wire_observations (in_read_before i) @
     wire_observations (in_write_after i)"

definition instruction_matches :: "instruction_definition \<Rightarrow> instruction \<Rightarrow> bool" where
  "instruction_matches d i \<longleftrightarrow> in_definition_id i = id_definition_id d \<and>
     list_all2 observes (id_reads d) (in_read_before i) \<and>
     list_all2 observes (id_writes d) (in_write_after i)"

fun wire_capture :: "capture_bytes \<Rightarrow> u8 list" where
  "wire_capture NotCaptured = [0, 0]"
| "wire_capture Unavailable = [2, 0]"
| "wire_capture (CapturedBytes bytes) = 1 # word_of_nat (length bytes) # bytes"

fun capture_wf :: "capture_bytes \<Rightarrow> bool" where
  "capture_wf (CapturedBytes bytes) \<longleftrightarrow> length bytes \<le> MAX_CAPTURED_MEMORY_BYTES"
| "capture_wf _ \<longleftrightarrow> True"

definition wire_memory :: "memory_access \<Rightarrow> u8 list" where
  "wire_memory m =
     to_le_bytes 4 (ma_module_id m) @ to_le_bytes 8 (ma_relative_pc m) @
     wire_direction (ma_direction m) # wire_bool (ma_metadata_available m) #
     to_le_bytes 2 (ma_flags m) @ to_le_bytes 8 (ma_address m) @ to_le_bytes 4 (ma_size m) @
     to_le_bytes 8 (ma_value m) @ wire_capture (ma_before m) @ wire_capture (ma_after m)"

definition memory_wf :: "memory_access \<Rightarrow> bool" where
  "memory_wf m \<longleftrightarrow> ma_direction m \<noteq> MemUnknown \<and> capture_wf (ma_before m) \<and> capture_wf (ma_after m)"

text \<open>A record header in front of a payload.\<close>

definition wire_nested :: "u16 \<Rightarrow> u8 list \<Rightarrow> u8 list" where
  "wire_nested kind payload =
     to_le_bytes 2 kind @ to_le_bytes 2 (0 :: u16) @
     to_le_bytes 4 (word_of_nat (length payload) :: u32) @ payload"

section \<open>Decoders read the wire format\<close>

lemma word_of_unat_eq: "unat v = n \<Longrightarrow> word_of_nat n = v"
  by auto

lemma u8_le_cases:
  "(v :: u8) \<le> 1 \<Longrightarrow> v = 0 \<or> v = 1"
  "(v :: u8) \<le> 2 \<Longrightarrow> v = 0 \<or> v = 1 \<or> v = 2"
  "(v :: u8) \<le> 4 \<Longrightarrow> v = 0 \<or> v = 1 \<or> v = 2 \<or> v = 3 \<or> v = 4"
  unfolding word_le_nat_alt word_unat_eq_iff by simp_all linarith+

lemma wire_decode:
  "v \<le> 4 \<Longrightarrow> wire_extend (decode_extend v) = v"
  "v \<le> 2 \<Longrightarrow> wire_mode (decode_mode v) = v"
  "v \<le> 2 \<Longrightarrow> wire_pc_kind (decode_pc_kind v) = v"
  "v \<le> 1 \<Longrightarrow> wire_bool (v = 1) = v"
  by (auto dest!: u8_le_cases
      simp: decode_extend_def decode_mode_def decode_pc_kind_def wire_bool_def)

lemma wire_direction_decode:
  "decode_direction v k = Inr d \<Longrightarrow> wire_direction d = v \<and> d \<noteq> MemUnknown"
  by (auto simp: decode_direction_def split: if_splits)

lemma decode_wire [simp]:
  "decode_extend (wire_extend e) = e" "decode_mode (wire_mode m) = m"
  "decode_pc_kind (wire_pc_kind p) = p" "(wire_bool b = 1) = b"
proof -
  show "decode_extend (wire_extend e) = e" by (cases e) (simp_all add: decode_extend_def)
  show "decode_mode (wire_mode m) = m" by (cases m) (simp_all add: decode_mode_def)
  show "decode_pc_kind (wire_pc_kind p) = p" by (cases p) (simp_all add: decode_pc_kind_def)
  show "(wire_bool b = 1) = b" by (simp add: wire_bool_def)
qed

lemma decode_direction_wire [simp]:
  "d \<noteq> MemUnknown \<Longrightarrow> decode_direction (wire_direction d) k = Inr d"
  by (cases d) (simp_all add: decode_direction_def)

lemma shared_registers_loop_ok:
  "shared_registers_loop H G bits field k slots (c, w) = (Inr rs, (c', w')) \<Longrightarrow>
     pc_rest c = concat (map wire_register rs) @ pc_rest c' \<and>
     map rd_slot rs = map word_of_nat (filter (bit bits) slots) \<and> list_all register_wf rs"
proof (induction slots arbitrary: c w rs)
  case Nil
  then show ?case by simp
next
  case (Cons slot slots)
  show ?case
  proof (cases "bit bits slot")
    case False
    then show ?thesis using Cons by (simp add: and_exp_eq_0_iff_not_bit)
  next
    case True
    then obtain width c1 w1 name c2 w2 rs' where "pc_u8 (c, w) = (Inr width, (c1, w1))"
      and "bounded_utf8_guarded H G MAX_REGISTER_NAME_BYTES field (c1, w1) = (Inr name, (c2, w2))"
      and "width \<noteq> 0" "width \<le> 16" "name \<noteq> []"
      and "shared_registers_loop H G bits field k slots (c2, w2) = (Inr rs', (c', w'))"
      and "rs = \<lparr>rd_slot = word_of_nat slot, rd_captured_width = width, rd_name = name\<rparr> # rs'"
      using Cons.prems by (auto simp: rm_ok and_exp_eq_0_iff_not_bit not_less split: if_splits)
    then show ?thesis
      using True Cons.IH [of c2 w2 rs']
      by (auto simp: wire_register_def register_wf_def name_wf_def word_neq_0_conv dest!: read_ok)
  qed
qed

lemma shared_registers_ok:
  "shared_registers H G bits field k (c, w) = (Inr rs, (c', w')) \<Longrightarrow>
     pc_rest c = concat (map wire_register rs) @ pc_rest c' \<and> registers_wf bits rs"
  by (auto simp: shared_registers_def rm_ok registers_wf_def dest!: shared_registers_loop_ok)

lemma shared_memory_state_ok:
  "shared_memory_state H G field k (c, w) = (Inr v, (c', w')) \<Longrightarrow>
     pc_rest c = wire_capture v @ pc_rest c' \<and> capture_wf v"
  by (auto simp: shared_memory_state_def rm_ok Let_def unat_eq_zero split: if_splits
      dest!: read_ok try_copy_bytes_result)

lemma shared_memory_operand_ok:
  "shared_memory_operand k (c, w) = (Inr v, (c', w')) \<Longrightarrow>
     pc_rest c = wire_memory_operand v @ pc_rest c' \<and> memory_operand_wf v"
  unfolding shared_memory_operand_def
  by (elim read_elims)
    (auto simp: wire_memory_operand_def memory_operand_wf_def wire_decode wire_slot_def slot_wf_def
      not_less not_le dest!: wire_direction_decode)

lemma shared_observation_ok:
  "shared_observation H G detail r (c, w) = (Inr ob, (c', w')) \<Longrightarrow>
     pc_rest c = to_le_bytes 8 (ro_value ob) @ pc_rest c' \<and> observes r ob"
  by (auto simp: shared_observation_def rm_ok observes_def dest!: read_ok try_copy_string_result)

lemma nested_ok:
  assumes "nested payload kind k w = (Inr inner, w')"
  shows "w' = w \<and> payload = wire_nested kind inner"
proof -
  obtain c c1 c2 c3 c4 w1 w2 w3 flags count where reads: "pc_u16_le (c, w) = (Inr kind, (c1, w1))"
      "pc_u16_le (c1, w1) = (Inr flags, (c2, w2))" "pc_u32_le (c2, w2) = (Inr count, (c3, w3))"
      "pc_take (unat count) (c3, w3) = (Inr inner, (c4, w'))" and flags: "flags = 0"
    and count: "unat count = length payload - 8" and rest: "pc_rest c = payload"
    using with_payload_ok [OF assms [unfolded nested_def]] by (auto simp: rm_ok split: if_splits)
  have w: "w' = w" and p: "payload = to_le_bytes 2 kind @ to_le_bytes 2 flags @
      to_le_bytes 4 count @ inner @ pc_rest c4" and l: "length inner = unat count"
    using reads rest by (auto dest!: read_ok)
  have "length payload = 8 + length inner + length (pc_rest c4)"
    by (subst p) simp
  with count l have "pc_rest c4 = []" by simp
  moreover have "word_of_nat (length inner) = count"
    by (simp add: l)
  ultimately show ?thesis
    using w p flags by (simp add: wire_nested_def)
qed

lemma bind_registersE [read_elims]:
  assumes "bindR (shared_registers H G bits field k) f (c, w) = (Inr y, s)"
  obtains rs c1 w1 where "pc_rest c = concat (map wire_register rs) @ pc_rest c1"
    and "registers_wf bits rs" and "f rs (c1, w1) = (Inr y, s)"
  using assms by (auto simp: bindR_Inr dest!: shared_registers_ok)

lemma bind_captureE [read_elims]:
  assumes "bindR (shared_memory_state H G field k) f (c, w) = (Inr y, s)"
  obtains v c1 w1 where "pc_rest c = wire_capture v @ pc_rest c1" and "capture_wf v"
    and "f v (c1, w1) = (Inr y, s)"
  using assms by (auto simp: bindR_Inr dest!: shared_memory_state_ok)

lemma bind_operandsE [read_elims]:
  assumes "bindR (forR (\<lambda>_. shared_memory_operand k) [0..<n]) f (c, w) = (Inr y, s)"
  obtains ops c1 w1 where "pc_rest c = concat (map wire_memory_operand ops) @ pc_rest c1"
    and "length ops = n" and "list_all memory_operand_wf ops" and "f ops (c1, w1) = (Inr y, s)"
proof -
  obtain ops c1 w1 where m: "forR (\<lambda>_. shared_memory_operand k) [0..<n] (c, w) = (Inr ops, (c1, w1))"
    and f: "f ops (c1, w1) = (Inr y, s)"
    using assms by (auto simp: bindR_Inr)
  have "pc_rest c = concat (map wire_memory_operand ops) @ pc_rest c1 \<and>
      list_all2 (\<lambda>_. memory_operand_wf) [0..<n] ops"
    using m by (rule forR_ok [rotated]) (rule shared_memory_operand_ok)
  with f that show thesis
    by (auto simp: list_all2_conv_all_nth list_all_length)
qed

lemma bind_observationsE [read_elims]:
  assumes "bindR (forR (shared_observation H G detail) rs) f (c, w) = (Inr y, s)"
  obtains os c1 w1 where "pc_rest c = wire_observations os @ pc_rest c1"
    and "list_all2 observes rs os" and "length os = length rs" and "f os (c1, w1) = (Inr y, s)"
proof -
  obtain os c1 w1 where m: "forR (shared_observation H G detail) rs (c, w) = (Inr os, (c1, w1))"
    and f: "f os (c1, w1) = (Inr y, s)"
    using assms by (auto simp: bindR_Inr)
  have "pc_rest c = concat (map (\<lambda>r. to_le_bytes 8 (ro_value r)) os) @ pc_rest c1 \<and>
      list_all2 observes rs os"
    using m by (rule forR_ok [rotated]) (rule shared_observation_ok)
  with f that show thesis by (simp add: wire_observations_def list_all2_lengthD)
qed

lemma with_payload_okE:
  assumes "with_payload bytes label k m w = (Inr x, w')"
  obtains c c' where "m (c, w) = (Inr x, (c', w'))" and "pc_rest c = bytes"
  using with_payload_ok [OF assms] by blast

lemma definition_payload_ok:
  "decode_instruction_definition_payload H G payload k w = (Inr d, w') \<Longrightarrow>
     payload = wire_instruction_definition d \<and> instruction_definition_wf d \<and> id_definition_id d \<noteq> 0"
  unfolding decode_instruction_definition_payload_def
  by (elim with_payload_okE read_elims)
    (auto simp: wire_instruction_definition_def instruction_definition_wf_def name_wf_def
      wire_decode not_less)

lemma instruction_payload_ok:
  "decode_instruction_payload H G payload df expected k w = (Inr r, w') \<Longrightarrow>
     payload = wire_instruction (di_local_sequence r) (di_instruction r) \<and>
     instruction_matches df (di_instruction r) \<and>
     (\<forall>m. expected = Some m \<longrightarrow> in_module_id (di_instruction r) = m)"
  unfolding decode_instruction_payload_def
  by (elim with_payload_okE read_elims)
    (auto simp: wire_instruction_def instruction_matches_def dest!: word_of_unat_eq)

lemma memory_payload_ok:
  "decode_memory_payload_for_module H G payload expected k w = (Inr m, w') \<Longrightarrow>
     payload = wire_memory m \<and> memory_wf m \<and> (\<forall>i. expected = Some i \<longrightarrow> ma_module_id m = i)"
  unfolding decode_memory_payload_for_module_def
  by (elim with_payload_okE read_elims)
    (auto simp: wire_memory_def memory_wf_def wire_decode not_less dest!: wire_direction_decode)

section \<open>Decoders accept the wire format\<close>

lemma accepts_ret_eq: "x = y \<Longrightarrow> accepts (retR x) c y c"
  by (simp add: accepts_def)

lemma accepts_result: "r = Inr x \<Longrightarrow> accepts (resultR r) c x c"
  by (simp add: accepts_def resultR_def)

lemma wire_slot_wf:
  assumes "slot_wf s"
  shows "\<not> (wire_slot s \<ge> word_of_nat MAX_GPR_COUNT \<and> wire_slot s \<noteq> - 1)"
    and "(if wire_slot s \<noteq> - 1 then Some (wire_slot s) else None) = s"
proof -
  show "\<not> (wire_slot s \<ge> word_of_nat MAX_GPR_COUNT \<and> wire_slot s \<noteq> - 1)"
    using assms by (cases s) (simp_all add: wire_slot_def slot_wf_def not_le)
  have "v \<noteq> - 1" if "v < word_of_nat MAX_GPR_COUNT" for v :: u8
    using that by (auto simp: MAX_GPR_COUNT_def)
  then show "(if wire_slot s \<noteq> - 1 then Some (wire_slot s) else None) = s"
    using assms by (cases s) (simp_all add: wire_slot_def slot_wf_def)
qed

lemma wire_bounds:
  "wire_extend e \<le> 4" "wire_mode m \<le> 2" "wire_pc_kind p \<le> 2" "wire_bool b \<le> 1"
  "wire_direction d \<le> 3" "d \<noteq> MemUnknown \<Longrightarrow> 1 \<le> wire_direction d"
proof -
  show "wire_extend e \<le> 4" by (cases e) simp_all
  show "wire_mode m \<le> 2" by (cases m) simp_all
  show "wire_pc_kind p \<le> 2" by (cases p) simp_all
  show "wire_bool b \<le> 1" by (simp add: wire_bool_def)
  show "wire_direction d \<le> 3" by (cases d) simp_all
  show "1 \<le> wire_direction d" if "d \<noteq> MemUnknown" using that by (cases d) simp_all
qed

lemma accepts_memory_operand:
  assumes "memory_operand_wf m"
  shows "accepts (shared_memory_operand co) (pc_at d (wire_memory_operand m @ r) l k) m
    (pc_at (d @ wire_memory_operand m) r l k)"
proof -
  have wf: "slot_wf (mo_base m)" "slot_wf (mo_index m)" "mo_direction m \<noteq> MemUnknown"
    using assms by (simp_all add: memory_operand_wf_def)
  show ?thesis
    unfolding shared_memory_operand_def wire_memory_operand_def append_Cons append_assoc
    by (rule accepts_conv)
      (rule accept_intros accepts_ret_eq accepts_result
        | simp add: wire_slot_wf [OF wf(1)] wire_slot_wf [OF wf(2)] wire_bounds wf not_less)+
qed

lemma accepts_append:
  assumes "accepts m (pc_at d r l k) x (pc_at ((d @ a) @ b) r' l k)"
  shows "accepts m (pc_at d r l k) x (pc_at (d @ a @ b) r' l k)"
  using assms by simp

lemma accepts_guard: "\<not> b \<Longrightarrow> accepts n c x c' \<Longrightarrow> accepts (if b then throwR e else n) c x c'"
  by simp

lemma capture_branches:
  "NotCaptured = v \<Longrightarrow> accepts (if (0 :: u8) = 0 \<and> unat (0 :: u8) = 0 then retR NotCaptured else m) c v c"
  "Unavailable = v \<Longrightarrow> accepts (if (2 :: u8) = 0 \<and> unat (0 :: u8) = 0 then m else if (2 :: u8) = 1 then n
     else if (2 :: u8) = 2 \<and> unat (0 :: u8) = 0 then retR Unavailable else t) c v c"
  "accepts n c v c' \<Longrightarrow> accepts (if (1 :: u8) = 0 \<and> q then m else if (1 :: u8) = 1 then n else t) c v c'"
  by (simp_all add: accepts_def)

lemma registers_wf_length:
  assumes "registers_wf bits rs"
  shows "length rs \<le> 34"
proof -
  have "length rs = length (filter (bit bits) [0..<34])"
    using assms by (metis MAX_GPR_COUNT_def length_map registers_wf_def)
  also have "\<dots> \<le> 34" by (rule order_trans [OF length_filter_le]) simp
  finally show ?thesis .
qed

lemma registers_wf_names:
  "registers_wf bits rs \<Longrightarrow> list_all (\<lambda>rd. length (rd_name rd) < 65536) rs"
  by (auto simp: registers_wf_def list_all_iff register_wf_def name_wf_def MAX_REGISTER_NAME_BYTES_def)

context permissive_guard
begin

lemma accepts_registers_loop:
  assumes "roomy H" and "map rd_slot rs = map word_of_nat (filter (bit bits) slots)" and "list_all register_wf rs"
  shows "accepts (shared_registers_loop H G bits field co slots)
    (pc_at d (concat (map wire_register rs) @ r) l k) rs (pc_at (d @ concat (map wire_register rs)) r l k)"
  using assms(2,3)
proof (induction slots arbitrary: rs d)
  case Nil
  then show ?case by (simp add: accepts_def)
next
  case (Cons slot slots)
  show ?case
  proof (cases "bit bits slot")
    case False
    then have "shared_registers_loop H G bits field co (slot # slots) =
        shared_registers_loop H G bits field co slots"
      by (simp add: and_exp_eq_0_iff_not_bit)
    then show ?thesis using Cons False by simp
  next
    case True
    then obtain v rs' where rs: "rs = v # rs'" and slot: "rd_slot v = word_of_nat slot"
      and tail: "map rd_slot rs' = map word_of_nat (filter (bit bits) slots)"
      using Cons.prems(1) by (cases rs) auto
    have v: "register_wf v" and rs': "list_all register_wf rs'"
      using Cons.prems(2) rs by simp_all
    have nb: "\<not> bits AND push_bit slot 1 = 0"
      using True by (simp add: and_exp_eq_0_iff_not_bit)
    have n: "utf8_valid (rd_name v)" "length (rd_name v) \<le> MAX_REGISTER_NAME_BYTES"
      "length (rd_name v) < 65536" "\<not> (rd_captured_width v = 0 \<or> rd_captured_width v > 16 \<or> rd_name v = [])"
      using v by (auto simp: register_wf_def name_wf_def MAX_REGISTER_NAME_BYTES_def)
    have eq: "\<lparr>rd_slot = word_of_nat slot, rd_captured_width = rd_captured_width v,
        rd_name = rd_name v\<rparr> = v"
      using slot by simp
    show ?thesis
      unfolding rs list.map concat.simps wire_register_def [of v] append_Cons append_assoc
        shared_registers_loop.simps(2)
      by (rule accepts_conv)
        (rule assms(1) nb n accept_intros accepts_utf8 Cons.IH [OF tail rs'] accepts_ret_eq
          | simp add: eq)+
  qed
qed

lemma count_ones_le: "count_ones bits < 65536"
  unfolding count_ones_def by (rule le_less_trans [OF length_filter_le]) simp

lemma accepts_registers:
  assumes "roomy H" and "registers_wf bits rs"
  shows "accepts (shared_registers H G bits field co)
    (pc_at d (concat (map wire_register rs) @ r) l k) rs (pc_at (d @ concat (map wire_register rs)) r l k)"
  using assms unfolding shared_registers_def registers_wf_def
  by (auto intro!: accepts_reserve accepts_registers_loop count_ones_le)

lemma accepts_capture:
  assumes "roomy H" and "capture_wf v"
  shows "accepts (shared_memory_state H G field co) (pc_at d (wire_capture v @ r) l k) v
    (pc_at (d @ wire_capture v) r l k)"
proof (cases v)
  case NotCaptured
  have "accepts (shared_memory_state H G field co) (pc_at d (0 # 0 # [] @ r) l k) v
      (pc_at (d @ wire_capture v) r l k)"
    unfolding shared_memory_state_def Let_def
    by (rule accepts_conv)
      (rule accepts_bind accepts_u8 accepts_guard accepts_take capture_branches
        | simp add: NotCaptured)+
  then show ?thesis by (simp add: NotCaptured)
next
  case Unavailable
  have "accepts (shared_memory_state H G field co) (pc_at d (2 # 0 # [] @ r) l k) v
      (pc_at (d @ wire_capture v) r l k)"
    unfolding shared_memory_state_def Let_def
    by (rule accepts_conv)
      (rule accepts_bind accepts_u8 accepts_guard accepts_take capture_branches
        | simp add: Unavailable)+
  then show ?thesis by (simp add: Unavailable)
next
  case (CapturedBytes bytes)
  then have len: "length bytes \<le> 64"
    using assms by (simp add: MAX_CAPTURED_MEMORY_BYTES_def)
  then have u: "unat (word_of_nat (length bytes) :: u8) = length bytes"
    by (simp add: unat_of_nat)
  have copy: "accepts (liftW (try_copy_bytes H G bytes detail)) c bytes c" for detail c
    using len assms(1) by (simp add: accepts_copy_bytes)
  show ?thesis
    unfolding CapturedBytes wire_capture.simps shared_memory_state_def Let_def append_Cons
    by (rule accepts_conv)
      (rule accepts_bind accepts_u8 accepts_guard accepts_take copy capture_branches accepts_ret_eq
        | simp add: u len MAX_CAPTURED_MEMORY_BYTES_def not_less)+
qed

lemma accepts_observation:
  assumes "roomy H" and "observes rd ob" and "length (rd_name rd) < 65536"
  shows "accepts (shared_observation H G detail rd) (pc_at d (to_le_bytes 8 (ro_value ob) @ r) l k) ob
    (pc_at (d @ to_le_bytes 8 (ro_value ob)) r l k)"
  unfolding shared_observation_def
  by (rule accepts_conv)
    (rule accept_intros accepts_copy_string accepts_ret_eq | use assms in \<open>simp add: observes_def\<close>)+

lemma accepts_observations:
  assumes "roomy H" and "list_all2 observes rds os" and "list_all (\<lambda>rd. length (rd_name rd) < 65536) rds"
  shows "accepts (forR (shared_observation H G detail) rds) (pc_at d (wire_observations os @ r) l k) os
    (pc_at (d @ wire_observations os) r l k)"
  unfolding wire_observations_def
proof (rule accepts_forR)
  show "length rds = length os"
    using assms(2) by (rule list_all2_lengthD)
  show "accepts (shared_observation H G detail rd) (pc_at d (to_le_bytes 8 (ro_value ob) @ r) l k) ob
      (pc_at (d @ to_le_bytes 8 (ro_value ob)) r l k)" if "(rd, ob) \<in> set (zip rds os)" for rd ob d r
    using that assms by (intro accepts_observation) (auto simp: list_all2_iff list_all_iff dest: set_zip_leftD)
qed

lemma accepts_operands:
  assumes "list_all memory_operand_wf ops" and "length ops = n"
  shows "accepts (forR (\<lambda>_. shared_memory_operand co) [0..<n])
    (pc_at d (concat (map wire_memory_operand ops) @ r) l k) ops
    (pc_at (d @ concat (map wire_memory_operand ops)) r l k)"
  by (rule accepts_forR) (use assms in \<open>auto intro!: accepts_memory_operand simp: list_all_iff dest: set_zip_rightD\<close>)

lemma definition_payload_accepts:
  assumes room: "roomy H" and wf: "instruction_definition_wf df" and id: "id_definition_id df \<noteq> 0"
    and len: "length (wire_instruction_definition df) < usize_limit"
  shows "\<exists>w'. decode_instruction_definition_payload H G (wire_instruction_definition df) co w = (Inr df, w')"
proof -
  let ?n = "word_of_nat (length (id_memory_operands df)) :: u8"
  have parts: "utf8_valid (id_mnemonic df)" "length (id_mnemonic df) \<le> MAX_MNEMONIC_BYTES"
    "utf8_valid (id_operands df)" "length (id_operands df) \<le> MAX_OPERANDS_BYTES"
    "utf8_valid (id_disassembly df)" "length (id_disassembly df) \<le> MAX_DISASSEMBLY_BYTES"
    "registers_wf (id_read_mask df) (id_reads df)" "registers_wf (id_write_mask df) (id_writes df)"
    "list_all memory_operand_wf (id_memory_operands df)"
    and n: "length (id_memory_operands df) \<le> MAX_MEMORY_OPERAND_COUNT"
    using wf by (simp_all add: instruction_definition_wf_def name_wf_def)
  have short: "length (id_mnemonic df) < 65536" "length (id_operands df) < 65536"
    "length (id_disassembly df) < 65536"
    using parts by (simp_all add: MAX_MNEMONIC_BYTES_def MAX_OPERANDS_BYTES_def MAX_DISASSEMBLY_BYTES_def)
  have u: "unat ?n = length (id_memory_operands df)"
    using n by (simp add: unat_of_nat MAX_MEMORY_OPERAND_COUNT_def)
  have count: "length (id_memory_operands df) = unat ?n" "unat ?n < 65536"
    using n by (simp_all add: u MAX_MEMORY_OPERAND_COUNT_def)
  have guard: "\<not> (id_definition_id df = 0 \<or> id_flags df AND NOT VALID_INSTRUCTION_FLAGS \<noteq> 0
      \<or> wire_pc_kind (id_pc_kind df) > 2 \<or> wire_bool (id_slow_memory_path df) > 1
      \<or> unat ?n > MAX_MEMORY_OPERAND_COUNT \<or> drop_bit MAX_GPR_COUNT (id_read_mask df) \<noteq> 0
      \<or> drop_bit MAX_GPR_COUNT (id_write_mask df) \<noteq> 0)"
    using wf id n by (simp add: u instruction_definition_wf_def wire_bounds not_less)
  have "\<exists>w'. decode_instruction_definition_payload H G (wire_instruction_definition df @ []) co w = (Inr df, w')"
    unfolding decode_instruction_definition_payload_def wire_instruction_definition_def append_Cons append_assoc
    by (rule accepts_with_payload)
      ((rule room parts short guard count accept_intros accepts_utf8 accepts_registers accepts_reserve
          accepts_operands accepts_ret_eq)+,
        simp, use len in \<open>simp add: wire_instruction_definition_def\<close>)
  then show ?thesis by simp
qed

lemma instruction_payload_accepts:
  assumes room: "roomy H" and wf: "instruction_definition_wf df" and m: "instruction_matches df i"
    and expected: "\<forall>e. expected = Some e \<longrightarrow> in_module_id i = e"
    and len: "length (wire_instruction sequence i) < usize_limit"
  shows "\<exists>w'. decode_instruction_payload H G (wire_instruction sequence i) df expected co w =
      (Inr \<lparr>di_local_sequence = sequence, di_instruction = i\<rparr>, w')"
proof -
  let ?r = "word_of_nat (length (in_read_before i)) :: u8"
  let ?s = "word_of_nat (length (in_write_after i)) :: u8"
  have obs: "list_all2 observes (id_reads df) (in_read_before i)"
    "list_all2 observes (id_writes df) (in_write_after i)"
    and id: "in_definition_id i = id_definition_id df"
    using m by (simp_all add: instruction_matches_def)
  have rw: "registers_wf (id_read_mask df) (id_reads df)" "registers_wf (id_write_mask df) (id_writes df)"
    using wf by (simp_all add: instruction_definition_wf_def)
  have l: "length (in_read_before i) = length (id_reads df)" "length (in_write_after i) = length (id_writes df)"
    using obs by (simp_all add: list_all2_lengthD)
  have u: "unat ?r = length (id_reads df)" "unat ?s = length (id_writes df)"
    using registers_wf_length [OF rw(1)] registers_wf_length [OF rw(2)] by (simp_all add: l unat_of_nat)
  have small: "unat ?r < 65536" "unat ?s < 65536"
    using registers_wf_length [OF rw(1)] registers_wf_length [OF rw(2)] by (simp_all add: u)
  have guard: "\<not> ((case expected of None \<Rightarrow> False | Some e \<Rightarrow> in_module_id i \<noteq> e)
      \<or> in_definition_id i \<noteq> id_definition_id df \<or> unat ?r \<noteq> length (id_reads df)
      \<or> unat ?s \<noteq> length (id_writes df))"
    using expected by (simp add: id u split: option.split)
  have "\<exists>w'. decode_instruction_payload H G (wire_instruction sequence i @ []) df expected co w =
      (Inr \<lparr>di_local_sequence = sequence, di_instruction = i\<rparr>, w')"
    unfolding decode_instruction_payload_def wire_instruction_def append_Cons append_assoc
    by (rule accepts_with_payload)
      ((rule room obs guard small registers_wf_names [OF rw(1)] registers_wf_names [OF rw(2)] accept_intros accepts_observations
          accepts_reserve accepts_ret_eq)+,
        simp, use len in \<open>simp add: wire_instruction_def\<close>)
  then show ?thesis by simp
qed

lemma memory_payload_accepts:
  assumes room: "roomy H" and wf: "memory_wf m" and expected: "\<forall>e. expected = Some e \<longrightarrow> ma_module_id m = e"
    and len: "length (wire_memory m) < usize_limit"
  shows "\<exists>w'. decode_memory_payload_for_module H G (wire_memory m) expected co w = (Inr m, w')"
proof -
  note wf' = wf [unfolded memory_wf_def]
  have "\<exists>w'. decode_memory_payload_for_module H G (wire_memory m @ []) expected co w = (Inr m, w')"
    unfolding decode_memory_payload_for_module_def wire_memory_def append_Cons append_assoc
    by (rule accepts_with_payload)
      (rule room accept_intros accepts_capture accepts_result accepts_ret_eq
        | use wf' len expected in \<open>simp add: wire_bounds not_less wire_memory_def split: option.split\<close>)+
  then show ?thesis by simp
qed

end

section \<open>Every well-formed payload fits its record\<close>

lemma length_wire_string [simp]: "length (wire_string v) = 2 + length v"
  by (simp add: wire_string_def)

lemma length_concat_le:
  "(\<And>x. x \<in> set xs \<Longrightarrow> length (f x) \<le> n) \<Longrightarrow> length (concat (map f xs)) \<le> n * length xs"
  by (induction xs) (simp_all add: add_mono)

lemma length_wire_registers:
  assumes "registers_wf bits rs"
  shows "length (concat (map wire_register rs)) \<le> 646"
proof -
  have "length (concat (map wire_register rs)) \<le> 19 * length rs"
    using assms
    by (intro length_concat_le)
      (auto simp: registers_wf_def list_all_iff register_wf_def name_wf_def wire_register_def
        MAX_REGISTER_NAME_BYTES_def)
  with registers_wf_length [OF assms] show ?thesis by simp
qed

lemma length_wire_operands:
  "length ops \<le> 4 \<Longrightarrow> length (concat (map wire_memory_operand ops)) \<le> 76"
  using length_concat_le [of ops wire_memory_operand 19] by (simp add: wire_memory_operand_def)

lemma length_wire_observations [simp]: "length (wire_observations os) = 8 * length os"
  unfolding wire_observations_def by (induction os) simp_all

lemma length_wire_instruction_definition:
  assumes "instruction_definition_wf d"
  shows "length (wire_instruction_definition d) \<le> unat INSTRUCTION_DEFINITION_PAYLOAD_MAX"
proof -
  have "length (id_mnemonic d) \<le> 16" "length (id_operands d) \<le> 96" "length (id_disassembly d) \<le> 112"
    "length (id_memory_operands d) \<le> 4"
    and "registers_wf (id_read_mask d) (id_reads d)" "registers_wf (id_write_mask d) (id_writes d)"
    using assms by (simp_all add: instruction_definition_wf_def name_wf_def wire_constants)
  then show ?thesis
    using length_wire_registers [of _ "id_reads d"] length_wire_registers [of _ "id_writes d"]
      length_wire_operands [of "id_memory_operands d"]
    by (fastforce simp: wire_instruction_definition_def payload_maxima wire_constants)
qed

lemma length_wire_instruction:
  assumes "instruction_definition_wf d" and "instruction_matches d i"
  shows "length (wire_instruction sequence i) \<le> unat INSTRUCTION_PAYLOAD_MAX"
proof -
  have "length (in_read_before i) = length (id_reads d)" "length (in_write_after i) = length (id_writes d)"
    using assms(2) unfolding instruction_matches_def by (metis list_all2_lengthD)+
  moreover have "length (id_reads d) \<le> 34" "length (id_writes d) \<le> 34"
    using assms(1) by (auto simp: instruction_definition_wf_def dest: registers_wf_length)
  ultimately show ?thesis
    by (simp add: wire_instruction_def payload_maxima wire_constants)
qed

lemma length_wire_memory:
  assumes "memory_wf m"
  shows "length (wire_memory m) \<le> unat MEMORY_PAYLOAD_MAX"
proof -
  have "length (wire_capture v) \<le> 66" if "capture_wf v" for v
    using that by (cases v) (simp_all add: MAX_CAPTURED_MEMORY_BYTES_def)
  then have "length (wire_capture (ma_before m)) \<le> 66" "length (wire_capture (ma_after m)) \<le> 66"
    using assms by (simp_all add: memory_wf_def)
  then show ?thesis
    by (simp add: wire_memory_def payload_maxima wire_constants)
qed

lemma nested_accepts:
  assumes "length inner < 2 ^ 32"
  shows "nested (wire_nested kind inner) kind k w = (Inr inner, w)"
proof -
  have u: "unat (word_of_nat (length inner) :: u32) = length inner"
    using assms by (simp add: unat_of_nat)
  have guard: "\<not> (kind \<noteq> kind \<or> (0 :: u16) \<noteq> 0 \<or> unat (word_of_nat (length inner) :: u32) \<noteq>
      length (to_le_bytes 2 kind @ to_le_bytes 2 (0 :: u16) @
        to_le_bytes 4 (word_of_nat (length inner) :: u32) @ inner @ []) - 8)"
    by (simp add: u)
  have take: "accepts (pc_take (unat (word_of_nat (length inner) :: u32)))
      (pc_at d (inner @ []) l k) inner (pc_at (d @ inner) [] l k)" for d l
    by (rule accepts_take) (rule u)
  have "\<exists>w'. nested (wire_nested kind inner @ []) kind k w = (Inr inner, w')"
    unfolding nested_def wire_nested_def append_assoc
    by (rule accepts_with_payload)
      ((rule guard take accept_intros)+, use assms in \<open>simp add: usize_limit_def\<close>)
  then obtain w' where "nested (wire_nested kind inner) kind k w = (Inr inner, w')"
    by auto
  with nested_ok show ?thesis by fastforce
qed

section \<open>Exactness of the shared decoders\<close>

definition sample_definition :: instruction_definition where
  "sample_definition =
     \<lparr>id_definition_id = 7, id_opcode = 0xF9400420, id_read_mask = 2, id_write_mask = 1,
      id_pc_displacement = 0, id_flags = 1, id_pc_kind = PcNone, id_condition = 0,
      id_slow_memory_path = False, id_mnemonic = str_bytes ''ldr'',
      id_operands = str_bytes ''x0, [x1, #8]'', id_disassembly = str_bytes ''ldr x0, [x1, #8]'',
      id_reads = [\<lparr>rd_slot = 1, rd_captured_width = 8, rd_name = str_bytes ''x1''\<rparr>],
      id_writes = [\<lparr>rd_slot = 0, rd_captured_width = 8, rd_name = str_bytes ''x0''\<rparr>],
      id_memory_operands = [\<lparr>mo_base = Some 1, mo_index = None, mo_extend = ExtendNone,
        mo_mode = OffsetMode, mo_shift = 0, mo_direction = MemRead, mo_writeback = False,
        mo_size = 8, mo_displacement = 8\<rparr>]\<rparr>"

definition sample_instruction :: instruction where
  "sample_instruction =
     \<lparr>in_definition_id = 7, in_module_id = 1, in_relative_pc = 0x1000,
      in_read_before = [\<lparr>ro_slot = 1, ro_captured_width = 8, ro_name = str_bytes ''x1'', ro_value = 0x7000\<rparr>],
      in_write_after = [\<lparr>ro_slot = 0, ro_captured_width = 8, ro_name = str_bytes ''x0'', ro_value = 42\<rparr>]\<rparr>"

definition sample_memory :: memory_access where
  "sample_memory =
     \<lparr>ma_module_id = 1, ma_relative_pc = 0x1000, ma_address = 0x7008, ma_size = 8,
      ma_direction = MemRead, ma_metadata_available = True, ma_flags = 0, ma_value = 42,
      ma_before = CapturedBytes [42, 0, 0, 0, 0, 0, 0, 0], ma_after = NotCaptured\<rparr>"

lemma sample_definition_wf: "instruction_definition_wf sample_definition"
  by code_simp

lemma sample_instruction_matches: "instruction_matches sample_definition sample_instruction"
  by code_simp

lemma sample_memory_wf: "memory_wf sample_memory"
  by code_simp

text \<open>
  C13. With a guard that refuses nothing, the Flight decoder of nested instruction definitions accepts
  exactly the wire encodings of well-formed definitions with a nonzero identifier, and returns the
  definition that was encoded: no payload is decoded to two definitions, no well-formed definition
  is refused, and reserved flags, register slots past 33, empty or overlong names and trailing
  bytes never get through.
\<close>

theorem definition_record_exact:
  assumes "roomy H"
  shows "(\<exists>w'. decode_instruction_definition_record H allow_state_work payload k w = (Inr d, w')) \<longleftrightarrow>
     payload = wire_nested 3 (wire_instruction_definition d) \<and> instruction_definition_wf d \<and>
     id_definition_id d \<noteq> 0"
proof (intro iffI)
  assume "\<exists>w'. decode_instruction_definition_record H allow_state_work payload k w = (Inr d, w')"
  then show "payload = wire_nested 3 (wire_instruction_definition d) \<and> instruction_definition_wf d \<and>
     id_definition_id d \<noteq> 0"
    by (auto simp: decode_instruction_definition_record_def bindR_Inr dest!: nested_ok definition_payload_ok)
next
  assume d: "payload = wire_nested 3 (wire_instruction_definition d) \<and> instruction_definition_wf d \<and>
     id_definition_id d \<noteq> 0"
  then have len: "length (wire_instruction_definition d) \<le> 1638"
    using length_wire_instruction_definition [of d] by (simp add: payload_maxima wire_constants)
  with d show "\<exists>w'. decode_instruction_definition_record H allow_state_work payload k w = (Inr d, w')"
    using allow_all.definition_payload_accepts [OF assms, of d k w]
    by (simp add: decode_instruction_definition_record_def bindR_def nested_accepts usize_limit_def)
qed

theorem definition_record_exact_witness:
  "roomy (unbounded_host :: unit host) \<and>
   (\<exists>w'. decode_instruction_definition_record unbounded_host allow_state_work
     (wire_nested 3 (wire_instruction_definition sample_definition))
     \<lparr>sc_offset = 64, sc_record_ordinal = Some 3\<rparr> () = (Inr sample_definition, w'))"
  using definition_record_exact [OF roomy_unbounded_host, of _ _ "()" sample_definition]
    sample_definition_wf roomy_unbounded_host
  by (simp add: sample_definition_def)

text \<open>
  C14. Against a well-formed definition, the Flight decoder of nested instructions accepts exactly
  the encodings of instructions of module 1 that name that definition and carry one observation
  per register it reads and writes, in its order, and it labels each observed value with the
  register's slot, width and name.
\<close>

theorem instruction_record_exact:
  assumes "roomy H" and "instruction_definition_wf df"
  shows "(\<exists>w'. decode_instruction_record H allow_state_work payload df k w = (Inr r, w')) \<longleftrightarrow>
     payload = wire_nested 4 (wire_instruction (di_local_sequence r) (di_instruction r)) \<and>
     instruction_matches df (di_instruction r) \<and> in_module_id (di_instruction r) = 1"
proof (intro iffI)
  assume "\<exists>w'. decode_instruction_record H allow_state_work payload df k w = (Inr r, w')"
  then show "payload = wire_nested 4 (wire_instruction (di_local_sequence r) (di_instruction r)) \<and>
     instruction_matches df (di_instruction r) \<and> in_module_id (di_instruction r) = 1"
    by (auto simp: decode_instruction_record_def bindR_Inr dest!: nested_ok instruction_payload_ok)
next
  assume r: "payload = wire_nested 4 (wire_instruction (di_local_sequence r) (di_instruction r)) \<and>
     instruction_matches df (di_instruction r) \<and> in_module_id (di_instruction r) = 1"
  then have len: "length (wire_instruction (di_local_sequence r) (di_instruction r)) \<le> 570"
    using length_wire_instruction [OF assms(2), of "di_instruction r" "di_local_sequence r"]
    by (simp add: payload_maxima wire_constants)
  have eq: "\<lparr>di_local_sequence = di_local_sequence r, di_instruction = di_instruction r\<rparr> = r"
    by simp
  from r len show "\<exists>w'. decode_instruction_record H allow_state_work payload df k w = (Inr r, w')"
    using allow_all.instruction_payload_accepts [OF assms, of "di_instruction r" "Some 1" "di_local_sequence r" k w]
    by (simp add: eq decode_instruction_record_def bindR_def nested_accepts usize_limit_def)
qed

theorem instruction_record_exact_witness:
  "roomy (unbounded_host :: unit host) \<and> instruction_definition_wf sample_definition \<and>
   (\<exists>w'. decode_instruction_record unbounded_host allow_state_work
     (wire_nested 4 (wire_instruction 5 sample_instruction)) sample_definition
     \<lparr>sc_offset = 64, sc_record_ordinal = Some 3\<rparr> () =
     (Inr \<lparr>di_local_sequence = 5, di_instruction = sample_instruction\<rparr>, w'))"
  using instruction_record_exact [OF roomy_unbounded_host sample_definition_wf, of _ _ "()"
      "\<lparr>di_local_sequence = 5, di_instruction = sample_instruction\<rparr>"]
    sample_definition_wf roomy_unbounded_host sample_instruction_matches
  by (simp add: sample_instruction_def)

text \<open>
  C15. The Flight decoder of nested memory accesses accepts exactly the encodings of accesses of
  module 1 with a known direction and at most 64 captured bytes on each side, and returns the
  access that was encoded; a captured side of zero bytes stays distinct from an uncaptured one.
\<close>

theorem memory_record_exact:
  assumes "roomy H"
  shows "(\<exists>w'. decode_memory_record H allow_state_work payload k w = (Inr m, w')) \<longleftrightarrow>
     payload = wire_nested 5 (wire_memory m) \<and> memory_wf m \<and> ma_module_id m = 1"
proof (intro iffI)
  assume "\<exists>w'. decode_memory_record H allow_state_work payload k w = (Inr m, w')"
  then show "payload = wire_nested 5 (wire_memory m) \<and> memory_wf m \<and> ma_module_id m = 1"
    by (auto simp: decode_memory_record_def bindR_Inr dest!: nested_ok memory_payload_ok)
next
  assume m: "payload = wire_nested 5 (wire_memory m) \<and> memory_wf m \<and> ma_module_id m = 1"
  then have len: "length (wire_memory m) \<le> 168"
    using length_wire_memory [of m] by (simp add: payload_maxima wire_constants)
  with m show "\<exists>w'. decode_memory_record H allow_state_work payload k w = (Inr m, w')"
    using allow_all.memory_payload_accepts [OF assms, of m "Some 1" k w]
    by (simp add: decode_memory_record_def bindR_def nested_accepts usize_limit_def)
qed

theorem memory_record_exact_witness:
  "roomy (unbounded_host :: unit host) \<and>
   (\<exists>w'. decode_memory_record unbounded_host allow_state_work (wire_nested 5 (wire_memory sample_memory))
     \<lparr>sc_offset = 64, sc_record_ordinal = Some 3\<rparr> () = (Inr sample_memory, w'))"
  using memory_record_exact [OF roomy_unbounded_host, of _ _ "()" sample_memory]
    sample_memory_wf roomy_unbounded_host
  by (simp add: sample_memory_def)

end
