(* ===== verification/Provider_Source.thy ===== *)
theory Provider_Source
  imports Provider_Control
begin

text \<open>
  Random-access byte sources (\<open>qtrace-provider/src/source.rs\<close>). \<open>ReadAtSource\<close> is a trait: its
  two methods are a record of operations on the world, because a file may change between two
  calls. \<open>ByteSource\<close> is the in-memory implementation every decoded QTRB stream is read from.
\<close>

section \<open>The trait\<close>

record 'w read_at_source =
  src_len :: "'w \<Rightarrow> u64"
  src_read_exact_at :: "u64 \<Rightarrow> usize \<Rightarrow> ('w, provider_error, u8 list) rm"

section \<open>In-memory sources\<close>

record byte_source =
  bs_bytes :: "u8 list"

definition byte_source_len :: "byte_source \<Rightarrow> u64" where
  "byte_source_len s = word_of_nat (length (bs_bytes s))"

definition short_read :: "u64 \<Rightarrow> u64 \<Rightarrow> u64 \<Rightarrow> provider_error" where
  "short_read offset requested source_len =
     provider_error_new ''source.short_read'' ''read''
       (Some \<lparr>sc_offset = offset, sc_record_ordinal = None\<rparr>) False
       (''requested '' @ decimal (unat requested) @ '' bytes at offset '' @ decimal (unat offset) @
        '', but only '' @ decimal (unat (saturating_sub source_len offset)) @ '' remain'')"

definition byte_source_read_exact_at ::
  "byte_source \<Rightarrow> u64 \<Rightarrow> usize \<Rightarrow> provider_error + u8 list" where
  "byte_source_read_exact_at s offset count =
     (let requested = word_of_nat count in
      case checked_add offset requested of
        None \<Rightarrow> Inl (short_read offset requested (byte_source_len s))
      | Some end \<Rightarrow>
          if end > byte_source_len s then Inl (short_read offset requested (byte_source_len s))
          else Inr (take (unat end - unat offset) (drop (unat offset) (bs_bytes s))))"

definition byte_source_ops :: "byte_source \<Rightarrow> 'w read_at_source" where
  "byte_source_ops s =
     \<lparr>src_len = (\<lambda>_. byte_source_len s),
      src_read_exact_at = (\<lambda>offset count w. (byte_source_read_exact_at s offset count, w))\<rparr>"

section \<open>Sources that do not change\<close>

text \<open>
  What a decoder may rely on while it reads one artifact: the length and the bytes are those
  of a fixed sequence, a read inside it returns exactly its bytes and a read past its end is
  refused. A Rust slice is shorter than \<open>2 ^ 63\<close> bytes, hence the length premise of each law.
\<close>

locale stable_source =
  fixes S :: "'w read_at_source" and data :: "u8 list"
  assumes len_law: "length data < 2 ^ 63 \<Longrightarrow> src_len S w = word_of_nat (length data)"
    and read_law: "length data < 2 ^ 63 \<Longrightarrow> unat offset + count \<le> length data \<Longrightarrow>
        src_read_exact_at S offset count w = (Inr (take count (drop (unat offset) data)), w)"
    and short_law: "length data < 2 ^ 63 \<Longrightarrow> length data < unat offset + count \<Longrightarrow> count < 2 ^ 63 \<Longrightarrow>
        \<exists>e. src_read_exact_at S offset count w = (Inl e, w) \<and> pe_code e = ''source.short_read''"
begin

lemma unat_len: "length data < 2 ^ 63 \<Longrightarrow> unat (src_len S w) = length data"
  by (simp add: len_law unat_of_nat)

lemma read_inside:
  assumes "length data < 2 ^ 63" and "count < 2 ^ 63"
    and "src_read_exact_at S offset count w = (Inr bs, w')"
  shows "w' = w \<and> unat offset + count \<le> length data \<and> bs = take count (drop (unat offset) data)"
proof (cases "unat offset + count \<le> length data")
  case True
  then show ?thesis using assms read_law by simp
next
  case False
  then show ?thesis using assms short_law [of offset count w] by auto
qed

end

lemma byte_source_unat_len:
  "length (bs_bytes s) < 2 ^ 63 \<Longrightarrow> unat (byte_source_len s) = length (bs_bytes s)"
  by (simp add: byte_source_len_def unat_of_nat)

interpretation byte_src: stable_source "byte_source_ops s" "bs_bytes s" for s
proof unfold_locales
  fix w
  assume "length (bs_bytes s) < 2 ^ 63"
  then show "src_len (byte_source_ops s) w = word_of_nat (length (bs_bytes s))"
    by (simp add: byte_source_ops_def byte_source_len_def)
next
  fix offset :: u64 and count :: nat and w
  assume len: "length (bs_bytes s) < 2 ^ 63" and fits: "unat offset + count \<le> length (bs_bytes s)"
  have count: "unat (word_of_nat count :: u64) = count"
    using len fits by (simp add: unat_of_nat)
  have "checked_add offset (word_of_nat count) = Some (offset + word_of_nat count)"
    using len fits count by (simp add: checked_add_def)
  moreover have "unat (offset + word_of_nat count) = unat offset + count"
    using len fits count by (simp add: unat_word_ariths)
  ultimately show "src_read_exact_at (byte_source_ops s) offset count w =
      (Inr (take count (drop (unat offset) (bs_bytes s))), w)"
    using len fits
    by (simp add: byte_source_ops_def byte_source_read_exact_at_def word_less_nat_alt
        byte_source_unat_len Let_def)
next
  fix offset :: u64 and count :: nat and w
  assume len: "length (bs_bytes s) < 2 ^ 63" and short: "length (bs_bytes s) < unat offset + count"
    and count: "count < 2 ^ 63"
  have "unat (word_of_nat count :: u64) = count"
    using count by (simp add: unat_of_nat)
  with len short show "\<exists>e. src_read_exact_at (byte_source_ops s) offset count w = (Inl e, w) \<and>
      pe_code e = ''source.short_read''"
    by (auto simp: byte_source_ops_def byte_source_read_exact_at_def word_less_nat_alt
        byte_source_unat_len checked_add_Some short_read_def Let_def split: option.splits)
qed

end
