(* ===== verification/Qtrb_Stream.thy ===== *)
theory Qtrb_Stream
  imports Qtrb_Events Provider_Source
begin

text \<open>
  The QTRB stream provider (\<open>qtrace-provider/src/qtrb/mod.rs\<close>): opening a stream, the event cursor with
  its dictionaries, fragment reassembly and lifecycle checks, and the summary.

  A method of \<open>QtrbEventCursor\<close> is a computation over the cursor and the world, in which a failing
  run keeps every field it had already changed. Payloads are parsed by a local payload cursor;
  such a parse is the argument of \<open>with_payload\<close>.
\<close>

section \<open>State\<close>

definition TIMELINE_ID :: timeline_id where
  "TIMELINE_ID = 0"

datatype open_mode = Sealed | RecoverablePartial

record stream_header =
  hdr_minor :: u8
  hdr_profile :: u8
  hdr_required_features :: u32

record module_wire =
  mw_base :: u64
  mw_name :: utf8

record register_wire =
  rw_slot :: u8
  rw_width :: u8
  rw_name :: utf8

record memory_operand_wire =
  mow_base :: u8
  mow_index :: u8
  mow_extend :: u8
  mow_mode :: u8
  mow_shift :: u8
  mow_kind :: u8
  mow_writeback :: u8
  mow_size :: u32
  mow_displacement :: i64

record instruction_definition_wire =
  idw_opcode :: u32
  idw_read_mask :: u64
  idw_write_mask :: u64
  idw_displacement :: i64
  idw_flags :: u32
  idw_pc_kind :: u8
  idw_condition :: u8
  idw_slow_memory_path :: u8
  idw_mnemonic :: utf8
  idw_operands :: utf8
  idw_disassembly :: utf8
  idw_reads :: "register_wire list"
  idw_writes :: "register_wire list"
  idw_memory_operands :: "memory_operand_wire list"

datatype fragment_kind = FragCall | FragRule | FragError

record pending_fragment =
  pf_kind :: fragment_kind
  pf_event_id :: u64
  pf_total_detail_bytes :: u32
  pf_chunk_count :: u16
  pf_next_index :: u16
  pf_category :: "u8 list option"
  pf_name :: "u8 list"
  pf_detail :: "u8 list"
  pf_first_offset :: u64
  pf_first_ordinal :: u64
  pf_fragment_offsets :: "u64 list"

record physical_record =
  pr_record_type :: "record_type option"
  pr_raw_type :: u16
  pr_flags :: u16
  pr_payload :: "u8 list"
  pr_offset :: u64
  pr_ordinal :: u64

record terminal_draft =
  td_kind :: termination_kind
  td_reason :: "utf8 option"
  td_return_value :: "u64 option"
  td_elapsed_ms :: u64

record 'w qtrb_provider =
  qp_source :: "'w read_at_source"
  qp_identity :: source_identity
  qp_capabilities :: provider_capabilities
  qp_timelines :: "timeline_descriptor list"
  qp_mode :: open_mode
  qp_header :: stream_header

record 'w qtrb_cursor =
  qc_source :: "'w read_at_source"
  qc_identity :: source_identity
  qc_mode :: open_mode
  qc_header :: stream_header
  qc_offset :: u64
  qc_next_ordinal :: u64
  qc_modules :: "(u32, module_wire) hash_map"
  qc_definitions :: "(u32, instruction_definition_wire) hash_map"
  qc_pending :: "pending_fragment option"
  qc_began :: bool
  qc_terminal_seen :: bool
  qc_drained :: bool
  qc_poisoned :: bool
  qc_tid :: "u32 option"
  qc_next_sequence :: u64
  qc_instruction_count :: u64
  qc_effective_buffer_bytes :: u64
  qc_termination :: "termination_event option"
  qc_completeness :: "completeness_range rust_vec"
  qc_timelines :: "timeline_descriptor list"
  qc_counters :: provider_counters

type_synonym ('w, 'a) cursor_rm = "('w qtrb_cursor \<times> 'w, provider_error, 'a) rm"

text \<open>Reading and updating \<open>self\<close>, and the source it holds.\<close>

definition selfR :: "('w, 'w qtrb_cursor) cursor_rm" where
  "selfR = (\<lambda>(self, w). (Inr self, (self, w)))"

definition modifyR :: "('w qtrb_cursor \<Rightarrow> 'w qtrb_cursor) \<Rightarrow> ('w, unit) cursor_rm" where
  "modifyR f = (\<lambda>(self, w). (Inr (), (f self, w)))"

definition source_lenR :: "('w, u64) cursor_rm" where
  "source_lenR = (\<lambda>(self, w). (Inr (src_len (qc_source self) w), (self, w)))"

definition read_sourceR :: "u64 \<Rightarrow> usize \<Rightarrow> ('w, u8 list) cursor_rm" where
  "read_sourceR offset count =
     (\<lambda>(self, w). case src_read_exact_at (qc_source self) offset count w of (r, w') \<Rightarrow> (r, (self, w')))"

text \<open>\<open>option.map(f).transpose()?\<close>\<close>

definition transposeR :: "('a \<Rightarrow> ('s, 'e, 'b) rm) \<Rightarrow> 'a option \<Rightarrow> ('s, 'e, 'b option) rm" where
  "transposeR f v = (case v of None \<Rightarrow> retR None | Some x \<Rightarrow> bindR (f x) (\<lambda>y. retR (Some y)))"

section \<open>Errors and small helpers\<close>

definition qtrb_allocation_error :: "string \<Rightarrow> provider_error" where
  "qtrb_allocation_error detail =
     provider_error_new ''control.resource_exhausted'' ''qtrb.allocation'' None False detail"

definition record_node_upper_bound :: "record_type option \<Rightarrow> u16 \<Rightarrow> bool \<Rightarrow> u64" where
  "record_node_upper_bound t flags may_start_fragment =
     (if (t = Some RT_ModuleDefinition \<or> t = Some RT_InstructionDefinition) \<and> flags = 0 then 1
      else if (t = Some RT_Call \<or> t = Some RT_Rule \<or> t = Some RT_Error) \<and> flags = CHUNK_FLAG \<and>
              may_start_fragment then 1
      else 0)"

definition coordinate :: "physical_record \<Rightarrow> source_coordinate" where
  "coordinate r = \<lparr>sc_offset = pr_offset r, sc_record_ordinal = Some (pr_ordinal r)\<rparr>"

definition with_coordinate ::
  "provider_error \<Rightarrow> u64 \<Rightarrow> u64 option \<Rightarrow> string \<Rightarrow> provider_error" where
  "with_coordinate e offset record_ordinal stage =
     provider_error_new (pe_code e) stage
       (Some \<lparr>sc_offset = offset, sc_record_ordinal = record_ordinal\<rparr>) (pe_retryable e) (error_detail e)"

definition header_error :: "string \<Rightarrow> provider_error" where
  "header_error detail = provider_error_new ''source.invalid_header'' ''qtrb.header''
     (Some \<lparr>sc_offset = 0, sc_record_ordinal = None\<rparr>) False detail"

definition version_error :: "string \<Rightarrow> provider_error" where
  "version_error detail = provider_error_new ''source.version_unsupported'' ''qtrb.header''
     (Some \<lparr>sc_offset = 0, sc_record_ordinal = None\<rparr>) False detail"

definition record_error :: "physical_record \<Rightarrow> string \<Rightarrow> string \<Rightarrow> string \<Rightarrow> provider_error" where
  "record_error r code stage detail =
     provider_error_new code stage (Some (coordinate r)) False detail"

definition invalid_terminal :: "physical_record \<Rightarrow> string \<Rightarrow> provider_error" where
  "invalid_terminal r detail = record_error r ''source.invalid_terminal'' ''qtrb.lifecycle'' detail"

definition error_at_current :: "'w qtrb_cursor \<Rightarrow> string \<Rightarrow> string \<Rightarrow> string \<Rightarrow> provider_error" where
  "error_at_current self code stage detail =
     provider_error_new code stage
       (Some \<lparr>sc_offset = qc_offset self, sc_record_ordinal = Some (qc_next_ordinal self)\<rparr>) False detail"

definition record_overflow_error :: "u64 \<Rightarrow> u64 \<Rightarrow> provider_error" where
  "record_overflow_error offset ordinal =
     provider_error_new ''source.coordinate_overflow'' ''qtrb.framing''
       (Some \<lparr>sc_offset = offset, sc_record_ordinal = Some ordinal\<rparr>) False
       ''QTRB source coordinate overflow''"

section \<open>Opening a stream\<close>

definition stream_header_parse :: "u8 list \<Rightarrow> ('w, provider_error, stream_header) rm" where
  "stream_header_parse bytes =
     with_payload bytes ''stream header'' \<lparr>sc_offset = 0, sc_record_ordinal = None\<rparr>
       (bindR (pc_take 4) (\<lambda>magic.
        bindR pc_u8 (\<lambda>major.
        bindR pc_u8 (\<lambda>minor.
        bindR pc_u8 (\<lambda>endian.
        bindR pc_u8 (\<lambda>pointer_width.
        bindR pc_u8 (\<lambda>profile.
        bindR pc_u8 (\<lambda>reserved.
        bindR pc_u16_le (\<lambda>header_bytes.
        bindR pc_u32_le (\<lambda>required_features.
        bindR pc_finish (\<lambda>_.
        if magic \<noteq> MAGIC then throwR (header_error ''invalid QTRB magic'')
        else if major \<noteq> MAJOR_VERSION then throwR (version_error ''unsupported QTRB major version'')
        else if endian \<noteq> LITTLE_ENDIAN_MARKER
        then throwR (header_error ''QTRB stream is not little-endian'')
        else if \<not> (pointer_width = 4 \<or> pointer_width = 8)
        then throwR (header_error ''invalid QTRB pointer width'')
        else if profile > 2 then throwR (header_error ''invalid QTRB trace profile'')
        else if reserved \<noteq> 0 then throwR (header_error ''nonzero QTRB header reserved byte'')
        else if unat header_bytes \<noteq> STREAM_HEADER_BYTES
        then throwR (header_error ''invalid QTRB stream header size'')
        else if \<not> (minor = 0 \<and> required_features = 0 \<or> minor = 1 \<and> required_features = 0
                    \<or> minor = 2 \<and> required_features = 1)
        then throwR (version_error ''unsupported QTRB minor/features matrix'')
        else retR \<lparr>hdr_minor = minor, hdr_profile = profile,
                   hdr_required_features = required_features\<rparr>))))))))))) "

definition qtrb_open ::
  "'w host \<Rightarrow> 'w work_guard \<Rightarrow> 'w read_at_source \<Rightarrow> source_identity \<Rightarrow> open_mode \<Rightarrow>
   ('w, provider_error, 'w qtrb_provider) rm" where
  "qtrb_open H G source identity mode =
     bindR (\<lambda>w. (Inr (src_len source w), w)) (\<lambda>source_bytes.
     bindR (consume G (work_default\<lparr>wd_input_bytes := word_of_nat STREAM_HEADER_BYTES,
              wd_decompressed_bytes := word_of_nat STREAM_HEADER_BYTES\<rparr>)) (\<lambda>_.
     bindR (mapErrR (\<lambda>e. with_coordinate e 0 None ''qtrb.header'')
              (src_read_exact_at source 0 STREAM_HEADER_BYTES)) (\<lambda>bytes.
     bindR (stream_header_parse bytes) (\<lambda>header.
     bindR (consume G (work_default\<lparr>wd_nodes := 1\<rparr>)) (\<lambda>_.
     bindR (try_reserve_vec_exact H G T_TimelineDescriptor 1 ''QTRB timeline allocation failed'') (\<lambda>_.
     bindR (try_copy_string H G (str_bytes ''QTRB'') ''QTRB timeline label allocation failed'') (\<lambda>label.
     retR \<lparr>qp_source = source,
           qp_identity = identity\<lparr>sid_format_major := MAJOR_VERSION,
             sid_format_minor := hdr_minor header, sid_source_bytes := source_bytes\<rparr>,
           qp_capabilities = qtrb_register_observations,
           qp_timelines = [\<lparr>tld_id = TIMELINE_ID, tld_tid = None, tld_label = Some label\<rparr>],
           qp_mode = mode, qp_header = header\<rparr>)))))))"

definition counters_default :: provider_counters where
  "counters_default = \<lparr>pcn_records_seen = 0, pcn_events_emitted = 0, pcn_opaque_records = 0,
     pcn_damaged_records = 0, pcn_input_bytes = 0, pcn_decompressed_bytes = 0\<rparr>"

definition into_cursor :: "'w qtrb_provider \<Rightarrow> 'w qtrb_cursor" where
  "into_cursor p =
     \<lparr>qc_source = qp_source p, qc_identity = qp_identity p, qc_mode = qp_mode p,
      qc_header = qp_header p, qc_offset = word_of_nat STREAM_HEADER_BYTES, qc_next_ordinal = 0,
      qc_modules = hash_map_new, qc_definitions = hash_map_new, qc_pending = None,
      qc_began = False, qc_terminal_seen = False, qc_drained = False, qc_poisoned = False,
      qc_tid = None, qc_next_sequence = 1, qc_instruction_count = 0,
      qc_effective_buffer_bytes = 0, qc_termination = None,
      qc_completeness = \<lparr>rv_items = [], rv_capacity = 0\<rparr>, qc_timelines = qp_timelines p,
      qc_counters = counters_default\<lparr>pcn_input_bytes := word_of_nat STREAM_HEADER_BYTES,
        pcn_decompressed_bytes := word_of_nat STREAM_HEADER_BYTES\<rparr>\<rparr>"

section \<open>Reading one physical record\<close>

definition record_header :: "u8 list \<Rightarrow> source_coordinate \<Rightarrow> ('w, provider_error, u16 \<times> u16 \<times> u32) rm" where
  "record_header header co =
     with_payload header ''record header'' co
       (bindR pc_u16_le (\<lambda>raw_type.
        bindR pc_u16_le (\<lambda>flags.
        bindR pc_u32_le (\<lambda>payload_bytes.
        bindR pc_finish (\<lambda>_.
        retR (raw_type, flags, payload_bytes))))))"

definition record_payload_limit ::
  "stream_header \<Rightarrow> u16 \<Rightarrow> u16 \<Rightarrow> source_coordinate \<Rightarrow> provider_error + u32" where
  "record_payload_limit header raw_type flags co = (case record_type_from_raw raw_type of
       Some record_type \<Rightarrow>
         (case payload_limit record_type flags of
            Some limit \<Rightarrow> Inr limit
          | None \<Rightarrow> Inl (provider_error_new ''source.unsupported_record'' ''qtrb.framing'' (Some co) False
              (''unsupported flags '' @ hex_alternate (unat flags) @ '' for record type '' @
               decimal (unat raw_type))))
     | None \<Rightarrow>
         if raw_type \<ge> OPTIONAL_RECORD_TYPE_MIN \<and> hdr_minor header \<ge> 1 \<and> flags = 0
         then Inr MAX_OPAQUE_PAYLOAD_BYTES
         else Inl (provider_error_new ''source.unsupported_record'' ''qtrb.framing'' (Some co) False
                (''unsupported required record type '' @ decimal (unat raw_type) @ '' or flags '' @
                 hex_alternate (unat flags))))"

definition count_record :: "u32 \<Rightarrow> provider_counters \<Rightarrow> provider_counters" where
  "count_record payload_bytes c =
     (let n = word_of_nat RECORD_HEADER_BYTES + ucast payload_bytes in
      c\<lparr>pcn_records_seen := saturating_add (pcn_records_seen c) 1,
        pcn_input_bytes := saturating_add (pcn_input_bytes c) n,
        pcn_decompressed_bytes := saturating_add (pcn_decompressed_bytes c) n\<rparr>)"

definition read_record :: "'w host \<Rightarrow> 'w work_guard \<Rightarrow> ('w, physical_record) cursor_rm" where
  "read_record H G =
     bindR selfR (\<lambda>self0.
     let record_offset = qc_offset self0; ordinal = qc_next_ordinal self0;
         co = \<lparr>sc_offset = record_offset, sc_record_ordinal = Some ordinal\<rparr> in
     bindR (liftW (consume G (work_default\<lparr>wd_input_bytes := word_of_nat RECORD_HEADER_BYTES,
              wd_decompressed_bytes := word_of_nat RECORD_HEADER_BYTES\<rparr>))) (\<lambda>_.
     bindR (mapErrR (\<lambda>e. with_coordinate e record_offset (Some ordinal) ''qtrb.record'')
              (read_sourceR record_offset RECORD_HEADER_BYTES)) (\<lambda>header.
     bindR (optionR (record_overflow_error record_offset ordinal)
              (checked_add record_offset (word_of_nat RECORD_HEADER_BYTES))) (\<lambda>payload_offset.
     bindR (modifyR (\<lambda>self. self\<lparr>qc_offset := payload_offset\<rparr>)) (\<lambda>_.
     bindR (liftW (record_header header co)) (\<lambda>(raw_type, flags, payload_bytes).
     bindR (resultR (record_payload_limit (qc_header self0) raw_type flags co)) (\<lambda>limit.
     if payload_bytes > limit
     then throwR (provider_error_new ''source.record_too_large'' ''qtrb.framing'' (Some co) False
            (''record type '' @ decimal (unat raw_type) @ '' payload '' @ decimal (unat payload_bytes) @
             '' exceeds '' @ decimal (unat limit) @ '' bytes''))
     else
     bindR (liftW (consume G (work_default\<lparr>wd_input_bytes := ucast payload_bytes,
              wd_decompressed_bytes := ucast payload_bytes,
              wd_nodes := record_node_upper_bound (record_type_from_raw raw_type) flags
                (qc_pending self0 = None)\<rparr>))) (\<lambda>_.
     bindR (liftW (try_reserve_vec_exact H G T_u8 (unat payload_bytes)
              ''QTRB payload buffer allocation failed'')) (\<lambda>_.
     bindR (mapErrR (\<lambda>e. with_coordinate e record_offset (Some ordinal) ''qtrb.payload'')
              (read_sourceR payload_offset (unat payload_bytes))) (\<lambda>payload.
     bindR (optionR (record_overflow_error record_offset ordinal)
              (checked_add payload_offset (ucast payload_bytes))) (\<lambda>next_offset.
     bindR (modifyR (\<lambda>self. self\<lparr>qc_offset := next_offset\<rparr>)) (\<lambda>_.
     bindR (optionR (record_overflow_error record_offset ordinal) (checked_add ordinal 1)) (\<lambda>next_ordinal.
     bindR (modifyR (\<lambda>self. self\<lparr>qc_next_ordinal := next_ordinal,
              qc_counters := count_record payload_bytes (qc_counters self)\<rparr>)) (\<lambda>_.
     retR \<lparr>pr_record_type = record_type_from_raw raw_type, pr_raw_type = raw_type,
           pr_flags = flags, pr_payload = payload, pr_offset = record_offset,
           pr_ordinal = ordinal\<rparr>))))))))))))))"

section \<open>Record decoders\<close>

definition event :: "'w qtrb_cursor \<Rightarrow> physical_record \<Rightarrow> u64 option \<Rightarrow> event_payload \<Rightarrow> event_record" where
  "event self r sequence payload =
     event_record_new
       (event_key_new (sid_artifact (qc_identity self)) TIMELINE_ID (pr_ordinal r) (pr_offset r)
          sequence (qc_tid self))
       Captured payload"

definition decode_profile :: "u8 \<Rightarrow> trace_profile" where
  "decode_profile v = (if v = 0 then Fast else if v = 1 then Balanced else Full)"

definition begin_payload ::
  "'w host \<Rightarrow> 'w work_guard \<Rightarrow> physical_record \<Rightarrow>
   ('w, provider_error, u64 \<times> u64 \<times> u64 \<times> u32 \<times> u32 \<times> u8 \<times> u8 \<times> u64 \<times> u64 \<times> utf8 \<times> utf8) rm" where
  "begin_payload H G r =
     with_payload (pr_payload r) ''TRACE_BEGIN'' (coordinate r)
       (bindR pc_u64_le (\<lambda>module_base.
        bindR pc_u64_le (\<lambda>target_offset.
        bindR pc_u64_le (\<lambda>target_address.
        bindR pc_u32_le (\<lambda>pid.
        bindR pc_u32_le (\<lambda>tid.
        bindR pc_u8 (\<lambda>profile.
        bindR pc_u8 (\<lambda>compression.
        bindR pc_u64_le (\<lambda>effective_buffer_bytes.
        bindR pc_u64_le (\<lambda>run_id.
        bindR (bounded_utf8_guarded H G MAX_CONTEXT_STRING_BYTES ''scene'') (\<lambda>scene.
        bindR (bounded_utf8_guarded H G MAX_CONTEXT_STRING_BYTES ''target'') (\<lambda>target.
        bindR pc_finish (\<lambda>_.
        retR (module_base, target_offset, target_address, pid, tid, profile, compression,
              effective_buffer_bytes, run_id, scene, target))))))))))))))"

definition decode_begin :: "'w host \<Rightarrow> 'w work_guard \<Rightarrow> physical_record \<Rightarrow> ('w, event_record) cursor_rm" where
  "decode_begin H G r =
     bindR selfR (\<lambda>self.
     if qc_began self
     then throwR (record_error r ''source.invalid_order'' ''qtrb.lifecycle''
            ''TRACE_BEGIN appears more than once'')
     else
     bindR (liftW (begin_payload H G r))
       (\<lambda>(module_base, target_offset, target_address, pid, tid, profile, compression,
          effective_buffer_bytes, run_id, scene, target).
     if profile \<noteq> hdr_profile (qc_header self) \<or> \<not> (compression = 0 \<or> compression = 1)
     then throwR (record_error r ''source.invalid_payload'' ''qtrb.lifecycle''
            ''TRACE_BEGIN profile or compression does not match the stream'')
     else
     bindR (modifyR (\<lambda>self. self\<lparr>qc_began := True, qc_tid := Some tid,
              qc_effective_buffer_bytes := effective_buffer_bytes\<rparr>)) (\<lambda>_.
     bindR selfR (\<lambda>self.
     retR (event self r None (P_Begin
       \<lparr>bm_module_base = module_base, bm_target_offset = target_offset,
        bm_target_address = target_address, bm_pid = pid, bm_tid = Some tid,
        bm_profile = decode_profile profile, bm_compression_enabled = (compression = 1),
        bm_effective_buffer_bytes = effective_buffer_bytes, bm_run_id = run_id,
        bm_scene = scene, bm_target = target, bm_pointer_width = 0, bm_chunk_index = None,
        bm_chunk_generation = None\<rparr>))))))"

definition module_payload ::
  "'w host \<Rightarrow> 'w work_guard \<Rightarrow> physical_record \<Rightarrow> ('w, provider_error, u32 \<times> u64 \<times> utf8) rm" where
  "module_payload H G r =
     with_payload (pr_payload r) ''MODULE_DEF'' (coordinate r)
       (bindR pc_u32_le (\<lambda>module_id.
        bindR pc_u64_le (\<lambda>base.
        bindR (bounded_utf8_guarded H G MAX_MODULE_NAME_BYTES ''module name'') (\<lambda>name.
        bindR pc_finish (\<lambda>_.
        retR (module_id, base, name))))))"

definition decode_module :: "'w host \<Rightarrow> 'w work_guard \<Rightarrow> physical_record \<Rightarrow> ('w, event_record) cursor_rm" where
  "decode_module H G r =
     bindR (liftW (module_payload H G r)) (\<lambda>(module_id, base, name).
     bindR (liftW (try_copy_string H G name ''QTRB module dictionary string allocation failed'')) (\<lambda>copy.
     bindR selfR (\<lambda>self.
     bindR (case hash_map_get (qc_modules self) module_id of
         Some existing \<Rightarrow>
           if existing \<noteq> \<lparr>mw_base = base, mw_name = copy\<rparr>
           then throwR (record_error r ''source.definition_conflict'' ''qtrb.dictionary''
                  ''conflicting module definition'')
           else retR ()
       | None \<Rightarrow>
           if hash_map_len (qc_modules self) \<ge> MAX_DICTIONARY_ENTRIES
           then throwR (record_error r ''source.dictionary_limit'' ''qtrb.dictionary''
                  ''module dictionary limit exceeded'')
           else bindR (liftW (try_reserve_hash_map H G T_ModuleEntry (qc_modules self) 1
                         ''QTRB module dictionary allocation failed'')) (\<lambda>modules.
                modifyR (\<lambda>self. self\<lparr>qc_modules :=
                  hash_map_insert modules module_id \<lparr>mw_base = base, mw_name = copy\<rparr>\<rparr>))) (\<lambda>_.
     bindR selfR (\<lambda>self.
     retR (event self r None (P_ModuleDefinition
       \<lparr>md_module_id = module_id, md_base = base, md_name = name\<rparr>)))))))"

fun decode_registers_loop ::
  "'w host \<Rightarrow> 'w work_guard \<Rightarrow> u64 \<Rightarrow> string \<Rightarrow> source_coordinate \<Rightarrow> usize list \<Rightarrow>
   ('w, register_wire list) payload_rm" where
  "decode_registers_loop H G bits field co [] = retR []"
| "decode_registers_loop H G bits field co (slot # slots) =
     (if bits AND push_bit slot 1 = 0 then decode_registers_loop H G bits field co slots
      else bindR pc_u8 (\<lambda>width.
           bindR (bounded_utf8_guarded H G MAX_REGISTER_NAME_BYTES field) (\<lambda>name.
           if width = 0 \<or> width > 16 \<or> name = []
           then throwR (provider_error_new ''source.invalid_payload'' ''qtrb.instruction_definition''
                  (Some co) False (''invalid '' @ field @ '' definition''))
           else bindR (decode_registers_loop H G bits field co slots) (\<lambda>registers.
                retR (\<lparr>rw_slot = word_of_nat slot, rw_width = width, rw_name = name\<rparr> # registers)))))"

definition decode_registers ::
  "'w host \<Rightarrow> 'w work_guard \<Rightarrow> u64 \<Rightarrow> string \<Rightarrow> source_coordinate \<Rightarrow> ('w, register_wire list) payload_rm" where
  "decode_registers H G bits field co =
     bindR (liftW (try_reserve_vec_exact H G T_RegisterWire (count_ones bits)
              ''QTRB register definition allocation failed'')) (\<lambda>_.
     decode_registers_loop H G bits field co [0..<MAX_GPR_COUNT])"

definition memory_operand_wire_payload :: "physical_record \<Rightarrow> ('w, memory_operand_wire) payload_rm" where
  "memory_operand_wire_payload r =
     bindR pc_u8 (\<lambda>base.
     bindR pc_u8 (\<lambda>index.
     bindR pc_u8 (\<lambda>extend.
     bindR pc_u8 (\<lambda>mode.
     bindR pc_u8 (\<lambda>shift.
     bindR pc_u8 (\<lambda>kind.
     bindR pc_u8 (\<lambda>writeback.
     bindR pc_u32_le (\<lambda>bytes.
     bindR pc_i64_le (\<lambda>displacement.
     if (base \<ge> word_of_nat MAX_GPR_COUNT \<and> base \<noteq> - 1)
        \<or> (index \<ge> word_of_nat MAX_GPR_COUNT \<and> index \<noteq> - 1)
        \<or> extend > 4 \<or> mode > 2 \<or> \<not> (1 \<le> kind \<and> kind \<le> 3) \<or> writeback > 1
     then throwR (record_error r ''source.invalid_payload'' ''qtrb.instruction_definition''
            ''invalid instruction memory operand'')
     else retR \<lparr>mow_base = base, mow_index = index, mow_extend = extend, mow_mode = mode,
                mow_shift = shift, mow_kind = kind, mow_writeback = writeback, mow_size = bytes,
                mow_displacement = displacement\<rparr>)))))))))"

definition definition_payload ::
  "'w host \<Rightarrow> 'w work_guard \<Rightarrow> physical_record \<Rightarrow>
   ('w, provider_error, u32 \<times> instruction_definition_wire) rm" where
  "definition_payload H G r =
     with_payload (pr_payload r) ''INSTRUCTION_DEF'' (coordinate r) (
     bindR pc_u32_le (\<lambda>metadata_id.
     bindR pc_u32_le (\<lambda>opcode.
     bindR pc_u64_le (\<lambda>read_mask.
     bindR pc_u64_le (\<lambda>write_mask.
     bindR pc_i64_le (\<lambda>displacement.
     bindR pc_u32_le (\<lambda>flags.
     bindR pc_u8 (\<lambda>pc_kind.
     bindR pc_u8 (\<lambda>condition.
     bindR pc_u8 (\<lambda>memory_count.
     bindR pc_u8 (\<lambda>slow_memory_path.
     if flags AND NOT VALID_INSTRUCTION_FLAGS \<noteq> 0
        \<or> pc_kind > 2
        \<or> slow_memory_path > 1
        \<or> unat memory_count > MAX_MEMORY_OPERAND_COUNT
        \<or> drop_bit MAX_GPR_COUNT read_mask \<noteq> 0
        \<or> drop_bit MAX_GPR_COUNT write_mask \<noteq> 0
     then throwR (record_error r ''source.invalid_payload'' ''qtrb.instruction_definition''
            ''invalid instruction definition metadata'')
     else
     bindR (bounded_utf8_guarded H G MAX_MNEMONIC_BYTES ''mnemonic'') (\<lambda>mnemonic.
     bindR (bounded_utf8_guarded H G MAX_OPERANDS_BYTES ''operands'') (\<lambda>operands.
     bindR (bounded_utf8_guarded H G MAX_DISASSEMBLY_BYTES ''disassembly'') (\<lambda>disassembly.
     bindR (decode_registers H G read_mask ''read register'' (coordinate r)) (\<lambda>reads.
     bindR (decode_registers H G write_mask ''write register'' (coordinate r)) (\<lambda>writes.
     bindR (liftW (try_reserve_vec_exact H G T_MemoryOperandWire (unat memory_count)
              ''QTRB memory operand allocation failed'')) (\<lambda>_.
     bindR (forR (\<lambda>_. memory_operand_wire_payload r) [0..<unat memory_count]) (\<lambda>memory_operands.
     bindR pc_finish (\<lambda>_.
     retR (metadata_id,
       \<lparr>idw_opcode = opcode, idw_read_mask = read_mask, idw_write_mask = write_mask,
        idw_displacement = displacement, idw_flags = flags, idw_pc_kind = pc_kind,
        idw_condition = condition, idw_slow_memory_path = slow_memory_path,
        idw_mnemonic = mnemonic, idw_operands = operands, idw_disassembly = disassembly,
        idw_reads = reads, idw_writes = writes, idw_memory_operands = memory_operands\<rparr>))))))))))))))))))))"

definition typed_register ::
  "'w host \<Rightarrow> 'w work_guard \<Rightarrow> register_wire \<Rightarrow> ('w, provider_error, register_definition) rm" where
  "typed_register H G register =
     bindR (try_copy_string H G (rw_name register) ''QTRB typed register name allocation failed'') (\<lambda>name.
     retR \<lparr>rd_slot = rw_slot register, rd_captured_width = rw_width register, rd_name = name\<rparr>)"

definition decode_kind :: "u8 \<Rightarrow> memory_direction" where
  "decode_kind v = (if v = 1 then MemRead else if v = 2 then MemWrite else MemReadWrite)"

definition typed_memory_operand :: "memory_operand_wire \<Rightarrow> memory_operand" where
  "typed_memory_operand m =
     \<lparr>mo_base = if mow_base m \<noteq> - 1 then Some (mow_base m) else None,
      mo_index = if mow_index m \<noteq> - 1 then Some (mow_index m) else None,
      mo_extend = decode_extend (mow_extend m), mo_mode = decode_mode (mow_mode m),
      mo_shift = mow_shift m, mo_direction = decode_kind (mow_kind m),
      mo_writeback = (mow_writeback m = 1), mo_size = mow_size m,
      mo_displacement = mow_displacement m\<rparr>"

definition typed_definition ::
  "'w host \<Rightarrow> 'w work_guard \<Rightarrow> u32 \<Rightarrow> instruction_definition_wire \<Rightarrow>
   ('w, provider_error, instruction_definition) rm" where
  "typed_definition H G definition_id df =
     bindR (try_reserve_vec_exact H G T_RegisterDefinition (length (idw_reads df))
              ''QTRB typed read definition allocation failed'') (\<lambda>_.
     bindR (forR (typed_register H G) (idw_reads df)) (\<lambda>reads.
     bindR (try_reserve_vec_exact H G T_RegisterDefinition (length (idw_writes df))
              ''QTRB typed write definition allocation failed'') (\<lambda>_.
     bindR (forR (typed_register H G) (idw_writes df)) (\<lambda>writes.
     bindR (try_reserve_vec_exact H G T_MemoryOperand (length (idw_memory_operands df))
              ''QTRB typed memory operand allocation failed'') (\<lambda>_.
     bindR (try_copy_string H G (idw_mnemonic df) ''QTRB typed mnemonic allocation failed'') (\<lambda>mnemonic.
     bindR (try_copy_string H G (idw_operands df) ''QTRB typed operands allocation failed'') (\<lambda>operands.
     bindR (try_copy_string H G (idw_disassembly df) ''QTRB typed disassembly allocation failed'') (\<lambda>disassembly.
     retR \<lparr>id_definition_id = definition_id, id_opcode = idw_opcode df,
           id_read_mask = idw_read_mask df, id_write_mask = idw_write_mask df,
           id_pc_displacement = idw_displacement df, id_flags = idw_flags df,
           id_pc_kind = decode_pc_kind (idw_pc_kind df), id_condition = idw_condition df,
           id_slow_memory_path = (idw_slow_memory_path df = 1), id_mnemonic = mnemonic,
           id_operands = operands, id_disassembly = disassembly, id_reads = reads,
           id_writes = writes,
           id_memory_operands = map typed_memory_operand (idw_memory_operands df)\<rparr>))))))))"

definition clone_register_wire ::
  "'w host \<Rightarrow> 'w work_guard \<Rightarrow> register_wire \<Rightarrow> ('w, provider_error, register_wire) rm" where
  "clone_register_wire H G register =
     bindR (try_copy_string H G (rw_name register) ''QTRB dictionary register name allocation failed'') (\<lambda>name.
     retR \<lparr>rw_slot = rw_slot register, rw_width = rw_width register, rw_name = name\<rparr>)"

definition clone_definition_wire ::
  "'w host \<Rightarrow> 'w work_guard \<Rightarrow> instruction_definition_wire \<Rightarrow>
   ('w, provider_error, instruction_definition_wire) rm" where
  "clone_definition_wire H G df =
     bindR (try_reserve_vec_exact H G T_RegisterWire (length (idw_reads df))
              ''QTRB dictionary read definition allocation failed'') (\<lambda>_.
     bindR (forR (clone_register_wire H G) (idw_reads df)) (\<lambda>reads.
     bindR (try_reserve_vec_exact H G T_RegisterWire (length (idw_writes df))
              ''QTRB dictionary write definition allocation failed'') (\<lambda>_.
     bindR (forR (clone_register_wire H G) (idw_writes df)) (\<lambda>writes.
     bindR (try_reserve_vec_exact H G T_MemoryOperandWire (length (idw_memory_operands df))
              ''QTRB dictionary memory operand allocation failed'') (\<lambda>_.
     bindR (try_copy_string H G (idw_mnemonic df) ''QTRB dictionary mnemonic allocation failed'') (\<lambda>mnemonic.
     bindR (try_copy_string H G (idw_operands df) ''QTRB dictionary operands allocation failed'') (\<lambda>operands.
     bindR (try_copy_string H G (idw_disassembly df) ''QTRB dictionary disassembly allocation failed'') (\<lambda>disassembly.
     retR \<lparr>idw_opcode = idw_opcode df, idw_read_mask = idw_read_mask df,
           idw_write_mask = idw_write_mask df, idw_displacement = idw_displacement df,
           idw_flags = idw_flags df, idw_pc_kind = idw_pc_kind df,
           idw_condition = idw_condition df, idw_slow_memory_path = idw_slow_memory_path df,
           idw_mnemonic = mnemonic, idw_operands = operands, idw_disassembly = disassembly,
           idw_reads = reads, idw_writes = writes,
           idw_memory_operands = idw_memory_operands df\<rparr>))))))))"

definition decode_instruction_definition ::
  "'w host \<Rightarrow> 'w work_guard \<Rightarrow> physical_record \<Rightarrow> ('w, event_record) cursor_rm" where
  "decode_instruction_definition H G r =
     bindR (liftW (definition_payload H G r)) (\<lambda>(metadata_id, df).
     bindR selfR (\<lambda>self.
     bindR (case hash_map_get (qc_definitions self) metadata_id of
         Some existing \<Rightarrow>
           if existing \<noteq> df
           then throwR (record_error r ''source.definition_conflict'' ''qtrb.dictionary''
                  ''conflicting instruction definition'')
           else retR ()
       | None \<Rightarrow>
           if hash_map_len (qc_definitions self) \<ge> MAX_DICTIONARY_ENTRIES
           then throwR (record_error r ''source.dictionary_limit'' ''qtrb.dictionary''
                  ''instruction dictionary limit exceeded'')
           else bindR (liftW (try_reserve_hash_map H G T_DefinitionEntry (qc_definitions self) 1
                         ''QTRB instruction dictionary allocation failed'')) (\<lambda>definitions.
                bindR (modifyR (\<lambda>self. self\<lparr>qc_definitions := definitions\<rparr>)) (\<lambda>_.
                bindR (liftW (clone_definition_wire H G df)) (\<lambda>copy.
                modifyR (\<lambda>self. self\<lparr>qc_definitions :=
                  hash_map_insert (qc_definitions self) metadata_id copy\<rparr>))))) (\<lambda>_.
     bindR selfR (\<lambda>self.
     bindR (liftW (typed_definition H G metadata_id df)) (\<lambda>typed.
     retR (event self r None (P_InstructionDefinition typed)))))))"

definition observation ::
  "'w host \<Rightarrow> 'w work_guard \<Rightarrow> string \<Rightarrow> register_wire \<Rightarrow> ('w, register_observation) payload_rm" where
  "observation H G detail register =
     bindR (liftW (try_copy_string H G (rw_name register) detail)) (\<lambda>name.
     bindR pc_u64_le (\<lambda>v.
     retR \<lparr>ro_slot = rw_slot register, ro_captured_width = rw_width register, ro_name = name,
           ro_value = v\<rparr>))"

definition instruction_payload ::
  "'w host \<Rightarrow> 'w work_guard \<Rightarrow> 'w qtrb_cursor \<Rightarrow> physical_record \<Rightarrow>
   ('w, provider_error, u64 \<times> instruction) rm" where
  "instruction_payload H G self r =
     with_payload (pr_payload r) ''INSTRUCTION'' (coordinate r) (
     bindR pc_u64_le (\<lambda>sequence.
     bindR pc_u32_le (\<lambda>module_id.
     bindR pc_u64_le (\<lambda>relative_pc.
     bindR pc_u32_le (\<lambda>metadata_id.
     bindR pc_u8 (\<lambda>read_count.
     bindR pc_u8 (\<lambda>write_count.
     if \<not> hash_map_contains_key (qc_modules self) module_id \<or>
        \<not> hash_map_contains_key (qc_definitions self) metadata_id
     then throwR (record_error r ''source.undefined_reference'' ''qtrb.dictionary''
            ''instruction references an undefined module or metadata definition'')
     else let df = the (hash_map_get (qc_definitions self) metadata_id) in
     if unat read_count \<noteq> length (idw_reads df) \<or> unat write_count \<noteq> length (idw_writes df)
     then throwR (record_error r ''source.invalid_payload'' ''qtrb.instruction''
            ''instruction register counts do not match its definition'')
     else
     bindR (liftW (try_reserve_vec_exact H G T_RegisterObservation (unat read_count)
              ''QTRB read observation allocation failed'')) (\<lambda>_.
     bindR (forR (observation H G ''QTRB read observation name allocation failed'') (idw_reads df)) (\<lambda>read_before.
     bindR (liftW (try_reserve_vec_exact H G T_RegisterObservation (unat write_count)
              ''QTRB write observation allocation failed'')) (\<lambda>_.
     bindR (forR (observation H G ''QTRB write observation name allocation failed'') (idw_writes df)) (\<lambda>write_after.
     bindR pc_finish (\<lambda>_.
     retR (sequence, \<lparr>in_definition_id = metadata_id, in_module_id = module_id,
       in_relative_pc = relative_pc, in_read_before = read_before, in_write_after = write_after\<rparr>)))))))))))))"

definition decode_instruction ::
  "'w host \<Rightarrow> 'w work_guard \<Rightarrow> physical_record \<Rightarrow> ('w, event_record) cursor_rm" where
  "decode_instruction H G r =
     bindR selfR (\<lambda>self.
     bindR (liftW (instruction_payload H G self r)) (\<lambda>(sequence, decoded).
     if sequence \<noteq> qc_next_sequence self
     then throwR (record_error r ''source.sequence_gap'' ''qtrb.sequence''
            ''instruction sequence is not contiguous'')
     else
     bindR (optionR (record_error r ''source.sequence_gap'' ''qtrb.sequence''
              ''instruction sequence overflows u64'') (checked_add (qc_next_sequence self) 1)) (\<lambda>next_sequence.
     bindR (modifyR (\<lambda>self. self\<lparr>qc_next_sequence := next_sequence\<rparr>)) (\<lambda>_.
     bindR (optionR (record_error r ''source.terminal_counter_mismatch'' ''qtrb.sequence''
              ''instruction counter overflows u64'') (checked_add (qc_instruction_count self) 1)) (\<lambda>count.
     bindR (modifyR (\<lambda>self. self\<lparr>qc_instruction_count := count\<rparr>)) (\<lambda>_.
     bindR selfR (\<lambda>self.
     retR (event self r (Some sequence) (P_Instruction decoded)))))))))"

definition decode_memory_state ::
  "'w host \<Rightarrow> 'w work_guard \<Rightarrow> string \<Rightarrow> source_coordinate \<Rightarrow> ('w, capture_bytes) payload_rm" where
  "decode_memory_state H G field co =
     bindR pc_u8 (\<lambda>state.
     bindR pc_u8 (\<lambda>n. let count = unat n in
     if count > MAX_CAPTURED_MEMORY_BYTES
     then throwR (provider_error_new ''source.invalid_payload'' ''qtrb.memory'' (Some co) False
            (field @ '' exceeds capture maximum''))
     else bindR (pc_take count) (\<lambda>bytes.
     if \<not> (state = 0 \<and> count = 0 \<or> state = 1 \<or> state = 2 \<and> count = 0)
     then throwR (provider_error_new ''source.invalid_payload'' ''qtrb.memory'' (Some co) False
            (''invalid '' @ field @ '' state''))
     else if state = 0 then retR NotCaptured
     else if state = 1 then
       bindR (liftW (try_copy_bytes H G bytes ''QTRB memory capture allocation failed''))
         (\<lambda>copy. retR (CapturedBytes copy))
     else retR Unavailable)))"

definition memory_payload ::
  "'w host \<Rightarrow> 'w work_guard \<Rightarrow> 'w qtrb_cursor \<Rightarrow> physical_record \<Rightarrow> ('w, provider_error, memory_access) rm" where
  "memory_payload H G self r =
     with_payload (pr_payload r) ''MEMORY'' (coordinate r) (
     bindR pc_u32_le (\<lambda>module_id.
     bindR pc_u64_le (\<lambda>relative_pc.
     bindR pc_u8 (\<lambda>raw_direction.
     bindR (resultR (if raw_direction = 1 then Inr MemRead
                     else if raw_direction = 2 then Inr MemWrite
                     else if raw_direction = 3 then Inr MemReadWrite
                     else Inl (record_error r ''source.invalid_payload'' ''qtrb.memory''
                            ''invalid memory access direction''))) (\<lambda>direction.
     bindR pc_u8 (\<lambda>metadata_available.
     bindR pc_u16_le (\<lambda>flags.
     bindR pc_u64_le (\<lambda>address.
     bindR pc_u32_le (\<lambda>bytes.
     bindR pc_u64_le (\<lambda>v.
     if \<not> hash_map_contains_key (qc_modules self) module_id
     then throwR (record_error r ''source.undefined_reference'' ''qtrb.dictionary''
            ''memory record references an undefined module'')
     else if metadata_available > 1
     then throwR (record_error r ''source.invalid_payload'' ''qtrb.memory''
            ''invalid memory metadata availability'')
     else
     bindR (decode_memory_state H G ''before memory'' (coordinate r)) (\<lambda>before.
     bindR (decode_memory_state H G ''after memory'' (coordinate r)) (\<lambda>after.
     bindR pc_finish (\<lambda>_.
     retR \<lparr>ma_module_id = module_id, ma_relative_pc = relative_pc, ma_address = address,
           ma_size = bytes, ma_direction = direction,
           ma_metadata_available = (metadata_available = 1), ma_flags = flags, ma_value = v,
           ma_before = before, ma_after = after\<rparr>)))))))))))))"

definition decode_memory :: "'w host \<Rightarrow> 'w work_guard \<Rightarrow> physical_record \<Rightarrow> ('w, event_record) cursor_rm" where
  "decode_memory H G r =
     bindR selfR (\<lambda>self.
     bindR (liftW (memory_payload H G self r)) (\<lambda>m.
     retR (event self r None (P_Memory m))))"

section \<open>Semantic events and fragments\<close>

definition build_semantic_event ::
  "'w qtrb_cursor \<Rightarrow> physical_record \<Rightarrow> fragment_kind \<Rightarrow> utf8 option \<Rightarrow> utf8 \<Rightarrow> utf8 \<Rightarrow> event_record" where
  "build_semantic_event self r kind category name detail =
     (let semantic = \<lparr>se_category = category, se_name = name, se_detail = detail,
                      se_fragment_sequences = []\<rparr>
      in event self r None (case kind of
           FragCall \<Rightarrow> P_SemanticCall semantic
         | FragRule \<Rightarrow> P_SemanticRule semantic
         | FragError \<Rightarrow> P_SemanticError semantic))"

definition name_limit :: "fragment_kind \<Rightarrow> usize" where
  "name_limit kind = (if kind = FragCall then MAX_CALL_NAME_BYTES else MAX_EVENT_NAME_BYTES)"

definition semantic_payload ::
  "'w host \<Rightarrow> 'w work_guard \<Rightarrow> physical_record \<Rightarrow> fragment_kind \<Rightarrow>
   ('w, provider_error, utf8 option \<times> utf8 \<times> utf8) rm" where
  "semantic_payload H G r kind =
     with_payload (pr_payload r) ''semantic event'' (coordinate r) (
     bindR (if kind = FragCall
            then bindR (bounded_utf8_guarded H G MAX_CALL_CATEGORY_BYTES ''CALL category'') (\<lambda>c. retR (Some c))
            else retR None) (\<lambda>category.
     bindR (bounded_utf8_guarded H G (name_limit kind) ''event name'') (\<lambda>name.
     bindR (bounded_utf8_guarded H G MAX_EVENT_DETAIL_BYTES ''event detail'') (\<lambda>detail.
     bindR pc_finish (\<lambda>_.
     retR (category, name, detail))))))"

definition decode_bounded_raw ::
  "'w host \<Rightarrow> 'w work_guard \<Rightarrow> usize \<Rightarrow> string \<Rightarrow> source_coordinate \<Rightarrow> ('w, u8 list) payload_rm" where
  "decode_bounded_raw H G maximum field co =
     bindR pc_u16_le (\<lambda>n.
     if unat n > maximum
     then throwR (provider_error_new ''source.invalid_payload'' ''qtrb.payload'' (Some co) False
            (field @ '' exceeds '' @ decimal maximum @ '' bytes''))
     else bindR (pc_take (unat n)) (\<lambda>raw.
          liftW (try_copy_bytes H G raw ''QTRB raw field allocation failed'')))"

definition fragment_payload ::
  "'w host \<Rightarrow> 'w work_guard \<Rightarrow> physical_record \<Rightarrow> fragment_kind \<Rightarrow>
   ('w, provider_error, u64 \<times> u32 \<times> u16 \<times> u16 \<times> u8 list option \<times> u8 list \<times> u8 list) rm" where
  "fragment_payload H G r kind =
     with_payload (pr_payload r) ''semantic fragment'' (coordinate r) (
     bindR pc_u64_le (\<lambda>event_id.
     bindR pc_u32_le (\<lambda>total_detail_bytes.
     bindR pc_u16_le (\<lambda>chunk_index.
     bindR pc_u16_le (\<lambda>chunk_count.
     bindR (if kind = FragCall
            then bindR (decode_bounded_raw H G MAX_CALL_CATEGORY_BYTES ''CALL category'' (coordinate r))
                   (\<lambda>c. retR (Some c))
            else retR None) (\<lambda>category.
     bindR (decode_bounded_raw H G (name_limit kind) ''event name'' (coordinate r)) (\<lambda>name.
     bindR (decode_bounded_raw H G (if kind = FragCall then MAX_CALL_CHUNK_DETAIL_BYTES
                else MAX_EVENT_CHUNK_DETAIL_BYTES) ''event detail fragment'' (coordinate r)) (\<lambda>detail.
     bindR pc_finish (\<lambda>_.
     retR (event_id, total_detail_bytes, chunk_index, chunk_count, category, name, detail))))))))))"

definition logical_maximum :: "fragment_kind \<Rightarrow> u32" where
  "logical_maximum kind =
     (if kind = FragCall then MAX_LOGICAL_CALL_DETAIL_BYTES else word_of_nat MAX_EVENT_DETAIL_BYTES)"

text \<open>The pending group: the one the cursor holds, which is taken out, or a new one.\<close>

definition start_fragment ::
  "'w host \<Rightarrow> 'w work_guard \<Rightarrow> physical_record \<Rightarrow> fragment_kind \<Rightarrow> u64 \<Rightarrow> u32 \<Rightarrow> u16 \<Rightarrow> u16 \<Rightarrow>
   u8 list option \<Rightarrow> u8 list \<Rightarrow> ('w, provider_error, pending_fragment) rm" where
  "start_fragment H G r kind event_id total_detail_bytes chunk_index chunk_count category name =
     (if chunk_index \<noteq> 0
      then throwR (record_error r ''source.invalid_fragment'' ''qtrb.fragment''
             ''fragment index must start at zero'')
      else
     bindR (transposeR (\<lambda>bytes. try_copy_bytes H G bytes ''QTRB fragment category allocation failed'') category) (\<lambda>category_copy.
     bindR (try_copy_bytes H G name ''QTRB fragment name allocation failed'') (\<lambda>name_copy.
     bindR (try_reserve_vec_exact H G T_u8 (unat total_detail_bytes)
              ''QTRB logical fragment allocation failed'') (\<lambda>_.
     bindR (try_reserve_vec_exact H G T_u64 (unat chunk_count) ''QTRB fragment offset allocation failed'') (\<lambda>_.
     retR \<lparr>pf_kind = kind, pf_event_id = event_id, pf_total_detail_bytes = total_detail_bytes,
           pf_chunk_count = chunk_count, pf_next_index = 0, pf_category = category_copy,
           pf_name = name_copy, pf_detail = [], pf_first_offset = pr_offset r,
           pf_first_ordinal = pr_ordinal r, pf_fragment_offsets = []\<rparr>)))))"

text \<open>\<open>String::from_utf8\<close> of an assembled field.\<close>

definition from_utf8 :: "physical_record \<Rightarrow> string \<Rightarrow> u8 list \<Rightarrow> provider_error + utf8" where
  "from_utf8 r detail bytes =
     (if utf8_valid bytes then Inr bytes
      else Inl (record_error r ''source.invalid_utf8'' ''qtrb.fragment'' detail))"

text \<open>The last fragment of a group has arrived: check the totals and build the logical event.\<close>

definition assemble_fragment ::
  "'w qtrb_cursor \<Rightarrow> physical_record \<Rightarrow> fragment_kind \<Rightarrow> pending_fragment \<Rightarrow>
   ('s, provider_error, event_record) rm" where
  "assemble_fragment self r kind pending =
     (if length (pf_detail pending) \<noteq> unat (pf_total_detail_bytes pending) \<or>
         length (pf_fragment_offsets pending) \<noteq> unat (pf_chunk_count pending)
      then throwR (record_error r ''source.invalid_fragment'' ''qtrb.fragment''
             ''fragment group does not match declared length or count'')
      else
     bindR (transposeR (\<lambda>bytes. resultR (from_utf8 r ''logical CALL category is not valid UTF-8'' bytes))
              (pf_category pending)) (\<lambda>category.
     bindR (resultR (from_utf8 r ''logical event name is not valid UTF-8'' (pf_name pending))) (\<lambda>name.
     bindR (resultR (from_utf8 r ''logical event detail is not valid UTF-8'' (pf_detail pending))) (\<lambda>detail.
     let first = r\<lparr>pr_payload := [], pr_offset := pf_first_offset pending, pr_ordinal := pf_first_ordinal pending\<rparr>;
         ev = build_semantic_event self first kind category name detail in
     optionR (record_error r ''source.invalid_fragment'' ''qtrb.fragment''
         ''fragment provenance offsets are invalid or exceed their bound'')
       (event_record_with_fragment_source_offsets (er_key ev) (er_provenance ev) (er_payload ev)
          (pf_fragment_offsets pending))))))"

text \<open>A fragment joins its group: its header must repeat the group's and its index must be the next.\<close>

definition append_fragment ::
  "'w qtrb_cursor \<Rightarrow> physical_record \<Rightarrow> fragment_kind \<Rightarrow>
   u64 \<times> u32 \<times> u16 \<times> u16 \<times> u8 list option \<times> u8 list \<times> u8 list \<Rightarrow> pending_fragment \<Rightarrow>
   ('w, event_record option) cursor_rm" where
  "append_fragment self r kind wire pending =
     (case wire of (event_id, total_detail_bytes, chunk_index, chunk_count, category, name, detail) \<Rightarrow>
     if pf_kind pending \<noteq> kind \<or> pf_event_id pending \<noteq> event_id
        \<or> pf_total_detail_bytes pending \<noteq> total_detail_bytes
        \<or> pf_chunk_count pending \<noteq> chunk_count \<or> pf_category pending \<noteq> category
        \<or> pf_name pending \<noteq> name
     then throwR (record_error r ''source.invalid_fragment'' ''qtrb.fragment''
            ''fragment metadata does not match the logical event'')
     else if chunk_index \<noteq> pf_next_index pending
     then throwR (record_error r ''source.invalid_fragment'' ''qtrb.fragment''
            ''fragment index is duplicate or out of order'')
     else let pending = pending\<lparr>pf_detail := pf_detail pending @ detail,
            pf_fragment_offsets := pf_fragment_offsets pending @ [pr_offset r],
            pf_next_index := saturating_add (pf_next_index pending) 1\<rparr> in
     if length (pf_detail pending) > unat (pf_total_detail_bytes pending)
     then throwR (record_error r ''source.invalid_fragment'' ''qtrb.fragment''
            ''fragment data exceeds declared logical detail length'')
     else if pf_next_index pending < pf_chunk_count pending
     then bindR (modifyR (\<lambda>self. self\<lparr>qc_pending := Some pending\<rparr>)) (\<lambda>_. retR None)
     else
     bindR (assemble_fragment self r kind pending) (\<lambda>ev. retR (Some ev)))"

definition decode_fragment ::
  "'w host \<Rightarrow> 'w work_guard \<Rightarrow> physical_record \<Rightarrow> fragment_kind \<Rightarrow> ('w, event_record option) cursor_rm" where
  "decode_fragment H G r kind =
     bindR (liftW (fragment_payload H G r kind)) (\<lambda>
       (event_id, total_detail_bytes, chunk_index, chunk_count, category, name, detail).
     if event_id = 0 \<or> chunk_count < 2 \<or> chunk_index \<ge> chunk_count
        \<or> total_detail_bytes > logical_maximum kind
        \<or> detail = [] \<or> total_detail_bytes \<le> word_of_nat (length detail)
        \<or> total_detail_bytes < ucast chunk_count
     then throwR (record_error r ''source.invalid_fragment'' ''qtrb.fragment''
            ''invalid semantic fragment metadata'')
     else
     bindR selfR (\<lambda>self.
     bindR (modifyR (\<lambda>self. self\<lparr>qc_pending := None\<rparr>)) (\<lambda>_.
     bindR (case qc_pending self of
              Some pending \<Rightarrow> retR pending
            | None \<Rightarrow> liftW (start_fragment H G r kind event_id total_detail_bytes chunk_index chunk_count
                category name)) (\<lambda>pending.
     append_fragment self r kind
       (event_id, total_detail_bytes, chunk_index, chunk_count, category, name, detail) pending))))"

definition decode_semantic ::
  "'w host \<Rightarrow> 'w work_guard \<Rightarrow> physical_record \<Rightarrow> fragment_kind \<Rightarrow> ('w, event_record option) cursor_rm" where
  "decode_semantic H G r kind =
     bindR selfR (\<lambda>self.
     if pr_flags r = 0 then
       bindR (liftW (semantic_payload H G r kind)) (\<lambda>(category, name, detail).
       retR (Some (build_semantic_event self r kind category name detail)))
     else if kind \<noteq> FragCall \<and> hdr_minor (qc_header self) = 0
     then throwR (record_error r ''source.version_unsupported'' ''qtrb.fragment''
            ''RULE/ERROR fragments require QTRB minor 1 or newer'')
     else decode_fragment H G r kind)"

section \<open>Terminal records\<close>

definition decode_metrics :: "('w, u64 list) payload_rm" where
  "decode_metrics = forR (\<lambda>_. pc_u64_le) [0..<10]"

definition metrics_of :: "u64 list \<Rightarrow> terminal_metrics" where
  "metrics_of metrics =
     \<lparr>tm_instructions = metrics ! 0, tm_encoded_bytes = metrics ! 1,
      tm_compressed_bytes = metrics ! 2, tm_cache_hits = metrics ! 3,
      tm_cache_misses = metrics ! 4, tm_cache_collisions = metrics ! 5,
      tm_buffer_swaps = metrics ! 6, tm_producer_waits = metrics ! 7,
      tm_producer_wait_ns = metrics ! 8, tm_effective_buffer_bytes = metrics ! 9\<rparr>"

definition accept_terminal ::
  "'w host \<Rightarrow> 'w work_guard \<Rightarrow> physical_record \<Rightarrow> u64 list \<Rightarrow> terminal_draft \<Rightarrow> ('w, event_record) cursor_rm" where
  "accept_terminal H G r metrics draft =
     bindR selfR (\<lambda>self.
     bindR source_lenR (\<lambda>source_len.
     if qc_offset self \<noteq> source_len
     then throwR (record_error r ''source.record_after_terminal'' ''qtrb.lifecycle''
            ''record follows QTRB terminal'')
     else if metrics ! 0 \<noteq> qc_instruction_count self \<or> metrics ! 1 \<noteq> qc_offset self
        \<or> metrics ! 9 \<noteq> qc_effective_buffer_bytes self
     then throwR (record_error r ''source.terminal_counter_mismatch'' ''qtrb.lifecycle''
            ''terminal instruction, encoded-byte, or buffer metric does not match the stream'')
     else
     bindR (transposeR (\<lambda>v. liftW (try_copy_string H G v ''QTRB summary terminal reason allocation failed''))
              (td_reason draft)) (\<lambda>summary_reason.
     let ended = \<lparr>te_kind = td_kind draft, te_reason = td_reason draft,
           te_return_value = td_return_value draft, te_elapsed_ms = td_elapsed_ms draft,
           te_metrics = metrics_of metrics, te_intent = None\<rparr> in
     bindR (modifyR (\<lambda>self. self\<lparr>qc_termination := Some (ended\<lparr>te_reason := summary_reason\<rparr>),
              qc_terminal_seen := True\<rparr>)) (\<lambda>_.
     bindR selfR (\<lambda>self.
     retR (event self r None (P_Termination ended)))))))"

definition trace_end_payload ::
  "physical_record \<Rightarrow> ('w, provider_error, u8 \<times> u64 \<times> u64 \<times> u64 list) rm" where
  "trace_end_payload r =
     with_payload (pr_payload r) ''TRACE_END'' (coordinate r) (
     bindR pc_u8 (\<lambda>success.
     bindR pc_u64_le (\<lambda>return_value.
     bindR pc_u64_le (\<lambda>elapsed_ms.
     bindR decode_metrics (\<lambda>metrics.
     bindR pc_finish (\<lambda>_.
     retR (success, return_value, elapsed_ms, metrics)))))))"

definition decode_trace_end ::
  "'w host \<Rightarrow> 'w work_guard \<Rightarrow> physical_record \<Rightarrow> ('w, event_record) cursor_rm" where
  "decode_trace_end H G r =
     (if length (pr_payload r) \<noteq> unat TRACE_END_PAYLOAD_BYTES
      then throwR (invalid_terminal r ''invalid TRACE_END payload size'')
      else bindR (liftW (trace_end_payload r)) (\<lambda>(success, return_value, elapsed_ms, metrics).
      if success \<noteq> 1 then throwR (invalid_terminal r ''TRACE_END is not successful'')
      else accept_terminal H G r metrics
             \<lparr>td_kind = Completed, td_reason = None, td_return_value = Some return_value,
              td_elapsed_ms = elapsed_ms\<rparr>))"

definition trace_stop_payload ::
  "physical_record \<Rightarrow> ('w, provider_error, u8 \<times> u8 list \<times> u64 \<times> u64 list) rm" where
  "trace_stop_payload r =
     with_payload (pr_payload r) ''TRACE_STOP'' (coordinate r) (
     bindR pc_u8 (\<lambda>reason.
     bindR (pc_take 7) (\<lambda>reserved.
     bindR pc_u64_le (\<lambda>elapsed_ms.
     bindR decode_metrics (\<lambda>metrics.
     bindR pc_finish (\<lambda>_.
     retR (reason, reserved, elapsed_ms, metrics)))))))"

definition stop_reason :: "u8 \<Rightarrow> utf8" where
  "stop_reason reason =
     (if reason = 1 then str_bytes ''duration_elapsed''
      else if reason = 2 then str_bytes ''thread_exit''
      else if reason = 3 then str_bytes ''process_exit''
      else str_bytes ''exec_boundary'')"

definition decode_trace_stop ::
  "'w host \<Rightarrow> 'w work_guard \<Rightarrow> physical_record \<Rightarrow> ('w, event_record) cursor_rm" where
  "decode_trace_stop H G r =
     bindR selfR (\<lambda>self.
     if hdr_minor (qc_header self) \<noteq> 2 \<or>
        hdr_required_features (qc_header self) AND STOPPED_TERMINAL_FEATURE = 0
     then throwR (record_error r ''source.version_unsupported'' ''qtrb.lifecycle''
            ''TRACE_STOP requires QTRB 1.2 feature bit 0'')
     else if length (pr_payload r) \<noteq> unat TRACE_STOP_PAYLOAD_BYTES
     then throwR (invalid_terminal r ''invalid TRACE_STOP payload size'')
     else
     bindR (liftW (trace_stop_payload r)) (\<lambda>(reason, reserved, elapsed_ms, metrics).
     if \<not> (1 \<le> reason \<and> reason \<le> 4) \<or> reserved \<noteq> [0, 0, 0, 0, 0, 0, 0]
     then throwR (invalid_terminal r ''invalid TRACE_STOP reason or reserved bytes'')
     else
     bindR (liftW (try_copy_string H G (stop_reason reason) ''QTRB terminal reason allocation failed'')) (\<lambda>copy.
     accept_terminal H G r metrics
       \<lparr>td_kind = Stopped, td_reason = Some copy, td_return_value = None, td_elapsed_ms = elapsed_ms\<rparr>)))"

section \<open>The event loop\<close>

definition opaque_event :: "physical_record \<Rightarrow> ('w, event_record) cursor_rm" where
  "opaque_event r =
     bindR (modifyR (\<lambda>self. self\<lparr>qc_counters := (qc_counters self)\<lparr>pcn_opaque_records :=
              saturating_add (pcn_opaque_records (qc_counters self)) 1\<rparr>\<rparr>)) (\<lambda>_.
     bindR selfR (\<lambda>self.
     retR (event_record_new
       (event_key_new (sid_artifact (qc_identity self)) TIMELINE_ID (pr_ordinal r) (pr_offset r) None
          (qc_tid self))
       Captured
       (P_OpaqueOptional \<lparr>oo_record_type = pr_raw_type r, oo_flags = pr_flags r,
          oo_bytes = pr_payload r\<rparr>))))"

definition mapSome :: "('s, 'e, 'a) rm \<Rightarrow> ('s, 'e, 'a option) rm" where
  "mapSome m = bindR m (\<lambda>x. retR (Some x))"

definition decode_record ::
  "'w host \<Rightarrow> 'w work_guard \<Rightarrow> physical_record \<Rightarrow> ('w, event_record option) cursor_rm" where
  "decode_record H G r = (case pr_record_type r of
       Some RT_TraceBegin \<Rightarrow> mapSome (decode_begin H G r)
     | Some RT_ModuleDefinition \<Rightarrow> mapSome (decode_module H G r)
     | Some RT_InstructionDefinition \<Rightarrow> mapSome (decode_instruction_definition H G r)
     | Some RT_Instruction \<Rightarrow> mapSome (decode_instruction H G r)
     | Some RT_Memory \<Rightarrow> mapSome (decode_memory H G r)
     | Some RT_Call \<Rightarrow> decode_semantic H G r FragCall
     | Some RT_Rule \<Rightarrow> decode_semantic H G r FragRule
     | Some RT_Error \<Rightarrow> decode_semantic H G r FragError
     | Some RT_TraceEnd \<Rightarrow> mapSome (decode_trace_end H G r)
     | Some RT_TraceStop \<Rightarrow> mapSome (decode_trace_stop H G r)
     | None \<Rightarrow> mapSome (opaque_event r))"

definition validate_source_identity :: "('w, unit) cursor_rm" where
  "validate_source_identity =
     bindR selfR (\<lambda>self.
     bindR source_lenR (\<lambda>source_len.
     guardR (source_len \<noteq> sid_source_bytes (qc_identity self))
       (provider_error_new ''source.identity_changed'' ''qtrb.identity''
          (Some \<lparr>sc_offset = qc_offset self, sc_record_ordinal = Some (qc_next_ordinal self)\<rparr>)
          False ''QTRB source length changed while parsing'')))"

definition push_completeness :: "completeness_range option \<Rightarrow> ('w, unit) cursor_rm" where
  "push_completeness added = modifyR (\<lambda>self. case added of None \<Rightarrow> self | Some c \<Rightarrow>
     self\<lparr>qc_completeness := (qc_completeness self)\<lparr>rv_items := rv_items (qc_completeness self) @ [c]\<rparr>\<rparr>)"

definition insert_completeness :: "completeness_range option \<Rightarrow> ('w, unit) cursor_rm" where
  "insert_completeness added = modifyR (\<lambda>self. case added of None \<Rightarrow> self | Some c \<Rightarrow>
     self\<lparr>qc_completeness := (qc_completeness self)\<lparr>rv_items := c # rv_items (qc_completeness self)\<rparr>\<rparr>)"

definition finish_stream :: "'w host \<Rightarrow> 'w work_guard \<Rightarrow> ('w, event_record option) cursor_rm" where
  "finish_stream H G =
     bindR validate_source_identity (\<lambda>_.
     bindR selfR (\<lambda>self.
     if qc_pending self \<noteq> None
     then throwR (error_at_current self ''source.incomplete_fragment'' ''qtrb.fragment''
            ''source ended during a logical fragment group'')
     else if \<not> qc_began self
     then throwR (error_at_current self ''source.invalid_order'' ''qtrb.lifecycle''
            ''QTRB source has no TRACE_BEGIN'')
     else
     bindR (optionR (qtrb_allocation_error ''QTRB completeness count overflow'')
              (checked_add_usize
                (if \<not> qc_terminal_seen self \<and> qc_mode self = RecoverablePartial then 1 else 0) 1)) (\<lambda>completeness_count.
     bindR (optionR (qtrb_allocation_error ''QTRB completeness count overflow'')
              (checked_add_usize (length (rv_items (qc_completeness self))) completeness_count)) (\<lambda>completeness_target.
     bindR (liftW (try_reserve_vec_exact_in H G T_CompletenessRange (rv_capacity (qc_completeness self))
              completeness_target ''QTRB completeness allocation failed'' PROVIDER_ALLOCATION)) (\<lambda>cap.
     bindR (modifyR (\<lambda>self. self\<lparr>qc_completeness := (qc_completeness self)\<lparr>rv_capacity := cap\<rparr>\<rparr>)) (\<lambda>_.
     bindR (if \<not> qc_terminal_seen self then
              (case qc_mode self of
                 Sealed \<Rightarrow> throwR (error_at_current self ''source.missing_terminal'' ''qtrb.lifecycle''
                   ''sealed QTRB source has no successful terminal'')
               | RecoverablePartial \<Rightarrow> push_completeness
                   (source_bytes_with_cause (qc_offset self) (qc_offset self) Unknown C_MissingTerminal))
            else retR ()) (\<lambda>_.
     bindR (insert_completeness (source_bytes_with_cause 0 (qc_offset self) Captured C_Retained)) (\<lambda>_.
     bindR (modifyR (\<lambda>self. self\<lparr>qc_drained := True\<rparr>)) (\<lambda>_.
     retR None)))))))))"

definition fragment_record_type :: "fragment_kind \<Rightarrow> record_type" where
  "fragment_record_type kind = (case kind of
     FragCall \<Rightarrow> RT_Call | FragRule \<Rightarrow> RT_Rule | FragError \<Rightarrow> RT_Error)"

text \<open>
  One iteration of the loop of \<open>next_event_inner\<close>: \<open>Some r\<close> when it returns \<open>r\<close>, \<open>None\<close> when the record
  produced no event and the loop goes on.
\<close>

definition next_event_iteration :: "'w host \<Rightarrow> 'w work_guard \<Rightarrow> ('w, event_record option option) cursor_rm" where
  "next_event_iteration H G =
     bindR selfR (\<lambda>self.
     bindR source_lenR (\<lambda>source_len.
     if qc_terminal_seen self then
       (if qc_offset self < source_len
        then throwR (error_at_current self ''source.record_after_terminal'' ''qtrb.lifecycle''
               ''record follows QTRB terminal'')
        else mapSome (finish_stream H G))
     else if qc_offset self = source_len then mapSome (finish_stream H G)
     else if qc_offset self > source_len
     then throwR (error_at_current self ''source.short_read'' ''qtrb.read''
            ''QTRB cursor passed source end'')
     else
     bindR (read_record H G) (\<lambda>r.
     if \<not> qc_began self \<and> pr_record_type r \<noteq> Some RT_TraceBegin
     then throwR (record_error r ''source.invalid_order'' ''qtrb.lifecycle''
            ''TRACE_BEGIN must be the first record'')
     else if (case qc_pending self of
                Some pending \<Rightarrow> pr_record_type r \<noteq> Some (fragment_record_type (pf_kind pending)) \<or>
                  pr_flags r \<noteq> CHUNK_FLAG
              | None \<Rightarrow> False)
     then throwR (record_error r ''source.incomplete_fragment'' ''qtrb.fragment''
            ''fragment records must be contiguous'')
     else
     bindR (decode_record H G r) (\<lambda>ev.
     (case ev of
        None \<Rightarrow> retR None
      | Some ev \<Rightarrow>
          bindR (liftW (consume G (work_default\<lparr>wd_events := 1\<rparr>))) (\<lambda>_.
          bindR (modifyR (\<lambda>self. self\<lparr>qc_counters := (qc_counters self)\<lparr>pcn_events_emitted :=
                   saturating_add (pcn_events_emitted (qc_counters self)) 1\<rparr>\<rparr>)) (\<lambda>_.
          retR (Some (Some ev)))))))))"

section \<open>Successful runs of the cursor\<close>

text \<open>
  A method that succeeded is taken apart from the front, as the payload decoders are: what it
  leaves of \<open>self\<close> is then an explicit update of what it started from.
\<close>

named_theorems self_elims "eliminations for successful runs of cursor methods"

lemma bind_selfE [self_elims]:
  assumes "bindR selfR k (self, w) = (Inr y, t)"
  obtains "k self (self, w) = (Inr y, t)"
  using assms by (simp add: bindR_def selfR_def)

lemma bind_modifyE [self_elims]:
  assumes "bindR (modifyR f) k (self, w) = (Inr y, t)"
  obtains "k () (f self, w) = (Inr y, t)"
  using assms by (simp add: bindR_def modifyR_def)

lemma bind_source_lenE [self_elims]:
  assumes "bindR source_lenR k (self, w) = (Inr y, t)"
  obtains "k (src_len (qc_source self) w) (self, w) = (Inr y, t)"
  using assms by (simp add: bindR_def source_lenR_def)

lemma bind_liftE [self_elims]:
  assumes "bindR (liftW m) k (self, w) = (Inr y, t)"
  obtains v w1 where "m w = (Inr v, w1)" and "k v (self, w1) = (Inr y, t)"
  using assms by (auto simp: bindR_Inr)

lemma bind_optionE [self_elims]:
  assumes "bindR (optionR e v) k s = (Inr y, t)"
  obtains x where "v = Some x" and "k x s = (Inr y, t)"
  using assms by (auto simp: bindR_Inr)

lemma bind_read_sourceE [self_elims]:
  assumes "bindR (mapErrR f (read_sourceR offset count)) k (self, w) = (Inr y, t)"
  obtains bs w1 where "src_read_exact_at (qc_source self) offset count w = (Inr bs, w1)"
    and "k bs (self, w1) = (Inr y, t)"
  using assms by (auto simp: bindR_Inr read_sourceR_def split: prod.splits)

lemma mapSomeE [self_elims]:
  assumes "mapSome m s = (Inr v, t)"
  obtains x where "v = Some x" and "m s = (Inr x, t)"
  using assms by (auto simp: mapSome_def bindR_Inr)

lemma bind_pairE [self_elims]:
  assumes "(case p of (a, b) \<Rightarrow> f a b) s = (Inr y, t)"
  obtains a b where "p = (a, b)" and "f a b s = (Inr y, t)"
  using assms by (cases p) simp

lemma let_okE [self_elims]:
  assumes "(let x = e in f x) s = (Inr y, t)"
  obtains "f e s = (Inr y, t)"
  using assms by (simp add: Let_def)

lemma modifyR_ok [simp]: "modifyR f (self, w) = (Inr x, (self', w')) \<longleftrightarrow> self' = f self \<and> w' = w"
  by (auto simp: modifyR_def)

lemma selfR_ok [simp]: "selfR (self, w) = (Inr x, (self', w')) \<longleftrightarrow> x = self \<and> self' = self \<and> w' = w"
  by (auto simp: selfR_def)

lemma source_lenR_ok [simp]:
  "source_lenR (self, w) = (Inr x, (self', w')) \<longleftrightarrow> x = src_len (qc_source self) w \<and> self' = self \<and> w' = w"
  by (auto simp: source_lenR_def)

lemma bind_selfR [simp]: "bindR selfR k (self, w) = k self (self, w)"
  by (simp add: bindR_def selfR_def)

lemma bind_source_lenR [simp]:
  "bindR source_lenR k (self, w) = k (src_len (qc_source self) w) (self, w)"
  by (simp add: bindR_def source_lenR_def)

lemma bind_modifyR [simp]: "bindR (modifyR f) k (self, w) = k () (f self, w)"
  by (simp add: bindR_def modifyR_def)

lemmas run_elims = self_elims else_okE bind_retE

lemma unat_ucast_32_64: "unat (ucast (n :: u32) :: u64) = unat n"
  using unat_less_2p [of n] by (simp add: unsigned_ucast_eq take_bit_eq_mod)

lemma record_header_ok:
  "record_header header co w = (Inr (raw, flags, n), w') \<Longrightarrow>
     w' = w \<and> header = to_le_bytes 2 raw @ to_le_bytes 2 flags @ to_le_bytes 4 n"
  unfolding record_header_def by (elim with_payload_okE read_elims) auto

text \<open>The source returned these bytes for this range, in some world.\<close>

definition source_bytes_at :: "'w read_at_source \<Rightarrow> u64 \<Rightarrow> usize \<Rightarrow> u8 list \<Rightarrow> bool" where
  "source_bytes_at S offset count bs \<longleftrightarrow> (\<exists>w w'. src_read_exact_at S offset count w = (Inr bs, w'))"

lemma source_bytes_atI:
  "src_read_exact_at S offset count w = (Inr bs, w') \<Longrightarrow> source_bytes_at S offset count bs"
  by (auto simp: source_bytes_at_def)

lemma read_record_okE:
  assumes "read_record H G (self, w) = (Inr r, (self', w'))"
  obtains n limit where
    "self' = self\<lparr>qc_offset := qc_offset self + 8 + ucast (n :: u32),
       qc_next_ordinal := qc_next_ordinal self + 1,
       qc_counters := count_record n (qc_counters self)\<rparr>"
    and "unat (qc_offset self') = unat (qc_offset self) + 8 + unat n"
    and "unat (qc_next_ordinal self') = unat (qc_next_ordinal self) + 1"
    and "pr_record_type r = record_type_from_raw (pr_raw_type r)"
    and "pr_offset r = qc_offset self" and "pr_ordinal r = qc_next_ordinal self"
    and "record_payload_limit (qc_header self) (pr_raw_type r) (pr_flags r) (coordinate r) = Inr limit"
    and "n \<le> limit"
    and "source_bytes_at (qc_source self) (qc_offset self) 8
       (to_le_bytes 2 (pr_raw_type r) @ to_le_bytes 2 (pr_flags r) @ to_le_bytes 4 n)"
    and "source_bytes_at (qc_source self) (qc_offset self + 8) (unat n) (pr_payload r)"
  using assms unfolding read_record_def RECORD_HEADER_BYTES_def
  apply (elim run_elims)
  subgoal premises p for v w1 bs w1a x va w1b raw_type b flags n limit vc w1c vd w1d bsa w1e xa xb
  proof (rule p(1) [of n limit])
    have "bs = to_le_bytes 2 raw_type @ to_le_bytes 2 flags @ to_le_bytes 4 n"
      using p(5-7) by (simp add: record_header_ok)
    moreover have x: "x = qc_offset self + 8" "unat x = unat (qc_offset self) + 8"
      using p(4) by (auto simp: checked_add_Some)
    moreover have xa: "xa = x + ucast n" "unat xa = unat x + unat n"
      using p(13) by (auto simp: checked_add_Some unat_ucast_32_64)
    moreover have xb: "xb = qc_next_ordinal self + 1" "unat xb = unat (qc_next_ordinal self) + 1"
      using p(14) by (auto simp: checked_add_Some)
    moreover have r: "r = \<lparr>pr_record_type = record_type_from_raw raw_type, pr_raw_type = raw_type,
        pr_flags = flags, pr_payload = bsa, pr_offset = qc_offset self, pr_ordinal = qc_next_ordinal self\<rparr>"
      "self' = self\<lparr>qc_offset := xa, qc_next_ordinal := xb, qc_counters := count_record n (qc_counters self)\<rparr>"
      using p(15) by simp_all
    ultimately show "source_bytes_at (qc_source self) (qc_offset self) 8
       (to_le_bytes 2 (pr_raw_type r) @ to_le_bytes 2 (pr_flags r) @ to_le_bytes 4 n)"
      and "source_bytes_at (qc_source self) (qc_offset self + 8) (unat n) (pr_payload r)"
      using p(3) p(12) by (auto intro: source_bytes_atI)
    show "self' = self\<lparr>qc_offset := qc_offset self + 8 + ucast n,
       qc_next_ordinal := qc_next_ordinal self + 1, qc_counters := count_record n (qc_counters self)\<rparr>"
      using r x xa xb by simp
    show "unat (qc_offset self') = unat (qc_offset self) + 8 + unat n"
      and "unat (qc_next_ordinal self') = unat (qc_next_ordinal self) + 1"
      using x(2) xa(2) xb(2) by (simp_all add: r)
    show "n \<le> limit" using p(9) by simp
    show "record_payload_limit (qc_header self) (pr_raw_type r) (pr_flags r) (coordinate r) = Inr limit"
      using p(8) by (simp add: r coordinate_def)
  qed (use p(15) in auto)
  done

lemma decode_fragment_None:
  assumes "decode_fragment H G r kind (self, w) = (Inr None, (self', w'))"
  shows "\<exists>p. self' = self\<lparr>qc_pending := Some p\<rparr>"
  using assms unfolding decode_fragment_def append_fragment_def
  by (elim run_elims) (auto simp: bindR_Inr Let_def split: if_splits option.splits)

lemma decode_semantic_None:
  assumes "decode_semantic H G r kind (self, w) = (Inr None, (self', w'))"
  shows "\<exists>p. self' = self\<lparr>qc_pending := Some p\<rparr>"
  using assms unfolding decode_semantic_def
  by (elim run_elims) (auto simp: bindR_Inr split: if_splits dest: decode_fragment_None)

lemma decode_record_None:
  assumes "decode_record H G r (self, w) = (Inr None, (self', w'))"
  shows "\<exists>p. self' = self\<lparr>qc_pending := Some p\<rparr>"
  using assms unfolding decode_record_def mapSome_def
  by (auto simp: bindR_Inr split: option.splits record_type.splits dest: decode_semantic_None)

lemma next_event_iteration_progress:
  assumes "next_event_iteration H G (self, w) = (Inr None, (self', w'))"
  shows "unat (qc_offset self) < unat (qc_offset self')"
proof -
  obtain r self1 w1 where "read_record H G (self, w) = (Inr r, (self1, w1))"
    and "decode_record H G r (self1, w1) = (Inr None, (self', w'))"
    using assms unfolding next_event_iteration_def
    by (auto simp: bindR_Inr mapSome_def split: if_splits option.splits)
  then show ?thesis
    by (auto elim!: read_record_okE dest!: decode_record_None)
qed

text \<open>
  The loop of \<open>next_event_inner\<close>. Every iteration that does not return has moved the offset
  forward, so the loop ends on every source and for every guard.
\<close>

function next_event_inner ::
  "'w host \<Rightarrow> 'w work_guard \<Rightarrow> 'w qtrb_cursor \<times> 'w \<Rightarrow>
   (provider_error + event_record option) \<times> ('w qtrb_cursor \<times> 'w)" where
  "next_event_inner H G s =
     bindR (next_event_iteration H G)
       (\<lambda>out t. case out of Some returned \<Rightarrow> (Inr returned, t) | None \<Rightarrow> next_event_inner H G t) s"
  by pat_completeness auto
termination
proof (relation "measure (\<lambda>(H, G, s). 2 ^ 64 - unat (qc_offset (fst s)))", goal_cases)
  case (2 H G s out t)
  obtain self w self' w' where s: "s = (self, w)" and t: "t = (self', w')"
    by (cases s, cases t)
  have "unat (qc_offset self) < unat (qc_offset self')"
    using 2 by (intro next_event_iteration_progress) (simp add: s t)
  moreover have "unat (qc_offset self') < 2 ^ 64"
    using unat_less_2p [of "qc_offset self'"] by simp
  ultimately show ?case by (simp add: s t)
qed simp

declare next_event_inner.simps [simp del]

definition next_event :: "'w host \<Rightarrow> 'w work_guard \<Rightarrow> ('w, event_record option) cursor_rm" where
  "next_event H G = (\<lambda>(self, w).
     if qc_drained self then (Inr None, (self, w))
     else if qc_poisoned self
     then (Inl (provider_error_new ''source.cursor_failed'' ''qtrb.cursor'' None False
             ''QTRB cursor cannot continue after a prior failure''), (self, w))
     else case next_event_inner H G (self, w) of
            (Inr ev, t) \<Rightarrow> (Inr ev, t)
          | (Inl e, (self', w')) \<Rightarrow> (Inl e, (self'\<lparr>qc_poisoned := True\<rparr>, w')))"

definition qtrb_finish :: "'w qtrb_cursor \<Rightarrow> ('w, provider_error, provider_summary) rm" where
  "qtrb_finish self = (\<lambda>w.
     if \<not> qc_drained self \<or> qc_poisoned self then (Inl stream_not_drained, w)
     else case validate_source_identity (self, w) of
            (Inl e, (_, w')) \<Rightarrow> (Inl e, w')
          | (Inr _, (_, w')) \<Rightarrow>
              (Inr \<lparr>ps_timelines = (qc_timelines self)[0 := (qc_timelines self ! 0)\<lparr>tld_tid := qc_tid self\<rparr>],
                    ps_termination = qc_termination self, ps_counters = qc_counters self,
                    ps_completeness = rv_items (qc_completeness self)\<rparr>, w'))"

end
