(* ===== verification/Qtrb_Trace.thy ===== *)
theory Qtrb_Trace
  imports Qtrb_Stream
begin

text \<open>
  What a QTRB event cursor guarantees about the events it emits: each handler of the stream
  provider as an explicit update of the cursor, the invariant that ties the cursor to the events
  emitted so far, and the theorems about streams that drain.
\<close>

section \<open>The wire format of stream records\<close>

fun wire_profile :: "trace_profile \<Rightarrow> u8" where
  "wire_profile Fast = 0"
| "wire_profile Balanced = 1"
| "wire_profile Full = 2"

definition wire_begin :: "begin_metadata \<Rightarrow> u8 list" where
  "wire_begin b =
     to_le_bytes 8 (bm_module_base b) @ to_le_bytes 8 (bm_target_offset b) @
     to_le_bytes 8 (bm_target_address b) @ to_le_bytes 4 (bm_pid b) @
     to_le_bytes 4 (case bm_tid b of None \<Rightarrow> 0 | Some tid \<Rightarrow> tid) @
     wire_profile (bm_profile b) # wire_bool (bm_compression_enabled b) #
     to_le_bytes 8 (bm_effective_buffer_bytes b) @ to_le_bytes 8 (bm_run_id b) @
     wire_string (bm_scene b) @ wire_string (bm_target b)"

definition begin_wf :: "begin_metadata \<Rightarrow> bool" where
  "begin_wf b \<longleftrightarrow> bm_tid b \<noteq> None \<and> bm_pointer_width b = 0 \<and> bm_chunk_index b = None \<and>
     bm_chunk_generation b = None \<and> name_wf MAX_CONTEXT_STRING_BYTES (bm_scene b) \<and>
     name_wf MAX_CONTEXT_STRING_BYTES (bm_target b)"

definition wire_module :: "module_definition \<Rightarrow> u8 list" where
  "wire_module m = to_le_bytes 4 (md_module_id m) @ to_le_bytes 8 (md_base m) @ wire_string (md_name m)"

definition wire_category :: "u8 list option \<Rightarrow> u8 list" where
  "wire_category c = (case c of None \<Rightarrow> [] | Some v \<Rightarrow> wire_string v)"

definition wire_semantic :: "semantic_event \<Rightarrow> u8 list" where
  "wire_semantic s = wire_category (se_category s) @ wire_string (se_name s) @ wire_string (se_detail s)"

definition wire_metrics :: "terminal_metrics \<Rightarrow> u8 list" where
  "wire_metrics m =
     to_le_bytes 8 (tm_instructions m) @ to_le_bytes 8 (tm_encoded_bytes m) @
     to_le_bytes 8 (tm_compressed_bytes m) @ to_le_bytes 8 (tm_cache_hits m) @
     to_le_bytes 8 (tm_cache_misses m) @ to_le_bytes 8 (tm_cache_collisions m) @
     to_le_bytes 8 (tm_buffer_swaps m) @ to_le_bytes 8 (tm_producer_waits m) @
     to_le_bytes 8 (tm_producer_wait_ns m) @ to_le_bytes 8 (tm_effective_buffer_bytes m)"

section \<open>Handlers as updates of the cursor\<close>

lemma wire_profile_decode: "v \<le> 2 \<Longrightarrow> wire_profile (decode_profile v) = v"
  by (auto dest!: u8_le_cases simp: decode_profile_def)

lemma begin_payload_ok:
  "begin_payload H G r w =
     (Inr (module_base, target_offset, target_address, pid, tid, profile, compression,
        effective_buffer_bytes, run_id, scene, target), w') \<Longrightarrow>
   pr_payload r = to_le_bytes 8 module_base @ to_le_bytes 8 target_offset @
     to_le_bytes 8 target_address @ to_le_bytes 4 pid @ to_le_bytes 4 tid @
     profile # compression # to_le_bytes 8 effective_buffer_bytes @ to_le_bytes 8 run_id @
     wire_string scene @ wire_string target \<and>
   name_wf MAX_CONTEXT_STRING_BYTES scene \<and> name_wf MAX_CONTEXT_STRING_BYTES target"
  unfolding begin_payload_def
  by (elim with_payload_okE read_elims) (auto simp: name_wf_def)

lemma event_inject [simp]: "event self r q p = event self r q p' \<longleftrightarrow> p = p'"
  by (auto simp: event_def event_record_new_def)

lemma decode_begin_ok:
  assumes "decode_begin H G r (self, w) = (Inr ev, (self', w'))" and "hdr_profile (qc_header self) \<le> 2"
  shows "\<exists>b. ev = event self' r None (P_Begin b) \<and> \<not> qc_began self \<and>
    pr_payload r = wire_begin b \<and> begin_wf b \<and> wire_profile (bm_profile b) = hdr_profile (qc_header self) \<and>
    self' = self\<lparr>qc_began := True, qc_tid := bm_tid b,
      qc_effective_buffer_bytes := bm_effective_buffer_bytes b\<rparr>"
  using assms unfolding decode_begin_def
  by (elim run_elims)
    (auto simp: wire_begin_def begin_wf_def wire_profile_decode wire_bool_def dest!: begin_payload_ok)

lemma module_payload_ok:
  "module_payload H G r w = (Inr (i, base, name), w') \<Longrightarrow>
     pr_payload r = wire_module \<lparr>md_module_id = i, md_base = base, md_name = name\<rparr> \<and>
     name_wf MAX_MODULE_NAME_BYTES name"
  unfolding module_payload_def
  by (elim with_payload_okE read_elims) (auto simp: wire_module_def name_wf_def)

definition module_entry :: "module_definition \<Rightarrow> module_wire" where
  "module_entry m = \<lparr>mw_base = md_base m, mw_name = md_name m\<rparr>"

text \<open>
  What adding a dictionary entry does: the entry is there afterwards, every other entry is as it
  was, and the dictionary stays within its limit.
\<close>

definition dictionary_step :: "('k, 'v) hash_map \<Rightarrow> 'k \<Rightarrow> 'v \<Rightarrow> ('k, 'v) hash_map \<Rightarrow> bool" where
  "dictionary_step m k v m' \<longleftrightarrow>
     (hash_map_get m k = None \<or> hash_map_get m k = Some v) \<and>
     (\<forall>k'. hash_map_get m' k' = (if k' = k then Some v else hash_map_get m k')) \<and>
     (hash_map_len m \<le> MAX_DICTIONARY_ENTRIES \<longrightarrow> hash_map_len m' \<le> MAX_DICTIONARY_ENTRIES)"

lemma dictionary_step_insert:
  assumes "hash_map_get m k = None" and "\<not> hash_map_len m \<ge> MAX_DICTIONARY_ENTRIES"
  shows "dictionary_step m k v (hash_map_insert (m\<lparr>hm_capacity := c\<rparr>) k v)"
  using assms hash_map_len_insert_le [of "m\<lparr>hm_capacity := c\<rparr>" k v]
  by (auto simp: dictionary_step_def)

lemma dictionary_step_same: "hash_map_get m k = Some v \<Longrightarrow> dictionary_step m k v m"
  by (auto simp: dictionary_step_def)

lemma decode_module_ok:
  assumes "decode_module H G r (self, w) = (Inr ev, (self', w'))"
  shows "\<exists>m. ev = event self' r None (P_ModuleDefinition m) \<and>
    pr_payload r = wire_module m \<and> name_wf MAX_MODULE_NAME_BYTES (md_name m) \<and>
    self' = self\<lparr>qc_modules := qc_modules self'\<rparr> \<and>
    dictionary_step (qc_modules self) (md_module_id m) (module_entry m) (qc_modules self')"
  using assms unfolding decode_module_def
  by (elim run_elims)
    (auto simp: bindR_Inr module_entry_def dictionary_step_same dictionary_step_insert
      split: option.splits if_splits
      dest!: module_payload_ok try_copy_string_result try_reserve_hash_map_result)

subsection \<open>Instruction definitions\<close>

text \<open>The dictionary keeps the wire form of a definition; this is the typed form it stands for.\<close>

definition register_view :: "register_wire \<Rightarrow> register_definition" where
  "register_view r = \<lparr>rd_slot = rw_slot r, rd_captured_width = rw_width r, rd_name = rw_name r\<rparr>"

definition definition_view :: "u32 \<Rightarrow> instruction_definition_wire \<Rightarrow> instruction_definition" where
  "definition_view i df =
     \<lparr>id_definition_id = i, id_opcode = idw_opcode df,
      id_read_mask = idw_read_mask df, id_write_mask = idw_write_mask df,
      id_pc_displacement = idw_displacement df, id_flags = idw_flags df,
      id_pc_kind = decode_pc_kind (idw_pc_kind df), id_condition = idw_condition df,
      id_slow_memory_path = (idw_slow_memory_path df = 1), id_mnemonic = idw_mnemonic df,
      id_operands = idw_operands df, id_disassembly = idw_disassembly df,
      id_reads = map register_view (idw_reads df), id_writes = map register_view (idw_writes df),
      id_memory_operands = map typed_memory_operand (idw_memory_operands df)\<rparr>"

definition operand_wire_wf :: "memory_operand_wire \<Rightarrow> bool" where
  "operand_wire_wf m \<longleftrightarrow>
     \<not> (mow_base m \<ge> word_of_nat MAX_GPR_COUNT \<and> mow_base m \<noteq> - 1) \<and>
     \<not> (mow_index m \<ge> word_of_nat MAX_GPR_COUNT \<and> mow_index m \<noteq> - 1) \<and>
     mow_extend m \<le> 4 \<and> mow_mode m \<le> 2 \<and> 1 \<le> mow_kind m \<and> mow_kind m \<le> 3 \<and> mow_writeback m \<le> 1"

text \<open>
  Wire forms that came out of the decoder have their enumerations in range, so the typed view
  loses nothing: two dictionary entries with the same view are equal.
\<close>

definition definition_wire_wf :: "instruction_definition_wire \<Rightarrow> bool" where
  "definition_wire_wf df \<longleftrightarrow> idw_pc_kind df \<le> 2 \<and> idw_slow_memory_path df \<le> 1 \<and>
     list_all operand_wire_wf (idw_memory_operands df)"

lemma forR_pure:
  assumes "forR f xs s = (Inr ys, t)" and "\<And>x s y t. f x s = (Inr y, t) \<Longrightarrow> y = g x"
  shows "ys = map g xs"
  using assms(1)
proof (induction xs arbitrary: s ys)
  case (Cons x xs)
  then show ?case by (auto simp: bindR_Inr dest: assms(2))
qed simp

lemma typed_register_result: "typed_register H G x w = (Inr y, w') \<Longrightarrow> y = register_view x"
  by (auto simp: typed_register_def bindR_Inr register_view_def dest!: try_copy_string_result)

lemma clone_register_result: "clone_register_wire H G x w = (Inr y, w') \<Longrightarrow> y = x"
  by (auto simp: clone_register_wire_def bindR_Inr dest!: try_copy_string_result)

lemma typed_definition_result:
  assumes "typed_definition H G i df w = (Inr d, w')"
  shows "d = definition_view i df"
proof -
  obtain reads w1 w2 writes w3 w4 where m: "forR (typed_register H G) (idw_reads df) w1 = (Inr reads, w2)"
      "forR (typed_register H G) (idw_writes df) w3 = (Inr writes, w4)"
    and d: "d = (definition_view i df)\<lparr>id_reads := reads, id_writes := writes\<rparr>"
    using assms unfolding typed_definition_def definition_view_def
    by (auto simp: bindR_Inr dest!: try_copy_string_result)
  have "reads = map register_view (idw_reads df)"
    using m(1) by (rule forR_pure) (rule typed_register_result)
  moreover have "writes = map register_view (idw_writes df)"
    using m(2) by (rule forR_pure) (rule typed_register_result)
  ultimately show ?thesis by (simp add: d definition_view_def)
qed

lemma clone_definition_result:
  assumes "clone_definition_wire H G df w = (Inr d, w')"
  shows "d = df"
proof -
  obtain reads w1 w2 writes w3 w4 where m: "forR (clone_register_wire H G) (idw_reads df) w1 = (Inr reads, w2)"
      "forR (clone_register_wire H G) (idw_writes df) w3 = (Inr writes, w4)"
    and d: "d = df\<lparr>idw_reads := reads, idw_writes := writes\<rparr>"
    using assms unfolding clone_definition_wire_def
    by (auto simp: bindR_Inr dest!: try_copy_string_result)
  have "reads = map (\<lambda>x. x) (idw_reads df)"
    using m(1) by (rule forR_pure) (rule clone_register_result)
  moreover have "writes = map (\<lambda>x. x) (idw_writes df)"
    using m(2) by (rule forR_pure) (rule clone_register_result)
  ultimately show ?thesis by (simp add: d)
qed

lemma decode_registers_loop_ok:
  "decode_registers_loop H G bits field k slots (c, w) = (Inr rs, (c', w')) \<Longrightarrow>
     pc_rest c = concat (map wire_register (map register_view rs)) @ pc_rest c' \<and>
     map rd_slot (map register_view rs) = map word_of_nat (filter (bit bits) slots) \<and>
     list_all register_wf (map register_view rs)"
proof (induction slots arbitrary: c w rs)
  case Nil
  then show ?case by simp
next
  case (Cons slot slots)
  show ?case
  proof (cases "bit bits slot")
    case False
    then show ?thesis using Cons by (simp add: and_exp_eq_0_iff_not_bit)
  next
    case True
    then obtain width c1 w1 name c2 w2 rs' where "pc_u8 (c, w) = (Inr width, (c1, w1))"
      and "bounded_utf8_guarded H G MAX_REGISTER_NAME_BYTES field (c1, w1) = (Inr name, (c2, w2))"
      and "width \<noteq> 0" "width \<le> 16" "name \<noteq> []"
      and "decode_registers_loop H G bits field k slots (c2, w2) = (Inr rs', (c', w'))"
      and "rs = \<lparr>rw_slot = word_of_nat slot, rw_width = width, rw_name = name\<rparr> # rs'"
      using Cons.prems by (auto simp: rm_ok and_exp_eq_0_iff_not_bit not_less split: if_splits)
    then show ?thesis
      using True Cons.IH [of c2 w2 rs']
      by (auto simp: wire_register_def register_wf_def register_view_def name_wf_def word_neq_0_conv
          dest!: read_ok)
  qed
qed

lemma bind_decode_registersE [read_elims]:
  assumes "bindR (decode_registers H G bits field k) f (c, w) = (Inr y, s)"
  obtains rs c1 w1 where "pc_rest c = concat (map wire_register (map register_view rs)) @ pc_rest c1"
    and "registers_wf bits (map register_view rs)" and "f rs (c1, w1) = (Inr y, s)"
  using assms unfolding decode_registers_def
  by (auto simp: bindR_Inr registers_wf_def dest!: decode_registers_loop_ok)

lemma decode_kind_wire: "1 \<le> v \<Longrightarrow> v \<le> 3 \<Longrightarrow> wire_direction (decode_kind v) = v \<and> decode_kind v \<noteq> MemUnknown"
proof -
  assume "1 \<le> v" "v \<le> 3"
  then have "v = 1 \<or> v = 2 \<or> v = 3"
    unfolding word_le_nat_alt word_unat_eq_iff by simp linarith
  then show ?thesis by (auto simp: decode_kind_def)
qed

lemma slot_decode:
  fixes v :: u8
  assumes "\<not> (v \<ge> word_of_nat MAX_GPR_COUNT \<and> v \<noteq> - 1)"
  shows "wire_slot (if v \<noteq> - 1 then Some v else None) = v"
    and "slot_wf (if v \<noteq> - 1 then Some v else None)"
proof -
  show "wire_slot (if v \<noteq> - 1 then Some v else None) = v"
    by (simp add: wire_slot_def)
  show "slot_wf (if v \<noteq> - 1 then Some v else None)"
    using assms by (cases "v = - 1") (simp_all add: slot_wf_def not_le)
qed

text \<open>The operand in its wire form, byte by byte.\<close>

lemma typed_memory_operand_wire:
  assumes "operand_wire_wf m"
  shows "wire_memory_operand (typed_memory_operand m) =
      mow_base m # mow_index m # mow_extend m # mow_mode m # mow_shift m # mow_kind m #
      mow_writeback m # to_le_bytes 4 (mow_size m) @ to_le_bytes 8 (mow_displacement m)"
    and "memory_operand_wf (typed_memory_operand m)"
proof -
  have r: "mow_extend m \<le> 4" "mow_mode m \<le> 2" "1 \<le> mow_kind m" "mow_kind m \<le> 3" "mow_writeback m \<le> 1"
    and b: "\<not> (mow_base m \<ge> word_of_nat MAX_GPR_COUNT \<and> mow_base m \<noteq> - 1)"
    and i: "\<not> (mow_index m \<ge> word_of_nat MAX_GPR_COUNT \<and> mow_index m \<noteq> - 1)"
    using assms by (simp_all add: operand_wire_wf_def)
  show "wire_memory_operand (typed_memory_operand m) =
      mow_base m # mow_index m # mow_extend m # mow_mode m # mow_shift m # mow_kind m #
      mow_writeback m # to_le_bytes 4 (mow_size m) @ to_le_bytes 8 (mow_displacement m)"
    using slot_decode(1) [OF b] slot_decode(1) [OF i] decode_kind_wire [OF r(3,4)]
    by (simp add: wire_memory_operand_def typed_memory_operand_def wire_decode r)
  show "memory_operand_wf (typed_memory_operand m)"
    using slot_decode(2) [OF b] slot_decode(2) [OF i] decode_kind_wire [OF r(3,4)]
    by (simp add: memory_operand_wf_def typed_memory_operand_def)
qed

lemma memory_operand_wire_ok:
  assumes "memory_operand_wire_payload r (c, w) = (Inr m, (c', w'))"
  shows "pc_rest c = wire_memory_operand (typed_memory_operand m) @ pc_rest c' \<and> operand_wire_wf m"
proof -
  have "pc_rest c = (mow_base m # mow_index m # mow_extend m # mow_mode m # mow_shift m # mow_kind m #
      mow_writeback m # to_le_bytes 4 (mow_size m) @ to_le_bytes 8 (mow_displacement m)) @ pc_rest c'
      \<and> operand_wire_wf m"
    using assms unfolding memory_operand_wire_payload_def
    by (elim read_elims) (clarsimp simp: operand_wire_wf_def not_less)
  then show ?thesis by (simp add: typed_memory_operand_wire)
qed

lemma bind_operand_wiresE [read_elims]:
  assumes "bindR (forR (\<lambda>_. memory_operand_wire_payload r) [0..<n]) f (c, w) = (Inr y, s)"
  obtains ops c1 w1 where "pc_rest c = concat (map wire_memory_operand (map typed_memory_operand ops)) @ pc_rest c1"
    and "length ops = n" and "list_all memory_operand_wf (map typed_memory_operand ops)"
    and "list_all operand_wire_wf ops" and "f ops (c1, w1) = (Inr y, s)"
proof -
  obtain ops c1 w1 where m: "forR (\<lambda>_. memory_operand_wire_payload r) [0..<n] (c, w) = (Inr ops, (c1, w1))"
    and f: "f ops (c1, w1) = (Inr y, s)"
    using assms by (auto simp: bindR_Inr)
  have "pc_rest c = concat (map (wire_memory_operand \<circ> typed_memory_operand) ops) @ pc_rest c1 \<and>
      list_all2 (\<lambda>_ m. memory_operand_wf (typed_memory_operand m) \<and> operand_wire_wf m) [0..<n] ops"
    using m by (rule forR_ok [rotated]) (auto dest: memory_operand_wire_ok typed_memory_operand_wire)
  with f that show thesis
    by (auto simp: list_all2_conv_all_nth list_all_length)
qed

lemma definition_payload_stream_ok:
  "definition_payload H G r w = (Inr (i, df), w') \<Longrightarrow>
     pr_payload r = wire_instruction_definition (definition_view i df) \<and>
     instruction_definition_wf (definition_view i df) \<and> definition_wire_wf df"
  unfolding definition_payload_def
  by (elim with_payload_okE read_elims)
    (auto simp: wire_instruction_definition_def instruction_definition_wf_def definition_view_def
      definition_wire_wf_def name_wf_def wire_decode not_less)

lemma decode_instruction_definition_ok:
  assumes "decode_instruction_definition H G r (self, w) = (Inr ev, (self', w'))"
  shows "\<exists>i df. ev = event self' r None (P_InstructionDefinition (definition_view i df)) \<and>
    pr_payload r = wire_instruction_definition (definition_view i df) \<and>
    instruction_definition_wf (definition_view i df) \<and> definition_wire_wf df \<and>
    self' = self\<lparr>qc_definitions := qc_definitions self'\<rparr> \<and>
    dictionary_step (qc_definitions self) i df (qc_definitions self')"
  using assms unfolding decode_instruction_definition_def
  by (elim run_elims)
    (auto simp: bindR_Inr split: option.splits if_splits
      dest!: definition_payload_stream_ok clone_definition_result typed_definition_result
        try_reserve_hash_map_result;
      blast intro: dictionary_step_insert dictionary_step_same)

subsection \<open>Instructions and memory accesses\<close>

lemma observation_ok:
  "observation H G detail x (c, w) = (Inr ob, (c', w')) \<Longrightarrow>
     pc_rest c = to_le_bytes 8 (ro_value ob) @ pc_rest c' \<and> observes (register_view x) ob"
  by (auto simp: observation_def rm_ok observes_def register_view_def dest!: read_ok try_copy_string_result)

lemma bind_observation_wiresE [read_elims]:
  assumes "bindR (forR (observation H G detail) rs) f (c, w) = (Inr y, s)"
  obtains os c1 w1 where "pc_rest c = wire_observations os @ pc_rest c1"
    and "list_all2 observes (map register_view rs) os" and "length os = length rs"
    and "f os (c1, w1) = (Inr y, s)"
proof -
  obtain os c1 w1 where m: "forR (observation H G detail) rs (c, w) = (Inr os, (c1, w1))"
    and f: "f os (c1, w1) = (Inr y, s)"
    using assms by (auto simp: bindR_Inr)
  have "pc_rest c = concat (map (\<lambda>r. to_le_bytes 8 (ro_value r)) os) @ pc_rest c1 \<and>
      list_all2 (\<lambda>x. observes (register_view x)) rs os"
    using m by (rule forR_ok [rotated]) (rule observation_ok)
  with f that show thesis
    by (simp add: wire_observations_def list_all2_lengthD list.rel_map)
qed

lemma instruction_payload_stream_ok:
  "instruction_payload H G self r w = (Inr (seq, i), w') \<Longrightarrow>
     pr_payload r = wire_instruction seq i \<and> hash_map_get (qc_modules self) (in_module_id i) \<noteq> None \<and>
     (\<exists>df. hash_map_get (qc_definitions self) (in_definition_id i) = Some df \<and>
       instruction_matches (definition_view (in_definition_id i) df) i)"
  unfolding instruction_payload_def
  by (elim with_payload_okE read_elims let_okE)
    (auto simp: wire_instruction_def instruction_matches_def definition_view_def hash_map_contains_key_def
      dest!: word_of_unat_eq)

lemma decode_instruction_ok:
  assumes "decode_instruction H G r (self, w) = (Inr ev, (self', w'))"
  shows "\<exists>i df. ev = event self' r (Some (qc_next_sequence self)) (P_Instruction i) \<and>
    pr_payload r = wire_instruction (qc_next_sequence self) i \<and>
    hash_map_get (qc_modules self) (in_module_id i) \<noteq> None \<and>
    hash_map_get (qc_definitions self) (in_definition_id i) = Some df \<and>
    instruction_matches (definition_view (in_definition_id i) df) i \<and>
    self' = self\<lparr>qc_next_sequence := qc_next_sequence self + 1,
      qc_instruction_count := qc_instruction_count self + 1\<rparr> \<and>
    unat (qc_next_sequence self') = unat (qc_next_sequence self) + 1 \<and>
    unat (qc_instruction_count self') = unat (qc_instruction_count self) + 1"
  using assms unfolding decode_instruction_def
  by (elim run_elims) (auto simp: checked_add_Some dest!: instruction_payload_stream_ok)

lemma decode_memory_state_ok:
  "decode_memory_state H G field k (c, w) = (Inr v, (c', w')) \<Longrightarrow>
     pc_rest c = wire_capture v @ pc_rest c' \<and> capture_wf v"
  by (auto simp: decode_memory_state_def rm_ok Let_def unat_eq_zero split: if_splits
      dest!: read_ok try_copy_bytes_result)

lemma bind_memory_stateE [read_elims]:
  assumes "bindR (decode_memory_state H G field k) f (c, w) = (Inr y, s)"
  obtains v c1 w1 where "pc_rest c = wire_capture v @ pc_rest c1" and "capture_wf v"
    and "f v (c1, w1) = (Inr y, s)"
  using assms by (auto simp: bindR_Inr dest!: decode_memory_state_ok)

lemma memory_payload_stream_ok:
  "memory_payload H G self r w = (Inr m, w') \<Longrightarrow>
     pr_payload r = wire_memory m \<and> memory_wf m \<and> hash_map_get (qc_modules self) (ma_module_id m) \<noteq> None"
  unfolding memory_payload_def
  by (elim with_payload_okE read_elims)
    (auto simp: wire_memory_def memory_wf_def wire_decode not_less hash_map_contains_key_def split: if_splits)

lemma decode_memory_ok:
  assumes "decode_memory H G r (self, w) = (Inr ev, (self', w'))"
  shows "\<exists>m. ev = event self r None (P_Memory m) \<and> pr_payload r = wire_memory m \<and> memory_wf m \<and>
    hash_map_get (qc_modules self) (ma_module_id m) \<noteq> None \<and> self' = self"
  using assms unfolding decode_memory_def
  by (elim run_elims) (auto dest!: memory_payload_stream_ok)

subsection \<open>Semantic events\<close>

definition semantic_event_payload :: "fragment_kind \<Rightarrow> semantic_event \<Rightarrow> event_payload" where
  "semantic_event_payload kind s = (case kind of
     FragCall \<Rightarrow> P_SemanticCall s | FragRule \<Rightarrow> P_SemanticRule s | FragError \<Rightarrow> P_SemanticError s)"

lemma build_semantic_event_eq:
  "build_semantic_event self r kind category name detail =
     event self r None (semantic_event_payload kind
       \<lparr>se_category = category, se_name = name, se_detail = detail, se_fragment_sequences = []\<rparr>)"
  by (simp add: build_semantic_event_def semantic_event_payload_def Let_def split: fragment_kind.split)

definition semantic_wf :: "fragment_kind \<Rightarrow> semantic_event \<Rightarrow> bool" where
  "semantic_wf kind s \<longleftrightarrow> (se_category s \<noteq> None \<longleftrightarrow> kind = FragCall) \<and>
     (\<forall>c. se_category s = Some c \<longrightarrow> name_wf MAX_CALL_CATEGORY_BYTES c) \<and>
     name_wf (name_limit kind) (se_name s) \<and> utf8_valid (se_detail s) \<and>
     length (se_detail s) \<le> unat (logical_maximum kind) \<and> se_fragment_sequences s = []"

lemma semantic_payload_ok:
  assumes "semantic_payload H G r kind w = (Inr (category, name, detail), w')"
  shows "pr_payload r = wire_category category @ wire_string name @ wire_string detail \<and>
    (category \<noteq> None \<longleftrightarrow> kind = FragCall) \<and>
    (\<forall>c. category = Some c \<longrightarrow> name_wf MAX_CALL_CATEGORY_BYTES c) \<and>
    name_wf (name_limit kind) name \<and> name_wf MAX_EVENT_DETAIL_BYTES detail"
  using assms unfolding semantic_payload_def
  by (cases "kind = FragCall")
    (auto simp: rm_ok wire_category_def name_wf_def dest!: with_payload_ok read_ok)

lemma decode_plain_semantic_ok:
  assumes "decode_semantic H G r kind (self, w) = (Inr v, (self', w'))" and "pr_flags r = 0"
  shows "\<exists>s. v = Some (event self r None (semantic_event_payload kind s)) \<and>
    pr_payload r = wire_semantic s \<and> semantic_wf kind s \<and> self' = self"
proof -
  obtain category name detail w1 where
    p: "semantic_payload H G r kind w = (Inr (category, name, detail), w1)"
    and v: "v = Some (build_semantic_event self r kind category name detail)" "self' = self"
    using assms unfolding decode_semantic_def by (auto simp: bindR_Inr)
  have "length detail \<le> unat (logical_maximum kind)"
    using semantic_payload_ok [OF p] by (auto simp: name_wf_def logical_maximum_def wire_constants)
  then show ?thesis
    using semantic_payload_ok [OF p] v
    by (auto simp: build_semantic_event_eq wire_semantic_def semantic_wf_def name_wf_def)
qed

subsection \<open>Fragments\<close>

record fragment =
  fr_event_id :: u64
  fr_total :: u32
  fr_index :: u16
  fr_count :: u16
  fr_category :: "u8 list option"
  fr_name :: "u8 list"
  fr_detail :: "u8 list"

definition wire_fragment :: "fragment \<Rightarrow> u8 list" where
  "wire_fragment f =
     to_le_bytes 8 (fr_event_id f) @ to_le_bytes 4 (fr_total f) @ to_le_bytes 2 (fr_index f) @
     to_le_bytes 2 (fr_count f) @ wire_category (fr_category f) @ wire_string (fr_name f) @
     wire_string (fr_detail f)"

definition chunk_limit :: "fragment_kind \<Rightarrow> usize" where
  "chunk_limit kind = (if kind = FragCall then MAX_CALL_CHUNK_DETAIL_BYTES else MAX_EVENT_CHUNK_DETAIL_BYTES)"

definition fragment_wf :: "fragment_kind \<Rightarrow> fragment \<Rightarrow> bool" where
  "fragment_wf kind f \<longleftrightarrow>
     (fr_category f \<noteq> None \<longleftrightarrow> kind = FragCall) \<and>
     (\<forall>c. fr_category f = Some c \<longrightarrow> length c \<le> MAX_CALL_CATEGORY_BYTES) \<and>
     length (fr_name f) \<le> name_limit kind \<and> length (fr_detail f) \<le> chunk_limit kind \<and>
     fr_event_id f \<noteq> 0 \<and> 2 \<le> fr_count f \<and> fr_index f < fr_count f \<and>
     fr_total f \<le> logical_maximum kind \<and> fr_detail f \<noteq> [] \<and>
     length (fr_detail f) < unat (fr_total f) \<and> unat (fr_count f) \<le> unat (fr_total f)"

lemma decode_bounded_raw_ok:
  "decode_bounded_raw H G maximum field co (c, w) = (Inr v, (c', w')) \<Longrightarrow>
     pc_rest c = wire_string v @ pc_rest c' \<and> length v \<le> maximum"
  by (auto simp: decode_bounded_raw_def rm_ok wire_string_def split: if_splits
      dest!: pc_u16_le_ok pc_take_ok try_copy_bytes_result)

lemma fragment_payload_ok:
  assumes "fragment_payload H G r kind w = (Inr (event_id, total_bytes, index, count, category, name, detail), w')"
  shows "pr_payload r = wire_fragment \<lparr>fr_event_id = event_id, fr_total = total_bytes, fr_index = index,
      fr_count = count, fr_category = category, fr_name = name, fr_detail = detail\<rparr> \<and>
    (category \<noteq> None \<longleftrightarrow> kind = FragCall) \<and>
    (\<forall>c. category = Some c \<longrightarrow> length c \<le> MAX_CALL_CATEGORY_BYTES) \<and>
    length name \<le> name_limit kind \<and> length detail \<le> chunk_limit kind"
  using assms unfolding fragment_payload_def
  by (cases "kind = FragCall")
    (auto simp: rm_ok wire_fragment_def wire_category_def chunk_limit_def
      dest!: with_payload_ok read_ok decode_bounded_raw_ok)

text \<open>The group a fragment joins: the pending one, or an empty one with the fragment's header.\<close>

definition opened_group :: "fragment_kind \<Rightarrow> physical_record \<Rightarrow> fragment \<Rightarrow> pending_fragment" where
  "opened_group kind r f =
     \<lparr>pf_kind = kind, pf_event_id = fr_event_id f, pf_total_detail_bytes = fr_total f,
      pf_chunk_count = fr_count f, pf_next_index = 0, pf_category = fr_category f,
      pf_name = fr_name f, pf_detail = [], pf_first_offset = pr_offset r,
      pf_first_ordinal = pr_ordinal r, pf_fragment_offsets = []\<rparr>"

definition joins :: "fragment_kind \<Rightarrow> fragment \<Rightarrow> pending_fragment \<Rightarrow> bool" where
  "joins kind f p \<longleftrightarrow> pf_kind p = kind \<and> pf_event_id p = fr_event_id f \<and>
     pf_total_detail_bytes p = fr_total f \<and> pf_chunk_count p = fr_count f \<and>
     pf_category p = fr_category f \<and> pf_name p = fr_name f \<and> pf_next_index p = fr_index f"

definition joined :: "physical_record \<Rightarrow> fragment \<Rightarrow> pending_fragment \<Rightarrow> pending_fragment" where
  "joined r f p = p\<lparr>pf_detail := pf_detail p @ fr_detail f,
     pf_fragment_offsets := pf_fragment_offsets p @ [pr_offset r],
     pf_next_index := saturating_add (pf_next_index p) 1\<rparr>"

lemma transposeR_Inr:
  "transposeR f v s = (Inr y, t) \<longleftrightarrow>
     (case v of None \<Rightarrow> y = None \<and> t = s | Some x \<Rightarrow> \<exists>z. y = Some z \<and> f x s = (Inr z, t))"
  by (auto simp: transposeR_def bindR_Inr split: option.splits)

lemma start_fragment_result:
  "start_fragment H G r kind event_id total_bytes index count category name w = (Inr p, w') \<Longrightarrow>
     index = 0 \<and> p = \<lparr>pf_kind = kind, pf_event_id = event_id, pf_total_detail_bytes = total_bytes,
      pf_chunk_count = count, pf_next_index = 0, pf_category = category,
      pf_name = name, pf_detail = [], pf_first_offset = pr_offset r,
      pf_first_ordinal = pr_ordinal r, pf_fragment_offsets = []\<rparr>"
  by (auto simp: start_fragment_def bindR_Inr transposeR_Inr split: if_splits option.splits
      dest!: try_copy_bytes_result)

definition assembled :: "'w qtrb_cursor \<Rightarrow> fragment_kind \<Rightarrow> pending_fragment \<Rightarrow> event_record" where
  "assembled self kind p =
     \<lparr>er_key = event_key_new (sid_artifact (qc_identity self)) TIMELINE_ID (pf_first_ordinal p)
        (pf_first_offset p) None (qc_tid self),
      er_provenance = Captured,
      er_payload = semantic_event_payload kind \<lparr>se_category = pf_category p, se_name = pf_name p,
        se_detail = pf_detail p, se_fragment_sequences = []\<rparr>,
      er_scope = ArtifactScope, er_fragment_source_offsets = pf_fragment_offsets p\<rparr>"

definition group_complete :: "pending_fragment \<Rightarrow> bool" where
  "group_complete p \<longleftrightarrow> length (pf_detail p) = unat (pf_total_detail_bytes p) \<and>
     length (pf_fragment_offsets p) = unat (pf_chunk_count p) \<and>
     (\<forall>c. pf_category p = Some c \<longrightarrow> utf8_valid c) \<and> utf8_valid (pf_name p) \<and> utf8_valid (pf_detail p)"

lemma from_utf8_Inr: "from_utf8 r msg bytes = Inr v \<longleftrightarrow> utf8_valid bytes \<and> v = bytes"
  by (auto simp: from_utf8_def)

lemma transpose_from_utf8:
  "transposeR (\<lambda>bytes. resultR (from_utf8 r msg bytes)) c s = (Inr v, t) \<Longrightarrow>
     v = c \<and> t = s \<and> (\<forall>x. c = Some x \<longrightarrow> utf8_valid x)"
  by (auto simp: transposeR_Inr rm_ok from_utf8_Inr split: option.splits)

lemma assemble_fragment_ok:
  assumes "assemble_fragment self r kind p s = (Inr ev, t)"
  shows "t = s \<and> group_complete p \<and> ev = assembled self kind p"
  using assms unfolding assemble_fragment_def
  by (auto simp: rm_ok from_utf8_Inr group_complete_def assembled_def build_semantic_event_eq event_def
      event_record_new_def event_record_with_fragment_source_offsets_def fragment_source_offsets_new_def Let_def
      split: if_splits option.splits dest!: transpose_from_utf8)

lemma bind_pendingE:
  assumes "bindR (case q of Some p \<Rightarrow> retR p | None \<Rightarrow> liftW m) k (self, w) = (Inr y, t)"
  obtains p w1 where "q = Some p \<or> q = None \<and> m w = (Inr p, w1)" and "k p (self, w1) = (Inr y, t)"
  using assms by (auto simp: bindR_Inr split: option.splits)

lemma unat_ucast_16_32: "unat (ucast (n :: u16) :: u32) = unat n"
  using unat_less_2p [of n] by (simp add: unsigned_ucast_eq take_bit_eq_mod)

lemma fragment_wf_intro:
  assumes "category \<noteq> None \<longleftrightarrow> kind = FragCall" "\<forall>c. category = Some c \<longrightarrow> length c \<le> MAX_CALL_CATEGORY_BYTES"
    "length name \<le> name_limit kind" "length detail \<le> chunk_limit kind"
    "\<not> (event_id = 0 \<or> count < 2 \<or> index \<ge> count \<or> total_bytes > logical_maximum kind
        \<or> detail = [] \<or> total_bytes \<le> word_of_nat (length detail) \<or> total_bytes < ucast count)"
  shows "fragment_wf kind \<lparr>fr_event_id = event_id, fr_total = total_bytes, fr_index = index,
      fr_count = count, fr_category = category, fr_name = name, fr_detail = detail\<rparr>"
proof -
  have "length detail < 2 ^ 32"
    using assms(4) by (simp add: chunk_limit_def wire_constants split: if_splits)
  then have "unat (word_of_nat (length detail) :: u32) = length detail"
    by (simp add: unat_of_nat)
  moreover have "unat (ucast count :: u32) = unat count"
    by (rule unat_ucast_16_32)
  ultimately show ?thesis
    using assms unfolding fragment_wf_def
    by (auto simp: word_le_nat_alt word_less_nat_alt not_le not_less)
qed

definition join_fragment ::
  "'w qtrb_cursor \<Rightarrow> physical_record \<Rightarrow> fragment_kind \<Rightarrow> fragment \<Rightarrow> pending_fragment \<Rightarrow>
   event_record option \<Rightarrow> 'w qtrb_cursor \<Rightarrow> bool" where
  "join_fragment self r kind f p v self' \<longleftrightarrow>
     joins kind f p \<and> length (pf_detail (joined r f p)) \<le> unat (fr_total f) \<and>
     (if pf_next_index (joined r f p) < fr_count f
      then v = None \<and> self' = self\<lparr>qc_pending := Some (joined r f p)\<rparr>
      else v = Some (assembled self kind (joined r f p)) \<and> group_complete (joined r f p) \<and>
        self' = self\<lparr>qc_pending := None\<rparr>)"

lemma append_fragment_ok:
  assumes "append_fragment self r kind (fr_event_id f, fr_total f, fr_index f, fr_count f, fr_category f,
      fr_name f, fr_detail f) p (self\<lparr>qc_pending := None\<rparr>, w) = (Inr v, (self', w'))"
  shows "join_fragment self r kind f p v self'"
  using assms unfolding append_fragment_def join_fragment_def joins_def joined_def Let_def prod.case
  by (auto simp: bindR_Inr split: if_splits dest!: assemble_fragment_ok)

lemma decode_fragment_ok:
  assumes "decode_fragment H G r kind (self, w) = (Inr v, (self', w'))"
  shows "\<exists>f. pr_payload r = wire_fragment f \<and> fragment_wf kind f \<and>
    (qc_pending self = None \<longrightarrow> fr_index f = 0) \<and>
    join_fragment self r kind f
      (case qc_pending self of Some p \<Rightarrow> p | None \<Rightarrow> opened_group kind r f) v self'"
proof -
  obtain event_id total_bytes index count category name detail p w1 w2 where
    pay: "fragment_payload H G r kind w = (Inr (event_id, total_bytes, index, count, category, name, detail), w1)"
    and meta: "\<not> (event_id = 0 \<or> count < 2 \<or> index \<ge> count \<or> total_bytes > logical_maximum kind
        \<or> detail = [] \<or> total_bytes \<le> word_of_nat (length detail) \<or> total_bytes < ucast count)"
    and p: "qc_pending self = Some p \<or> qc_pending self = None \<and>
        start_fragment H G r kind event_id total_bytes index count category name w1 = (Inr p, w2)"
    and rest: "append_fragment self r kind (event_id, total_bytes, index, count, category, name, detail) p
       (self\<lparr>qc_pending := None\<rparr>, w2) = (Inr v, (self', w'))"
    using assms unfolding decode_fragment_def
    by (elim run_elims bind_pendingE) (hypsubst+, rule that, assumption+)
  define f where "f = \<lparr>fr_event_id = event_id, fr_total = total_bytes, fr_index = index,
      fr_count = count, fr_category = category, fr_name = name, fr_detail = detail\<rparr>"
  have wf: "fragment_wf kind f"
    using fragment_payload_ok [OF pay] meta unfolding f_def by (intro fragment_wf_intro) auto
  have old: "p = (case qc_pending self of Some p \<Rightarrow> p | None \<Rightarrow> opened_group kind r f)"
    "qc_pending self = None \<longrightarrow> fr_index f = 0"
    using p by (auto simp: opened_group_def f_def dest!: start_fragment_result)
  have "join_fragment self r kind f p v self'"
    by (rule append_fragment_ok) (use rest in \<open>simp add: f_def\<close>)
  then have "join_fragment self r kind f
      (case qc_pending self of Some p \<Rightarrow> p | None \<Rightarrow> opened_group kind r f) v self'"
    by (simp only: old(1))
  moreover have "pr_payload r = wire_fragment f"
    using fragment_payload_ok [OF pay] by (simp add: f_def)
  ultimately show ?thesis
    using wf old(2) by (intro exI [of _ f] conjI)
qed

lemma decode_chunk_semantic_ok:
  assumes "decode_semantic H G r kind (self, w) = (Inr v, (self', w'))" and "pr_flags r \<noteq> 0"
  shows "(kind = FragCall \<or> hdr_minor (qc_header self) \<noteq> 0) \<and>
    decode_fragment H G r kind (self, w) = (Inr v, (self', w'))"
  using assms unfolding decode_semantic_def by (auto split: if_splits)

subsection \<open>Terminal records\<close>

definition wire_trace_end :: "termination_event \<Rightarrow> u8 list" where
  "wire_trace_end t = 1 # to_le_bytes 8 (case te_return_value t of Some v \<Rightarrow> v | None \<Rightarrow> 0) @
     to_le_bytes 8 (te_elapsed_ms t) @ wire_metrics (te_metrics t)"

definition wire_trace_stop :: "u8 \<Rightarrow> termination_event \<Rightarrow> u8 list" where
  "wire_trace_stop code t = code # replicate 7 0 @ to_le_bytes 8 (te_elapsed_ms t) @ wire_metrics (te_metrics t)"

text \<open>The terminal record of a type says this about the end of the trace.\<close>

definition terminal_record :: "record_type \<Rightarrow> u8 list \<Rightarrow> termination_event \<Rightarrow> bool" where
  "terminal_record rt payload t \<longleftrightarrow> te_intent t = None \<and>
     (if rt = RT_TraceEnd
      then te_kind t = Completed \<and> te_reason t = None \<and> te_return_value t \<noteq> None \<and> payload = wire_trace_end t
      else rt = RT_TraceStop \<and> te_kind t = Stopped \<and> te_return_value t = None \<and>
        (\<exists>code. 1 \<le> code \<and> code \<le> 4 \<and> te_reason t = Some (stop_reason code) \<and> payload = wire_trace_stop code t))"

lemma wire_metrics_of:
  assumes "length metrics = 10"
  shows "wire_metrics (metrics_of metrics) = concat (map (to_le_bytes 8) metrics)"
proof -
  have "metrics = map (\<lambda>i. metrics ! i) [0..<10]"
    using assms by (simp add: map_nth flip: assms)
  then obtain a b c d e f g h i j where "metrics = [a, b, c, d, e, f, g, h, i, j]"
    by (simp add: upt_rec)
  then show ?thesis
    by (simp add: wire_metrics_def metrics_of_def)
qed

lemma decode_metrics_okE [read_elims]:
  assumes "bindR decode_metrics k (c, w) = (Inr y, s)"
  obtains metrics c1 w1 where "length metrics = 10"
    and "pc_rest c = wire_metrics (metrics_of metrics) @ pc_rest c1" and "k metrics (c1, w1) = (Inr y, s)"
proof -
  obtain metrics c1 w1 where m: "forR (\<lambda>_. pc_u64_le) [0..<10] (c, w) = (Inr metrics, (c1, w1))"
    and k: "k metrics (c1, w1) = (Inr y, s)"
    using assms by (auto simp: decode_metrics_def bindR_Inr)
  have "pc_rest c = concat (map (to_le_bytes 8) metrics) @ pc_rest c1 \<and>
      list_all2 (\<lambda>_ _. True) [0..<10] metrics"
    using m by (rule forR_ok [rotated]) (auto dest!: read_ok)
  then have "length metrics = 10" and "pc_rest c = concat (map (to_le_bytes 8) metrics) @ pc_rest c1"
    by (auto dest: list_all2_lengthD)
  with k that show thesis
    by (simp add: wire_metrics_of)
qed

lemma transpose_copy_string:
  assumes "bindR (transposeR (\<lambda>v. liftW (try_copy_string H G v detail)) o') k (self, w) = (Inr y, t)"
  obtains w1 where "k o' (self, w1) = (Inr y, t)"
  using assms by (cases o') (auto simp: bindR_Inr transposeR_Inr dest!: try_copy_string_result)

lemma accept_terminal_ok:
  assumes "accept_terminal H G r metrics draft (self, w) = (Inr ev, (self', w'))"
  shows "\<exists>t. ev = event self r None (P_Termination t) \<and>
    t = \<lparr>te_kind = td_kind draft, te_reason = td_reason draft, te_return_value = td_return_value draft,
      te_elapsed_ms = td_elapsed_ms draft, te_metrics = metrics_of metrics, te_intent = None\<rparr> \<and>
    tm_instructions (te_metrics t) = qc_instruction_count self \<and>
    tm_encoded_bytes (te_metrics t) = qc_offset self \<and>
    tm_effective_buffer_bytes (te_metrics t) = qc_effective_buffer_bytes self \<and>
    qc_offset self = src_len (qc_source self) w \<and>
    self' = self\<lparr>qc_termination := Some t, qc_terminal_seen := True\<rparr>"
  using assms unfolding accept_terminal_def
  by (elim run_elims transpose_copy_string) (auto simp: metrics_of_def event_def)

lemma trace_end_payload_ok:
  assumes "trace_end_payload r w = (Inr (success, ret, elapsed, metrics), w')"
  shows "pr_payload r = success # to_le_bytes 8 ret @ to_le_bytes 8 elapsed @ wire_metrics (metrics_of metrics)"
  using assms unfolding trace_end_payload_def by (elim with_payload_okE read_elims) auto

lemma trace_stop_payload_ok:
  assumes "trace_stop_payload r w = (Inr (reason, reserved, elapsed, metrics), w')"
  shows "pr_payload r = reason # reserved @ to_le_bytes 8 elapsed @ wire_metrics (metrics_of metrics)"
  using assms unfolding trace_stop_payload_def by (elim with_payload_okE read_elims) auto

definition terminal_step ::
  "'w qtrb_cursor \<Rightarrow> u64 \<Rightarrow> physical_record \<Rightarrow> record_type \<Rightarrow> event_record \<Rightarrow> 'w qtrb_cursor \<Rightarrow> bool" where
  "terminal_step self source_len r rt ev self' \<longleftrightarrow>
     (\<exists>t. ev = event self r None (P_Termination t) \<and> terminal_record rt (pr_payload r) t \<and>
      tm_instructions (te_metrics t) = qc_instruction_count self \<and>
      tm_encoded_bytes (te_metrics t) = qc_offset self \<and>
      tm_effective_buffer_bytes (te_metrics t) = qc_effective_buffer_bytes self \<and>
      qc_offset self = source_len \<and>
      self' = self\<lparr>qc_termination := Some t, qc_terminal_seen := True\<rparr>)"

lemma decode_trace_end_ok:
  assumes "decode_trace_end H G r (self, w) = (Inr ev, (self', w'))"
  shows "\<exists>w1. terminal_step self (src_len (qc_source self) w1) r RT_TraceEnd ev self'"
proof -
  obtain ret elapsed metrics w1 w2 where p: "trace_end_payload r w = (Inr (1, ret, elapsed, metrics), w1)"
    and a: "accept_terminal H G r metrics \<lparr>td_kind = Completed, td_reason = None,
        td_return_value = Some ret, td_elapsed_ms = elapsed\<rparr> (self, w1) = (Inr ev, (self', w2))"
    using assms unfolding decode_trace_end_def by (elim run_elims) auto
  show ?thesis
    using trace_end_payload_ok [OF p] accept_terminal_ok [OF a]
    by (auto simp: terminal_step_def terminal_record_def wire_trace_end_def)
qed

lemma decode_trace_stop_ok:
  assumes "decode_trace_stop H G r (self, w) = (Inr ev, (self', w'))"
  shows "(\<exists>w1. terminal_step self (src_len (qc_source self) w1) r RT_TraceStop ev self') \<and>
    hdr_minor (qc_header self) = 2 \<and> hdr_required_features (qc_header self) AND STOPPED_TERMINAL_FEATURE \<noteq> 0"
proof -
  obtain code elapsed metrics w1 w2 w3 where
    p: "trace_stop_payload r w = (Inr (code, replicate 7 0, elapsed, metrics), w1)"
    and code: "1 \<le> code \<and> code \<le> 4"
    and h: "hdr_minor (qc_header self) = 2" "hdr_required_features (qc_header self) AND STOPPED_TERMINAL_FEATURE \<noteq> 0"
    and a: "accept_terminal H G r metrics \<lparr>td_kind = Stopped, td_reason = Some (stop_reason code),
        td_return_value = None, td_elapsed_ms = elapsed\<rparr> (self, w2) = (Inr ev, (self', w3))"
    using assms unfolding decode_trace_stop_def
    by (elim run_elims) (auto simp: eval_nat_numeral dest!: try_copy_string_result)
  show ?thesis
    using trace_stop_payload_ok [OF p] code accept_terminal_ok [OF a] h
    by (auto simp: terminal_step_def terminal_record_def wire_trace_stop_def)
qed

lemma opaque_event_ok:
  assumes "opaque_event r (self, w) = (Inr ev, (self', w'))"
  shows "ev = event self r None (P_OpaqueOptional \<lparr>oo_record_type = pr_raw_type r,
      oo_flags = pr_flags r, oo_bytes = pr_payload r\<rparr>) \<and> self' = self\<lparr>qc_counters := qc_counters self'\<rparr>"
  using assms unfolding opaque_event_def by (auto simp: event_def event_record_new_def)

subsection \<open>The end of the stream\<close>

definition drained_completeness :: "'w qtrb_cursor \<Rightarrow> completeness_range list" where
  "drained_completeness self =
     List.map_filter (\<lambda>c. c) [source_bytes_with_cause 0 (qc_offset self) Captured C_Retained] @
     rv_items (qc_completeness self) @
     (if qc_terminal_seen self then []
      else List.map_filter (\<lambda>c. c) [source_bytes_with_cause (qc_offset self) (qc_offset self) Unknown C_MissingTerminal])"

lemma bind_validateE:
  assumes "bindR validate_source_identity k (self, w) = (Inr y, t)"
  obtains "src_len (qc_source self) w = sid_source_bytes (qc_identity self)" and "k () (self, w) = (Inr y, t)"
  using assms by (auto simp: validate_source_identity_def bindR_Inr split: if_splits)

lemma finish_stream_ok:
  assumes "finish_stream H G (self, w) = (Inr v, (self', w'))"
  shows "v = None \<and> qc_began self \<and> qc_pending self = None \<and>
    (qc_terminal_seen self \<or> qc_mode self = RecoverablePartial) \<and>
    self' = self\<lparr>qc_completeness := qc_completeness self', qc_drained := True\<rparr> \<and>
    rv_items (qc_completeness self') = drained_completeness self \<and>
    src_len (qc_source self) w = sid_source_bytes (qc_identity self)"
  using assms unfolding finish_stream_def push_completeness_def insert_completeness_def
  by (elim run_elims bind_validateE)
    (auto simp: bindR_Inr drained_completeness_def map_filter_simps
      split: if_splits open_mode.splits option.splits)

end
