(* ===== verification/Qtrb_Spec.thy ===== *)
theory Qtrb_Spec
  imports Qtrb_Trace
begin

text \<open>
  The abstract specification of a QTRB stream: which physical records may follow which, and which
  events they stand for. Its state is the list of events emitted so far and the fragments of a
  logical event that is not complete yet; nothing of the cursor (hash maps, counters, offsets,
  allocations) appears in it. The theorems of this theory are about every stream the
  specification allows; \<open>Qtrb_Refinement\<close> shows that the cursor implements it.
\<close>

section \<open>What the events so far say\<close>

definition payloads :: "event_record list \<Rightarrow> event_payload list" where
  "payloads evs = map er_payload evs"

definition trace_begin :: "event_record list \<Rightarrow> begin_metadata option" where
  "trace_begin evs = (case payloads evs of P_Begin b # _ \<Rightarrow> Some b | _ \<Rightarrow> None)"

definition trace_tid :: "event_record list \<Rightarrow> u32 option" where
  "trace_tid evs = Option.bind (trace_begin evs) bm_tid"

definition instruction_total :: "event_record list \<Rightarrow> nat" where
  "instruction_total evs = length (filter (\<lambda>p. \<exists>i. p = P_Instruction i) (payloads evs))"

definition known_module :: "event_record list \<Rightarrow> module_definition \<Rightarrow> bool" where
  "known_module evs m \<longleftrightarrow> P_ModuleDefinition m \<in> set (payloads evs)"

definition known_definition :: "event_record list \<Rightarrow> instruction_definition \<Rightarrow> bool" where
  "known_definition evs d \<longleftrightarrow> P_InstructionDefinition d \<in> set (payloads evs)"

definition terminated :: "event_record list \<Rightarrow> bool" where
  "terminated evs \<longleftrightarrow> (\<exists>t. P_Termination t \<in> set (payloads evs))"

definition captured :: "artifact_digest \<Rightarrow> u32 option \<Rightarrow> physical_record \<Rightarrow> u64 option \<Rightarrow> event_payload \<Rightarrow> event_record" where
  "captured a tid r seq p =
     event_record_new (event_key_new a TIMELINE_ID (pr_ordinal r) (pr_offset r) seq tid) Captured p"

text \<open>The same, when one event is added.\<close>

lemma payloads_append [simp]: "payloads (evs @ evs') = payloads evs @ payloads evs'"
  by (simp add: payloads_def)

lemma payloads_Cons [simp]: "payloads (e # evs) = er_payload e # payloads evs"
  and payloads_Nil [simp]: "payloads [] = []"
  by (simp_all add: payloads_def)

lemma payloads_eq_Nil [simp]: "payloads evs = [] \<longleftrightarrow> evs = []"
  by (simp add: payloads_def)

lemma trace_begin_append:
  "evs \<noteq> [] \<Longrightarrow> trace_begin (evs @ evs') = trace_begin evs"
  by (cases evs) (simp_all add: trace_begin_def)

lemma trace_tid_append: "evs \<noteq> [] \<Longrightarrow> trace_tid (evs @ evs') = trace_tid evs"
  by (simp add: trace_tid_def trace_begin_append)

lemma instruction_total_snoc:
  "instruction_total (evs @ [e]) =
     (case er_payload e of P_Instruction i \<Rightarrow> Suc (instruction_total evs) | _ \<Rightarrow> instruction_total evs)"
  by (auto simp: instruction_total_def split: event_payload.split)

lemma known_module_snoc:
  "known_module (evs @ [e]) m \<longleftrightarrow> known_module evs m \<or> er_payload e = P_ModuleDefinition m"
  by (auto simp: known_module_def)

lemma known_definition_snoc:
  "known_definition (evs @ [e]) d \<longleftrightarrow> known_definition evs d \<or> er_payload e = P_InstructionDefinition d"
  by (auto simp: known_definition_def)

lemma terminated_snoc: "terminated (evs @ [e]) \<longleftrightarrow> terminated evs \<or> (\<exists>t. er_payload e = P_Termination t)"
  by (simp add: terminated_def) metis

lemma captured_simps [simp]:
  "er_payload (captured a tid r seq p) = p"
  "er_fragment_source_offsets (captured a tid r seq p) = []"
  "er_key (captured a tid r seq p) = event_key_new a TIMELINE_ID (pr_ordinal r) (pr_offset r) seq tid"
  "er_provenance (captured a tid r seq p) = Captured" "er_scope (captured a tid r seq p) = ArtifactScope"
  by (simp_all add: captured_def event_record_new_def)

lemmas snoc_simps = instruction_total_snoc known_module_snoc known_definition_snoc terminated_snoc
  trace_begin_append trace_tid_append

section \<open>Fragment groups\<close>

type_synonym fragment_record = "physical_record \<times> fragment"

definition fragment_head :: "fragment \<Rightarrow> u64 \<times> u32 \<times> u16 \<times> u8 list option \<times> u8 list" where
  "fragment_head f = (fr_event_id f, fr_total f, fr_count f, fr_category f, fr_name f)"

definition group_detail :: "fragment_record list \<Rightarrow> u8 list" where
  "group_detail frs = concat (map (\<lambda>(r, f). fr_detail f) frs)"

definition fragment_follows :: "stream_header \<Rightarrow> fragment_kind \<Rightarrow> fragment_record list \<Rightarrow> fragment_record \<Rightarrow> bool" where
  "fragment_follows h kind frs fr \<longleftrightarrow> (case fr of (r, f) \<Rightarrow>
     pr_record_type r = Some (fragment_record_type kind) \<and> pr_flags r = CHUNK_FLAG \<and>
     pr_payload r = wire_fragment f \<and> fragment_wf kind f \<and>
     (kind = FragCall \<or> hdr_minor h \<noteq> 0) \<and>
     (\<forall>(r', f') \<in> set frs. pr_record_type r' = pr_record_type r \<and> fragment_head f' = fragment_head f) \<and>
     unat (fr_index f) = length frs \<and> length (group_detail (frs @ [fr])) \<le> unat (fr_total f))"

definition group_text :: "fragment_record list \<Rightarrow> bool" where
  "group_text frs \<longleftrightarrow> (case frs of [] \<Rightarrow> False | (r, f) # _ \<Rightarrow>
     length (group_detail frs) = unat (fr_total f) \<and> length frs = unat (fr_count f) \<and>
     (\<forall>c. fr_category f = Some c \<longrightarrow> utf8_valid c) \<and> utf8_valid (fr_name f) \<and>
     utf8_valid (group_detail frs))"

definition group_event :: "artifact_digest \<Rightarrow> u32 option \<Rightarrow> fragment_kind \<Rightarrow> fragment_record list \<Rightarrow> event_record" where
  "group_event a tid kind frs = (case hd frs of (r, f) \<Rightarrow>
     (captured a tid r None (semantic_event_payload kind
        \<lparr>se_category = fr_category f, se_name = fr_name f, se_detail = group_detail frs,
         se_fragment_sequences = []\<rparr>))\<lparr>er_fragment_source_offsets := map (pr_offset \<circ> fst) frs\<rparr>)"

section \<open>Steps\<close>

definition consistent_module :: "event_record list \<Rightarrow> module_definition \<Rightarrow> bool" where
  "consistent_module evs m \<longleftrightarrow> (\<forall>m'. known_module evs m' \<and> md_module_id m' = md_module_id m \<longrightarrow> m' = m)"

definition consistent_definition :: "event_record list \<Rightarrow> instruction_definition \<Rightarrow> bool" where
  "consistent_definition evs d \<longleftrightarrow>
     (\<forall>d'. known_definition evs d' \<and> id_definition_id d' = id_definition_id d \<longrightarrow> d' = d)"

definition terminal_matches :: "event_record list \<Rightarrow> u64 \<Rightarrow> termination_event \<Rightarrow> bool" where
  "terminal_matches evs end_offset t \<longleftrightarrow>
     unat (tm_instructions (te_metrics t)) = instruction_total evs \<and>
     tm_encoded_bytes (te_metrics t) = end_offset \<and>
     (\<forall>b. trace_begin evs = Some b \<longrightarrow>
        tm_effective_buffer_bytes (te_metrics t) = bm_effective_buffer_bytes b)"

text \<open>The event a record that is no fragment stands for, after the events \<open>evs\<close>; the record ends at \<open>end_offset\<close>.\<close>

inductive record_event ::
  "stream_header \<Rightarrow> event_record list \<Rightarrow> physical_record \<Rightarrow> u64 \<Rightarrow> u64 option \<Rightarrow> u32 option \<Rightarrow> event_payload \<Rightarrow> bool"
  for h evs r end_offset where
  ev_begin: "evs = [] \<Longrightarrow> pr_record_type r = Some RT_TraceBegin \<Longrightarrow> pr_payload r = wire_begin b \<Longrightarrow>
     begin_wf b \<Longrightarrow> wire_profile (bm_profile b) = hdr_profile h \<Longrightarrow>
     record_event h evs r end_offset None (bm_tid b) (P_Begin b)"
| ev_module: "evs \<noteq> [] \<Longrightarrow> pr_record_type r = Some RT_ModuleDefinition \<Longrightarrow> pr_payload r = wire_module m \<Longrightarrow>
     name_wf MAX_MODULE_NAME_BYTES (md_name m) \<Longrightarrow> consistent_module evs m \<Longrightarrow>
     record_event h evs r end_offset None (trace_tid evs) (P_ModuleDefinition m)"
| ev_definition: "evs \<noteq> [] \<Longrightarrow> pr_record_type r = Some RT_InstructionDefinition \<Longrightarrow>
     pr_payload r = wire_instruction_definition d \<Longrightarrow> instruction_definition_wf d \<Longrightarrow>
     consistent_definition evs d \<Longrightarrow>
     record_event h evs r end_offset None (trace_tid evs) (P_InstructionDefinition d)"
| ev_instruction: "evs \<noteq> [] \<Longrightarrow> pr_record_type r = Some RT_Instruction \<Longrightarrow>
     unat seq = Suc (instruction_total evs) \<Longrightarrow> pr_payload r = wire_instruction seq i \<Longrightarrow>
     known_module evs m \<Longrightarrow> md_module_id m = in_module_id i \<Longrightarrow>
     known_definition evs d \<Longrightarrow> id_definition_id d = in_definition_id i \<Longrightarrow> instruction_matches d i \<Longrightarrow>
     record_event h evs r end_offset (Some seq) (trace_tid evs) (P_Instruction i)"
| ev_memory: "evs \<noteq> [] \<Longrightarrow> pr_record_type r = Some RT_Memory \<Longrightarrow> pr_payload r = wire_memory x \<Longrightarrow>
     memory_wf x \<Longrightarrow> known_module evs m \<Longrightarrow> md_module_id m = ma_module_id x \<Longrightarrow>
     record_event h evs r end_offset None (trace_tid evs) (P_Memory x)"
| ev_semantic: "evs \<noteq> [] \<Longrightarrow> pr_record_type r = Some (fragment_record_type kind) \<Longrightarrow> pr_payload r = wire_semantic s \<Longrightarrow> semantic_wf kind s \<Longrightarrow>
     record_event h evs r end_offset None (trace_tid evs) (semantic_event_payload kind s)"
| ev_terminal: "evs \<noteq> [] \<Longrightarrow> pr_record_type r = Some rt \<Longrightarrow> terminal_record rt (pr_payload r) t \<Longrightarrow>
     (rt = RT_TraceStop \<Longrightarrow> hdr_minor h = 2 \<and> hdr_required_features h AND STOPPED_TERMINAL_FEATURE \<noteq> 0) \<Longrightarrow>
     terminal_matches evs end_offset t \<Longrightarrow>
     record_event h evs r end_offset None (trace_tid evs) (P_Termination t)"
| ev_opaque: "evs \<noteq> [] \<Longrightarrow> pr_record_type r = None \<Longrightarrow>
     OPTIONAL_RECORD_TYPE_MIN \<le> pr_raw_type r \<Longrightarrow> 1 \<le> hdr_minor h \<Longrightarrow>
     record_event h evs r end_offset None (trace_tid evs)
       (P_OpaqueOptional \<lparr>oo_record_type = pr_raw_type r, oo_flags = pr_flags r, oo_bytes = pr_payload r\<rparr>)"

text \<open>One record extends the trace: it is an event, it joins an open group, or it completes one.\<close>

inductive spec_step ::
  "artifact_digest \<Rightarrow> stream_header \<Rightarrow> event_record list \<Rightarrow> fragment_record list \<Rightarrow> physical_record \<Rightarrow> u64 \<Rightarrow>
   event_record list \<Rightarrow> fragment_record list \<Rightarrow> bool"
  for a h evs where
  emit: "record_event h evs r end_offset seq tid p \<Longrightarrow> pr_flags r = 0 \<Longrightarrow> \<not> terminated evs \<Longrightarrow>
     spec_step a h evs [] r end_offset (evs @ [captured a tid r seq p]) []"
| hold: "evs \<noteq> [] \<Longrightarrow> \<not> terminated evs \<Longrightarrow> fragment_follows h kind frs (r, f) \<Longrightarrow>
     Suc (length frs) < unat (fr_count f) \<Longrightarrow>
     spec_step a h evs frs r end_offset evs (frs @ [(r, f)])"
| join: "evs \<noteq> [] \<Longrightarrow> \<not> terminated evs \<Longrightarrow> fragment_follows h kind frs (r, f) \<Longrightarrow>
     group_text (frs @ [(r, f)]) \<Longrightarrow>
     spec_step a h evs frs r end_offset (evs @ [group_event a (trace_tid evs) kind (frs @ [(r, f)])]) []"

section \<open>Streams\<close>

text \<open>
  A record of the source: its header and payload are the bytes at its offset, and the next record
  starts at \<open>end_offset\<close>.
\<close>

definition stored :: "'w read_at_source \<Rightarrow> physical_record \<Rightarrow> u64 \<Rightarrow> bool" where
  "stored S r end_offset \<longleftrightarrow> pr_record_type r = record_type_from_raw (pr_raw_type r) \<and>
     (\<exists>n :: u32. source_bytes_at S (pr_offset r) 8
          (to_le_bytes 2 (pr_raw_type r) @ to_le_bytes 2 (pr_flags r) @ to_le_bytes 4 n) \<and>
        source_bytes_at S (pr_offset r + 8) (unat n) (pr_payload r) \<and>
        unat end_offset = unat (pr_offset r) + 8 + unat n)"

inductive stream_run ::
  "'w read_at_source \<Rightarrow> artifact_digest \<Rightarrow> stream_header \<Rightarrow> u64 \<Rightarrow> physical_record list \<Rightarrow>
   event_record list \<Rightarrow> fragment_record list \<Rightarrow> bool"
  for S a h where
  run_start: "stream_run S a h (word_of_nat STREAM_HEADER_BYTES) [] [] []"
| run_step: "stream_run S a h offset recs evs frs \<Longrightarrow> stored S r end_offset \<Longrightarrow> pr_offset r = offset \<Longrightarrow>
     unat (pr_ordinal r) = length recs \<Longrightarrow> spec_step a h evs frs r end_offset evs' frs' \<Longrightarrow>
     stream_run S a h end_offset (recs @ [r]) evs' frs'"

lemma spec_step_length:
  "spec_step a h evs frs r e evs' frs' \<Longrightarrow> length evs' \<le> Suc (length evs)"
  by (erule spec_step.cases) auto

lemma stream_run_length: "stream_run S a h offset recs evs frs \<Longrightarrow> length evs \<le> length recs"
  by (induction rule: stream_run.induct) (auto dest: spec_step_length)

section \<open>One event at a time\<close>

text \<open>
  Most properties of a trace do not mention the records: they are proved by induction over the
  events, where each event is one the specification allows after the events before it.
\<close>

inductive emitted :: "artifact_digest \<Rightarrow> stream_header \<Rightarrow> event_record list \<Rightarrow> event_record \<Rightarrow> bool" for a h evs where
  emitted_record: "record_event h evs r e seq tid p \<Longrightarrow> pr_flags r = 0 \<Longrightarrow> emitted a h evs (captured a tid r seq p)"
| emitted_group: "evs \<noteq> [] \<Longrightarrow> group_text frs \<Longrightarrow> emitted a h evs (group_event a (trace_tid evs) kind frs)"

lemma spec_step_emitted:
  assumes "spec_step a h evs frs r e evs' frs'"
  shows "\<not> terminated evs \<and> (evs' = evs \<or> (\<exists>ev. evs' = evs @ [ev] \<and> emitted a h evs ev))"
  using assms
proof cases
  case (emit seq tid p)
  then show ?thesis using emitted_record by blast
next
  case (join kind f)
  then show ?thesis using emitted_group by blast
qed simp

lemma trace_induct [consumes 1, case_names Nil Snoc]:
  assumes "stream_run S a h offset recs evs frs"
    and "P []" and "\<And>evs ev. P evs \<Longrightarrow> \<not> terminated evs \<Longrightarrow> emitted a h evs ev \<Longrightarrow> P (evs @ [ev])"
  shows "P evs"
  using assms(1)
proof (induction rule: stream_run.induct)
  case run_start
  show ?case by (rule assms(2))
next
  case (run_step offset recs evs frs r end_offset evs' frs')
  then show ?case using spec_step_emitted assms(3) by blast
qed

end
