(* ===== verification/Qtrb_Refinement.thy ===== *)
theory Qtrb_Refinement
  imports Qtrb_Spec
begin

text \<open>
  The QTRB event cursor refines the abstract specification: the abstraction relation \<open>tracks\<close>
  reads the cursor's fields off the events emitted so far, every record the cursor accepts is a
  step of the specification, and a run of \<open>next_event\<close> is a run of the specification.
\<close>

section \<open>The abstraction relation\<close>

definition group_kind :: "fragment_record list \<Rightarrow> fragment_kind" where
  "group_kind frs = (case pr_record_type (fst (hd frs)) of
     Some RT_Call \<Rightarrow> FragCall | Some RT_Rule \<Rightarrow> FragRule | _ \<Rightarrow> FragError)"

definition pending_view :: "fragment_record list \<Rightarrow> pending_fragment option" where
  "pending_view frs = (case frs of [] \<Rightarrow> None | (r, f) # _ \<Rightarrow> Some
     \<lparr>pf_kind = group_kind frs, pf_event_id = fr_event_id f, pf_total_detail_bytes = fr_total f,
      pf_chunk_count = fr_count f, pf_next_index = word_of_nat (length frs),
      pf_category = fr_category f, pf_name = fr_name f, pf_detail = group_detail frs,
      pf_first_offset = pr_offset r, pf_first_ordinal = pr_ordinal r,
      pf_fragment_offsets = map (pr_offset \<circ> fst) frs\<rparr>)"

definition group_open :: "fragment_record list \<Rightarrow> bool" where
  "group_open frs \<longleftrightarrow> (\<forall>(r, f) \<in> set frs. pr_record_type r = Some (fragment_record_type (group_kind frs)) \<and>
     fragment_head f = fragment_head (snd (hd frs)) \<and> length frs < unat (fr_count f))"

definition modules_view :: "event_record list \<Rightarrow> (u32, module_wire) hash_map \<Rightarrow> bool" where
  "modules_view evs m \<longleftrightarrow>
     (\<forall>i e. hash_map_get m i = Some e \<longleftrightarrow>
        (\<exists>d. known_module evs d \<and> md_module_id d = i \<and> module_entry d = e))"

definition definitions_view :: "event_record list \<Rightarrow> (u32, instruction_definition_wire) hash_map \<Rightarrow> bool" where
  "definitions_view evs m \<longleftrightarrow>
     (\<forall>i df. hash_map_get m i = Some df \<longrightarrow> known_definition evs (definition_view i df)) \<and>
     (\<forall>d. known_definition evs d \<longrightarrow>
        (\<exists>df. hash_map_get m (id_definition_id d) = Some df \<and> d = definition_view (id_definition_id d) df))"

definition termination_of :: "event_record list \<Rightarrow> termination_event option" where
  "termination_of evs = (if evs = [] then None else
     case er_payload (last evs) of P_Termination t \<Rightarrow> Some t | _ \<Rightarrow> None)"

definition core :: "'w qtrb_cursor \<Rightarrow> event_record list \<Rightarrow> fragment_record list \<Rightarrow> bool" where
  "core self evs frs \<longleftrightarrow>
     qc_began self = (evs \<noteq> []) \<and> trace_begin evs = None = (evs = []) \<and> qc_tid self = trace_tid evs \<and>
     (\<forall>b. trace_begin evs = Some b \<longrightarrow> qc_effective_buffer_bytes self = bm_effective_buffer_bytes b) \<and>
     unat (qc_next_sequence self) = Suc (instruction_total evs) \<and>
     unat (qc_instruction_count self) = instruction_total evs \<and>
     modules_view evs (qc_modules self) \<and> hash_map_len (qc_modules self) \<le> MAX_DICTIONARY_ENTRIES \<and>
     definitions_view evs (qc_definitions self) \<and>
     hash_map_len (qc_definitions self) \<le> MAX_DICTIONARY_ENTRIES \<and>
     group_open frs \<and> qc_pending self = pending_view frs \<and> (evs = [] \<longrightarrow> frs = []) \<and>
     qc_terminal_seen self = terminated evs \<and> qc_termination self = termination_of evs \<and>
     hdr_profile (qc_header self) \<le> 2"

section \<open>Events and the abstraction\<close>

lemma event_captured: "event self r seq p = captured (sid_artifact (qc_identity self)) (qc_tid self) r seq p"
  by (simp add: event_def captured_def)

text \<open>Events that no dictionary and no counter depends on.\<close>

definition inert :: "event_payload \<Rightarrow> bool" where
  "inert p \<longleftrightarrow> (case p of P_Begin _ \<Rightarrow> False | P_ModuleDefinition _ \<Rightarrow> False | P_InstructionDefinition _ \<Rightarrow> False
     | P_Instruction _ \<Rightarrow> False | P_Termination _ \<Rightarrow> False | _ \<Rightarrow> True)"

lemma inert_snoc:
  assumes "inert (er_payload e)" and "evs \<noteq> []"
  shows "instruction_total (evs @ [e]) = instruction_total evs"
    and "known_module (evs @ [e]) = known_module evs" and "known_definition (evs @ [e]) = known_definition evs"
    and "terminated (evs @ [e]) = terminated evs" and "termination_of (evs @ [e]) = None"
  using assms by (auto simp: snoc_simps inert_def termination_of_def fun_eq_iff split: event_payload.splits)

lemma termination_of_terminated: "\<not> terminated evs \<Longrightarrow> termination_of evs = None"
  by (auto simp: termination_of_def terminated_def payloads_def image_iff split: event_payload.splits)
    (metis last_in_set)

lemma core_inert:
  assumes "core self evs frs" and "evs \<noteq> []" and "\<not> terminated evs" and "inert (er_payload e)"
  shows "core (self\<lparr>qc_pending := None\<rparr>) (evs @ [e]) []"
  using assms termination_of_terminated [OF assms(3)]
  by (simp add: core_def inert_snoc trace_begin_append trace_tid_append modules_view_def definitions_view_def
      pending_view_def group_open_def)

section \<open>The handlers\<close>

lemma fragment_types:
  "fragment_record_type FragCall = RT_Call" "fragment_record_type FragRule = RT_Rule"
  "fragment_record_type FragError = RT_Error"
  by (simp_all add: fragment_record_type_def)

lemma fragment_type_inject [simp]: "fragment_record_type k = fragment_record_type k' \<longleftrightarrow> k = k'"
  by (cases k; cases k') (simp_all add: fragment_types)

lemma payload_limit_flags:
  assumes "record_payload_limit h (pr_raw_type r) (pr_flags r) co = Inr limit"
    and "pr_record_type r = record_type_from_raw (pr_raw_type r)"
  shows "pr_flags r = 0 \<or> pr_flags r = CHUNK_FLAG \<and> (\<exists>kind. pr_record_type r = Some (fragment_record_type kind))"
    and "pr_record_type r = None \<Longrightarrow> OPTIONAL_RECORD_TYPE_MIN \<le> pr_raw_type r \<and> 1 \<le> hdr_minor h"
proof -
  show "pr_flags r = 0 \<or> pr_flags r = CHUNK_FLAG \<and> (\<exists>kind. pr_record_type r = Some (fragment_record_type kind))"
    using assms
    by (auto simp: record_payload_limit_def payload_limit_def
        split: option.splits record_type.splits if_splits) (metis fragment_types)+
  show "pr_record_type r = None \<Longrightarrow> OPTIONAL_RECORD_TYPE_MIN \<le> pr_raw_type r \<and> 1 \<le> hdr_minor h"
    using assms by (auto simp: record_payload_limit_def split: if_splits)
qed

lemma core_begin:
  assumes "core self [] []" and "begin_wf b"
  shows "core (self\<lparr>qc_began := True, qc_tid := bm_tid b,
      qc_effective_buffer_bytes := bm_effective_buffer_bytes b\<rparr>) [captured a (bm_tid b) r None (P_Begin b)] []"
  using assms by (simp add: core_def trace_begin_def trace_tid_def instruction_total_def terminated_def
      termination_of_def modules_view_def definitions_view_def known_module_def known_definition_def)

lemma module_entry_inject: "md_module_id m = md_module_id m' \<Longrightarrow> module_entry m = module_entry m' \<longleftrightarrow> m = m'"
  by (auto simp: module_entry_def)

lemma modules_view_consistent:
  assumes "modules_view evs D" and "dictionary_step D (md_module_id m) (module_entry m) D'"
  shows "consistent_module evs m"
  unfolding consistent_module_def
proof (intro allI impI)
  fix m' assume m': "known_module evs m' \<and> md_module_id m' = md_module_id m"
  then have "hash_map_get D (md_module_id m) = Some (module_entry m')"
    using assms(1) by (auto simp: modules_view_def)
  then have "module_entry m' = module_entry m"
    using assms(2) by (simp add: dictionary_step_def)
  then show "m' = m" using m' by (simp add: module_entry_inject)
qed

lemma modules_view_step:
  assumes "modules_view evs D" and "dictionary_step D (md_module_id m) (module_entry m) D'"
    and "er_payload e = P_ModuleDefinition m"
  shows "modules_view (evs @ [e]) D'"
  unfolding modules_view_def
proof (intro allI)
  fix i en
  show "hash_map_get D' i = Some en \<longleftrightarrow>
      (\<exists>d. known_module (evs @ [e]) d \<and> md_module_id d = i \<and> module_entry d = en)"
    using assms modules_view_consistent [OF assms(1,2)]
    by (cases "i = md_module_id m") (auto simp: dictionary_step_def modules_view_def known_module_snoc consistent_module_def)
qed

lemma definition_view_id [simp]: "id_definition_id (definition_view i df) = i"
  by (simp add: definition_view_def)

lemma definitions_view_consistent:
  assumes "definitions_view evs D" and "dictionary_step D i df D'"
  shows "consistent_definition evs (definition_view i df)"
  using assms by (fastforce simp: consistent_definition_def definitions_view_def dictionary_step_def)

lemma definitions_view_step:
  assumes "definitions_view evs D" and "dictionary_step D i df D'"
    and "er_payload e = P_InstructionDefinition (definition_view i df)"
  shows "definitions_view (evs @ [e]) D'"
  using assms definitions_view_consistent [OF assms(1,2)]
  by (auto simp: definitions_view_def dictionary_step_def known_definition_snoc consistent_definition_def)

lemma core_module:
  assumes "core self evs []" and "evs \<noteq> []" and "\<not> terminated evs"
    and "dictionary_step (qc_modules self) (md_module_id m) (module_entry m) D'"
  shows "core (self\<lparr>qc_modules := D'\<rparr>) (evs @ [captured a tid r None (P_ModuleDefinition m)]) []"
  using assms termination_of_terminated [OF assms(3)]
  by (auto simp: core_def snoc_simps definitions_view_def intro!: modules_view_step)
    (auto simp: termination_of_def dictionary_step_def)

lemma core_definition:
  assumes "core self evs []" and "evs \<noteq> []" and "\<not> terminated evs"
    and "dictionary_step (qc_definitions self) i df D'"
  shows "core (self\<lparr>qc_definitions := D'\<rparr>)
     (evs @ [captured a tid r None (P_InstructionDefinition (definition_view i df))]) []"
  using assms termination_of_terminated [OF assms(3)]
  by (auto simp: core_def snoc_simps modules_view_def intro!: definitions_view_step)
    (auto simp: termination_of_def dictionary_step_def)

lemma core_instruction:
  assumes "core self evs []" and "evs \<noteq> []" and "\<not> terminated evs"
    and "unat (qc_next_sequence self + 1) = unat (qc_next_sequence self) + 1"
    and "unat (qc_instruction_count self + 1) = unat (qc_instruction_count self) + 1"
  shows "core (self\<lparr>qc_next_sequence := qc_next_sequence self + 1,
      qc_instruction_count := qc_instruction_count self + 1\<rparr>) (evs @ [captured a tid r seq (P_Instruction i)]) []"
  using assms termination_of_terminated [OF assms(3)]
  by (simp add: core_def snoc_simps modules_view_def definitions_view_def termination_of_def)

lemma core_terminal:
  assumes "core self evs []" and "evs \<noteq> []" and "\<not> terminated evs"
  shows "core (self\<lparr>qc_termination := Some t, qc_terminal_seen := True\<rparr>)
     (evs @ [captured a tid r None (P_Termination t)]) []"
  using assms
  by (simp add: core_def snoc_simps modules_view_def definitions_view_def termination_of_def)

subsection \<open>Fragments\<close>

lemma group_kind_append [simp]: "frs \<noteq> [] \<Longrightarrow> group_kind (frs @ frs') = group_kind frs"
  by (simp add: group_kind_def)

lemma group_kind_single [simp]: "pr_record_type r = Some (fragment_record_type kind) \<Longrightarrow> group_kind [(r, f)] = kind"
  by (cases kind) (simp_all add: group_kind_def fragment_types)

lemma group_detail_snoc [simp]: "group_detail (frs @ [(r, f)]) = group_detail frs @ fr_detail f"
  by (simp add: group_detail_def)

lemma joined_view:
  assumes "group_open frs" and "pr_record_type r = Some (fragment_record_type kind)"
    and "frs \<noteq> [] \<Longrightarrow> kind = group_kind frs" and "frs = [] \<Longrightarrow> fr_index f = 0"
    and p: "p = (case pending_view frs of Some p \<Rightarrow> p | None \<Rightarrow> opened_group kind r f)"
    and "joins kind f p"
  shows "pending_view (frs @ [(r, f)]) = Some (joined r f p)"
    and "unat (fr_index f) = length frs"
    and "\<forall>(r', f') \<in> set frs. pr_record_type r' = pr_record_type r \<and> fragment_head f' = fragment_head f"
proof -
  have short: "length frs < 65535" if ne: "frs \<noteq> []"
  proof -
    obtain r0 f0 where "(r0, f0) \<in> set frs"
      using ne by (metis list.set_sel(1) surj_pair)
    then have "length frs < unat (fr_count f0)"
      using assms(1) by (auto simp: group_open_def)
    then show ?thesis
      using unat_less_2p [of "fr_count f0"] by simp
  qed
  then have "length frs < 65535"
    by (cases "frs = []") simp_all
  then have idx: "unat (word_of_nat (length frs) :: u16) = length frs"
    "unat (word_of_nat (Suc (length frs)) :: u16) = Suc (length frs)"
    by (simp_all add: unat_of_nat del: of_nat_Suc)
  then have "unat (saturating_add (word_of_nat (length frs)) (1 :: u16)) = Suc (length frs)"
    using \<open>length frs < 65535\<close> by (simp add: unat_saturating_add)
  then have next_index: "saturating_add (word_of_nat (length frs)) 1 = (word_of_nat (Suc (length frs)) :: u16)"
    using idx(2) by (simp only: word_unat_eq_iff)
  show "unat (fr_index f) = length frs"
  proof (cases frs)
    case Nil
    then show ?thesis using assms(4) by simp
  next
    case (Cons x xs)
    then have "fr_index f = word_of_nat (length frs)"
      using assms(6) p by (cases x) (simp add: joins_def pending_view_def)
    then show ?thesis using idx(1) by simp
  qed
  show "\<forall>(r', f') \<in> set frs. pr_record_type r' = pr_record_type r \<and> fragment_head f' = fragment_head f"
  proof (cases frs)
    case (Cons x xs)
    then have "fragment_head (snd (hd frs)) = fragment_head f"
      using assms(6) p by (cases x) (simp add: joins_def pending_view_def fragment_head_def)
    then show ?thesis
      using assms(1,2,3) Cons by (simp add: group_open_def case_prod_unfold)
  qed simp
  show "pending_view (frs @ [(r, f)]) = Some (joined r f p)"
  proof (cases frs)
    case Nil
    then show ?thesis
      using next_index p assms(2) by (simp add: pending_view_def joined_def opened_group_def group_detail_def)
  next
    case (Cons x xs)
    then show ?thesis
      using next_index p by (cases x) (simp add: pending_view_def joined_def group_detail_def group_kind_def)
  qed
qed

lemma group_open_snoc:
  assumes "group_open frs" and "pr_record_type r = Some (fragment_record_type kind)"
    and "\<forall>(r', f') \<in> set frs. pr_record_type r' = pr_record_type r \<and> fragment_head f' = fragment_head f"
    and "Suc (length frs) < unat (fr_count f)"
  shows "group_open (frs @ [(r, f)])"
proof (cases frs)
  case Nil
  then show ?thesis using assms by (simp add: group_open_def)
next
  case (Cons x xs)
  then have hd: "hd frs \<in> set frs" "frs \<noteq> []" by simp_all
  have same: "\<And>y. y \<in> set frs \<Longrightarrow> pr_record_type (fst y) = pr_record_type r \<and> fragment_head (snd y) = fragment_head f"
    using assms(3) by (simp add: case_prod_unfold)
  then have count: "\<And>y. y \<in> set frs \<Longrightarrow> fr_count (snd y) = fr_count f"
    by (auto simp: fragment_head_def)
  have kind: "group_kind (frs @ [(r, f)]) = kind"
    using same [OF hd(1)] assms(1,2) hd by (simp add: group_open_def case_prod_unfold)
  show ?thesis
    unfolding group_open_def case_prod_unfold kind
    using same count same [OF hd(1)] assms(2,4) hd(2) by (simp add: ball_Un)
qed

lemma pending_view_fields:
  assumes "pending_view frs = Some p"
  shows "pf_next_index p = word_of_nat (length frs)" "pf_detail p = group_detail frs"
    "pf_fragment_offsets p = map (pr_offset \<circ> fst) frs"
    "pf_category p = fr_category (snd (hd frs))" "pf_name p = fr_name (snd (hd frs))"
    "pf_total_detail_bytes p = fr_total (snd (hd frs))" "pf_chunk_count p = fr_count (snd (hd frs))"
    "pf_first_offset p = pr_offset (fst (hd frs))" "pf_first_ordinal p = pr_ordinal (fst (hd frs))"
    "frs \<noteq> []"
  using assms by (auto simp: pending_view_def split: list.splits)

lemma group_complete_text:
  assumes "pending_view frs = Some p" and "group_complete p"
  shows "group_text frs"
  using assms pending_view_fields [OF assms(1)]
  by (cases frs) (auto simp: group_complete_def group_text_def)

lemma assembled_group_event:
  assumes "pending_view frs = Some p"
  shows "assembled self kind p = group_event (sid_artifact (qc_identity self)) (qc_tid self) kind frs"
  using pending_view_fields [OF assms]
  by (cases "hd frs") (simp add: assembled_def group_event_def captured_def event_record_new_def)

lemma core_fragment:
  assumes c: "core self evs frs" and "evs \<noteq> []" and nt: "\<not> terminated evs"
    and ty: "pr_record_type r = Some (fragment_record_type kind)" "pr_flags r = CHUNK_FLAG"
    and pay: "pr_payload r = wire_fragment f" "fragment_wf kind f" "kind = FragCall \<or> hdr_minor h \<noteq> 0"
    and kind: "frs \<noteq> [] \<Longrightarrow> kind = group_kind frs"
    and start: "qc_pending self = None \<longrightarrow> fr_index f = 0"
    and j: "join_fragment self r kind f
      (case qc_pending self of Some p \<Rightarrow> p | None \<Rightarrow> opened_group kind r f) v self'"
  shows "\<exists>evs' frs'. spec_step (sid_artifact (qc_identity self)) h evs frs r e evs' frs' \<and> core self' evs' frs' \<and>
    (case v of None \<Rightarrow> evs' = evs | Some ev \<Rightarrow> evs' = evs @ [ev])"
proof -
  define p where "p = (case pending_view frs of Some p \<Rightarrow> p | None \<Rightarrow> opened_group kind r f)"
  define frs' where "frs' = frs @ [(r, f)]"
  have pv: "qc_pending self = pending_view frs" and go: "group_open frs"
    using c by (simp_all add: core_def)
  have st: "frs = [] \<Longrightarrow> fr_index f = 0"
    using start pv by (simp add: pending_view_def)
  have jf: "join_fragment self r kind f p v self'"
    using j pv by (simp add: p_def)
  then have js: "joins kind f p" and len: "length (pf_detail (joined r f p)) \<le> unat (fr_total f)"
    by (simp_all add: join_fragment_def)
  note v = joined_view [OF go ty(1) kind st p_def js, folded frs'_def]
  note fl = pending_view_fields [OF v(1)]
  have ff: "fragment_follows h kind frs (r, f)"
    using ty pay v(2,3) len fl(2) by (simp add: fragment_follows_def frs'_def)
  have lt: "length frs < unat (fr_count f)"
    using pay(2) v(2) by (simp add: fragment_wf_def word_less_nat_alt)
  then have "Suc (length frs) < 65536"
    using unat_less_2p [of "fr_count f"] by simp
  then have un: "unat (pf_next_index (joined r f p)) = Suc (length frs)"
    using fl(1) by (simp add: frs'_def unat_of_nat del: of_nat_Suc)
  show ?thesis
  proof (cases "pf_next_index (joined r f p) < fr_count f")
    case True
    then have less: "Suc (length frs) < unat (fr_count f)"
      using un by (simp add: word_less_nat_alt)
    have v': "v = None" "self' = self\<lparr>qc_pending := Some (joined r f p)\<rparr>"
      using jf True by (simp_all add: join_fragment_def)
    have "core self' evs frs'"
      using c group_open_snoc [OF go ty(1) v(3) less] v(1) \<open>evs \<noteq> []\<close>
      by (simp add: core_def v' frs'_def)
    moreover have "spec_step (sid_artifact (qc_identity self)) h evs frs r e evs frs'"
      unfolding frs'_def by (rule hold [OF \<open>evs \<noteq> []\<close> nt ff less])
    ultimately show ?thesis using v' by auto
  next
    case False
    then have v': "v = Some (assembled self kind (joined r f p))" "group_complete (joined r f p)"
      "self' = self\<lparr>qc_pending := None\<rparr>"
      using jf by (simp_all add: join_fragment_def)
    let ?e = "group_event (sid_artifact (qc_identity self)) (trace_tid evs) kind frs'"
    have "qc_tid self = trace_tid evs"
      using c by (simp add: core_def)
    then have ev: "v = Some ?e"
      using v'(1) by (simp add: assembled_group_event [OF v(1)])
    have "inert (er_payload ?e)"
      by (cases "hd frs'"; cases kind) (simp_all add: inert_def group_event_def semantic_event_payload_def)
    then have "core self' (evs @ [?e]) []"
      using core_inert [OF c \<open>evs \<noteq> []\<close> nt] v'(3) by simp
    moreover have "spec_step (sid_artifact (qc_identity self)) h evs frs r e (evs @ [?e]) []"
      unfolding frs'_def using join [OF \<open>evs \<noteq> []\<close> nt ff] group_complete_text [OF v(1) v'(2)] by (simp add: frs'_def)
    ultimately show ?thesis using ev by auto
  qed
qed

subsection \<open>Every accepted record is a step\<close>

definition advances ::
  "'w qtrb_cursor \<Rightarrow> event_record list \<Rightarrow> fragment_record list \<Rightarrow> physical_record \<Rightarrow> event_record option \<Rightarrow> 'w qtrb_cursor \<Rightarrow> bool" where
  "advances self evs frs r v self' \<longleftrightarrow>
     (\<exists>evs' frs'. spec_step (sid_artifact (qc_identity self)) (qc_header self) evs frs r (qc_offset self) evs' frs' \<and>
        core self' evs' frs' \<and> (case v of None \<Rightarrow> evs' = evs | Some ev \<Rightarrow> evs' = evs @ [ev]))"

lemma advances_emit:
  assumes "record_event (qc_header self) evs r (qc_offset self) seq tid p" and "pr_flags r = 0" and "\<not> terminated evs"
    and "core self' (evs @ [captured (sid_artifact (qc_identity self)) tid r seq p]) []"
  shows "advances self evs [] r (Some (captured (sid_artifact (qc_identity self)) tid r seq p)) self'"
  using emit [OF assms(1-3)] assms(4) by (auto simp: advances_def)

lemma core_tid: "core self evs frs \<Longrightarrow> qc_tid self = trace_tid evs"
  by (simp add: core_def)

lemma core_counters: "core (self\<lparr>qc_counters := c\<rparr>) evs frs = core self evs frs"
  by (simp add: core_def)

text \<open>A record that is no fragment arrives while no group is open and no terminal was seen.\<close>

definition ready :: "'w qtrb_cursor \<Rightarrow> event_record list \<Rightarrow> physical_record \<Rightarrow> bool" where
  "ready self evs r \<longleftrightarrow> core self evs [] \<and> pr_flags r = 0 \<and> \<not> terminated evs"

lemma ready_core: "ready self evs r \<Longrightarrow> core self evs []"
  and ready_flags: "ready self evs r \<Longrightarrow> pr_flags r = 0"
  and ready_running: "ready self evs r \<Longrightarrow> \<not> terminated evs"
  by (simp_all add: ready_def)

lemma begin_advances:
  assumes ready: "ready self evs r" and "decode_begin H G r (self, w) = (Inr ev, (self', w'))" and "pr_record_type r = Some RT_TraceBegin"
  shows "advances self evs [] r (Some ev) self'"
proof -
  note core = ready_core [OF ready] and flags = ready_flags [OF ready] and running = ready_running [OF ready]
  have "hdr_profile (qc_header self) \<le> 2"
    using core by (simp add: core_def)
  from decode_begin_ok [OF assms(2) this] obtain b where b: "ev = event self' r None (P_Begin b)"
    "\<not> qc_began self" "pr_payload r = wire_begin b" "begin_wf b"
    "wire_profile (bm_profile b) = hdr_profile (qc_header self)"
    "self' = self\<lparr>qc_began := True, qc_tid := bm_tid b, qc_effective_buffer_bytes := bm_effective_buffer_bytes b\<rparr>"
    by blast
  have evs: "evs = []" using core b(2) by (simp add: core_def)
  have ev: "ev = captured (sid_artifact (qc_identity self)) (bm_tid b) r None (P_Begin b)"
    by (simp add: b(1,6) event_captured)
  show ?thesis unfolding ev
    by (rule advances_emit [OF ev_begin [OF evs assms(3) b(3-5)] flags running])
      (use core_begin [OF core [unfolded evs] b(4)] in \<open>simp add: evs b(6)\<close>)
qed

lemma module_advances:
  assumes ready: "ready self evs r" and "decode_module H G r (self, w) = (Inr ev, (self', w'))" and "pr_record_type r = Some RT_ModuleDefinition"
    and "evs \<noteq> []"
  shows "advances self evs [] r (Some ev) self'"
proof -
  note core = ready_core [OF ready] and flags = ready_flags [OF ready] and running = ready_running [OF ready]
  from decode_module_ok [OF assms(2)] obtain m where m: "ev = event self' r None (P_ModuleDefinition m)"
    "pr_payload r = wire_module m" "name_wf MAX_MODULE_NAME_BYTES (md_name m)"
    "self' = self\<lparr>qc_modules := qc_modules self'\<rparr>"
    "dictionary_step (qc_modules self) (md_module_id m) (module_entry m) (qc_modules self')"
    by blast
  have c: "consistent_module evs m"
    using core m(5) by (auto simp: core_def intro: modules_view_consistent)
  have ev: "ev = captured (sid_artifact (qc_identity self)) (trace_tid evs) r None (P_ModuleDefinition m)"
    using core_tid [OF core] m(1) by (subst (asm) m(4)) (simp add: event_captured)
  show ?thesis unfolding ev
    by (rule advances_emit [OF ev_module [OF assms(4,3) m(2,3) c] flags running])
      (use core_module [OF core assms(4) running m(5)] m(4) in metis)
qed

lemma definition_advances:
  assumes ready: "ready self evs r" and "decode_instruction_definition H G r (self, w) = (Inr ev, (self', w'))"
    and "pr_record_type r = Some RT_InstructionDefinition" and "evs \<noteq> []"
  shows "advances self evs [] r (Some ev) self'"
proof -
  note core = ready_core [OF ready] and flags = ready_flags [OF ready] and running = ready_running [OF ready]
  from decode_instruction_definition_ok [OF assms(2)] obtain i df where
    m: "ev = event self' r None (P_InstructionDefinition (definition_view i df))"
    "pr_payload r = wire_instruction_definition (definition_view i df)"
    "instruction_definition_wf (definition_view i df)"
    "self' = self\<lparr>qc_definitions := qc_definitions self'\<rparr>"
    "dictionary_step (qc_definitions self) i df (qc_definitions self')"
    by blast
  have c: "consistent_definition evs (definition_view i df)"
    using core m(5) by (auto simp: core_def intro: definitions_view_consistent)
  have ev: "ev = captured (sid_artifact (qc_identity self)) (trace_tid evs) r None
      (P_InstructionDefinition (definition_view i df))"
    using core_tid [OF core] m(1) by (subst (asm) m(4)) (simp add: event_captured)
  show ?thesis unfolding ev
    by (rule advances_emit [OF ev_definition [OF assms(4,3) m(2,3) c] flags running])
      (use core_definition [OF core assms(4) running m(5)] m(4) in metis)
qed

lemma instruction_advances:
  assumes ready: "ready self evs r" and "decode_instruction H G r (self, w) = (Inr ev, (self', w'))"
    and "pr_record_type r = Some RT_Instruction" and "evs \<noteq> []"
  shows "advances self evs [] r (Some ev) self'"
proof -
  note core = ready_core [OF ready] and flags = ready_flags [OF ready] and running = ready_running [OF ready]
  from decode_instruction_ok [OF assms(2)] obtain i df where
    m: "ev = event self' r (Some (qc_next_sequence self)) (P_Instruction i)"
    "pr_payload r = wire_instruction (qc_next_sequence self) i"
    "hash_map_get (qc_modules self) (in_module_id i) \<noteq> None"
    "hash_map_get (qc_definitions self) (in_definition_id i) = Some df"
    "instruction_matches (definition_view (in_definition_id i) df) i"
    "self' = self\<lparr>qc_next_sequence := qc_next_sequence self + 1,
      qc_instruction_count := qc_instruction_count self + 1\<rparr>"
    "unat (qc_next_sequence self') = unat (qc_next_sequence self) + 1"
    "unat (qc_instruction_count self') = unat (qc_instruction_count self) + 1"
    by blast
  obtain md where md: "known_module evs md" "md_module_id md = in_module_id i"
    using core m(3) by (auto simp: core_def modules_view_def)
  have d: "known_definition evs (definition_view (in_definition_id i) df)"
    using core m(4) by (simp add: core_def definitions_view_def)
  have seq: "unat (qc_next_sequence self) = Suc (instruction_total evs)"
    using core by (simp add: core_def)
  have ev: "ev = captured (sid_artifact (qc_identity self)) (trace_tid evs) r (Some (qc_next_sequence self)) (P_Instruction i)"
    using core_tid [OF core] by (simp add: m(1,6) event_captured)
  have "core self' (evs @ [ev]) []"
    using core_instruction [OF core assms(4) running] m(7,8) by (simp add: m(6) ev)
  then show ?thesis unfolding ev
    by (rule advances_emit [OF ev_instruction [OF assms(4,3) seq m(2) md d _ m(5)] flags running, rotated]) simp
qed

lemma memory_advances:
  assumes ready: "ready self evs r" and "decode_memory H G r (self, w) = (Inr ev, (self', w'))"
    and "pr_record_type r = Some RT_Memory" and "evs \<noteq> []"
  shows "advances self evs [] r (Some ev) self'"
proof -
  note core = ready_core [OF ready] and flags = ready_flags [OF ready] and running = ready_running [OF ready]
  from decode_memory_ok [OF assms(2)] obtain x where
    m: "ev = event self r None (P_Memory x)" "pr_payload r = wire_memory x" "memory_wf x"
    "hash_map_get (qc_modules self) (ma_module_id x) \<noteq> None" "self' = self"
    by blast
  obtain md where md: "known_module evs md" "md_module_id md = ma_module_id x"
    using core m(4) by (auto simp: core_def modules_view_def)
  have ev: "ev = captured (sid_artifact (qc_identity self)) (trace_tid evs) r None (P_Memory x)"
    using core_tid [OF core] by (simp add: m(1) event_captured)
  have "core self' (evs @ [ev]) []"
    using core_inert [OF core assms(4) running, of ev] core by (simp add: m(5) ev inert_def core_def pending_view_def)
  then show ?thesis unfolding ev
    by (rule advances_emit [OF ev_memory [OF assms(4,3) m(2,3) md] flags running])
qed

lemma core_no_pending: "core self evs [] \<Longrightarrow> self\<lparr>qc_pending := None\<rparr> = self"
  by (simp add: core_def pending_view_def)

lemma semantic_advances:
  assumes ready: "ready self evs r" and "decode_semantic H G r kind (self, w) = (Inr v, (self', w'))"
    and "pr_record_type r = Some (fragment_record_type kind)" and "evs \<noteq> []"
  shows "advances self evs [] r v self'"
proof -
  note core = ready_core [OF ready] and flags = ready_flags [OF ready] and running = ready_running [OF ready]
  from decode_plain_semantic_ok [OF assms(2) flags] obtain s where
    m: "v = Some (event self r None (semantic_event_payload kind s))" "pr_payload r = wire_semantic s"
    "semantic_wf kind s" "self' = self"
    by blast
  have ev: "v = Some (captured (sid_artifact (qc_identity self)) (trace_tid evs) r None (semantic_event_payload kind s))"
    using core_tid [OF core] by (simp add: m(1) event_captured)
  have "inert (semantic_event_payload kind s)"
    by (cases kind) (simp_all add: inert_def semantic_event_payload_def)
  then have "core self' (evs @ [captured (sid_artifact (qc_identity self)) (trace_tid evs) r None (semantic_event_payload kind s)]) []"
    using core_inert [OF core assms(4) running] core_no_pending [OF core] by (simp add: m(4))
  then show ?thesis unfolding ev
    by (rule advances_emit [OF ev_semantic [OF assms(4,3) m(2,3)] flags running])
qed

lemma terminal_advances:
  assumes ready: "ready self evs r" and "terminal_step self len r rt ev self'"
    and "pr_record_type r = Some rt" and "evs \<noteq> []"
    and "rt = RT_TraceStop \<Longrightarrow> hdr_minor (qc_header self) = 2 \<and>
      hdr_required_features (qc_header self) AND STOPPED_TERMINAL_FEATURE \<noteq> 0"
  shows "advances self evs [] r (Some ev) self'"
proof -
  note core = ready_core [OF ready] and flags = ready_flags [OF ready] and running = ready_running [OF ready]
  from assms(2) obtain t where
    m: "ev = event self r None (P_Termination t)" "terminal_record rt (pr_payload r) t"
    "tm_instructions (te_metrics t) = qc_instruction_count self"
    "tm_encoded_bytes (te_metrics t) = qc_offset self"
    "tm_effective_buffer_bytes (te_metrics t) = qc_effective_buffer_bytes self"
    "self' = self\<lparr>qc_termination := Some t, qc_terminal_seen := True\<rparr>"
    unfolding terminal_step_def by blast
  have t: "terminal_matches evs (qc_offset self) t"
    using core by (simp add: terminal_matches_def core_def m(3-5))
  have ev: "ev = captured (sid_artifact (qc_identity self)) (trace_tid evs) r None (P_Termination t)"
    using core_tid [OF core] by (simp add: m(1) event_captured)
  show ?thesis unfolding ev
    by (rule advances_emit [OF ev_terminal [OF assms(4,3) m(2) assms(5) t] flags running])
      (use core_terminal [OF core assms(4) running] in \<open>simp_all add: m(6)\<close>)
qed

lemma opaque_advances:
  assumes ready: "ready self evs r" and "opaque_event r (self, w) = (Inr ev, (self', w'))"
    and "pr_record_type r = None" and "evs \<noteq> []"
    and "OPTIONAL_RECORD_TYPE_MIN \<le> pr_raw_type r \<and> 1 \<le> hdr_minor (qc_header self)"
  shows "advances self evs [] r (Some ev) self'"
proof -
  note core = ready_core [OF ready] and flags = ready_flags [OF ready] and running = ready_running [OF ready]
  let ?p = "P_OpaqueOptional \<lparr>oo_record_type = pr_raw_type r, oo_flags = pr_flags r, oo_bytes = pr_payload r\<rparr>"
  from opaque_event_ok [OF assms(2)] have m: "ev = event self r None ?p" "self' = self\<lparr>qc_counters := qc_counters self'\<rparr>"
    by simp_all
  have ev: "ev = captured (sid_artifact (qc_identity self)) (trace_tid evs) r None ?p"
    using core_tid [OF core] by (simp add: m(1) event_captured)
  have "core self (evs @ [ev]) []"
    using core_inert [OF core assms(4) running, of ev] core_no_pending [OF core] by (simp add: ev inert_def)
  then have "core self' (evs @ [ev]) []"
    by (subst m(2)) (simp add: core_counters)
  then show ?thesis unfolding ev
    by (rule advances_emit [OF ev_opaque [OF assms(4,3)] flags running, rotated -1]) (use assms(5) in simp_all)
qed

lemma chunk_advances:
  assumes "core self evs frs" and "\<not> terminated evs" and "evs \<noteq> []"
    and "decode_semantic H G r kind (self, w) = (Inr v, (self', w'))"
    and "pr_record_type r = Some (fragment_record_type kind)" and "pr_flags r = CHUNK_FLAG"
    and "frs \<noteq> [] \<Longrightarrow> kind = group_kind frs"
  shows "advances self evs frs r v self'"
proof -
  have "pr_flags r \<noteq> 0"
    using assms(6) by (simp add: CHUNK_FLAG_def)
  then have minor: "kind = FragCall \<or> hdr_minor (qc_header self) \<noteq> 0"
    and d: "decode_fragment H G r kind (self, w) = (Inr v, (self', w'))"
    using decode_chunk_semantic_ok [OF assms(4)] by simp_all
  from decode_fragment_ok [OF d] obtain f where f: "pr_payload r = wire_fragment f" "fragment_wf kind f"
    "qc_pending self = None \<longrightarrow> fr_index f = 0"
    "join_fragment self r kind f (case qc_pending self of Some p \<Rightarrow> p | None \<Rightarrow> opened_group kind r f) v self'"
    by (elim exE conjE)
  show ?thesis
    unfolding advances_def
    by (rule core_fragment [OF assms(1,3,2,5,6) f(1,2) minor assms(7) f(3,4)])
qed

lemma decode_record_advances:
  assumes core: "core self evs frs" and running: "\<not> terminated evs"
    and ok: "decode_record H G r (self, w) = (Inr v, (self', w'))"
    and raw: "pr_record_type r = record_type_from_raw (pr_raw_type r)"
    and limit: "record_payload_limit (qc_header self) (pr_raw_type r) (pr_flags r) co = Inr limit"
    and begun: "qc_began self \<or> pr_record_type r = Some RT_TraceBegin"
    and contiguous: "\<And>p. qc_pending self = Some p \<Longrightarrow>
      pr_record_type r = Some (fragment_record_type (pf_kind p)) \<and> pr_flags r = CHUNK_FLAG"
  shows "advances self evs frs r v self'"
proof (cases "pr_flags r = 0")
  case False
  then obtain kind where kind: "pr_flags r = CHUNK_FLAG" "pr_record_type r = Some (fragment_record_type kind)"
    using payload_limit_flags(1) [OF limit raw] by blast
  then have "evs \<noteq> []"
    using begun core by (cases kind) (auto simp: core_def fragment_types)
  moreover have "frs \<noteq> [] \<Longrightarrow> kind = group_kind frs"
    using contiguous core kind(2) by (cases frs) (auto simp: core_def pending_view_def)
  moreover have "decode_semantic H G r kind (self, w) = (Inr v, (self', w'))"
    using ok kind(2) by (cases kind) (simp_all add: decode_record_def fragment_types)
  ultimately show ?thesis
    using kind by (intro chunk_advances [OF core running, of H G r kind]) simp_all
next
  case True
  then have "qc_pending self = None"
    using contiguous by (cases "qc_pending self") (auto simp: CHUNK_FLAG_def)
  then have frs: "frs = []"
    using core by (cases frs) (auto simp: core_def pending_view_def)
  then have ready: "ready self evs r"
    using core running True by (simp add: ready_def)
  have ne: "evs \<noteq> []" if "pr_record_type r \<noteq> Some RT_TraceBegin"
    using that begun core by (simp add: core_def)
  show ?thesis
  proof (cases "pr_record_type r")
    case None
    then obtain ev where "v = Some ev" "opaque_event r (self, w) = (Inr ev, (self', w'))"
      using ok by (auto simp: decode_record_def elim!: mapSomeE)
    then show ?thesis
      using opaque_advances [OF ready] payload_limit_flags(2) [OF limit raw None] None ne frs by simp
  next
    case (Some rt)
    note run = ok [unfolded decode_record_def Some option.case]
    show ?thesis
    proof (cases rt)
      case RT_TraceBegin
      with run Some show ?thesis
        unfolding frs by (auto elim!: mapSomeE intro!: begin_advances [OF ready])
    next
      case RT_ModuleDefinition
      with run Some ne show ?thesis
        unfolding frs by (auto elim!: mapSomeE intro!: module_advances [OF ready])
    next
      case RT_InstructionDefinition
      with run Some ne show ?thesis
        unfolding frs by (auto elim!: mapSomeE intro!: definition_advances [OF ready])
    next
      case RT_Instruction
      with run Some ne show ?thesis
        unfolding frs by (auto elim!: mapSomeE intro!: instruction_advances [OF ready])
    next
      case RT_Memory
      with run Some ne show ?thesis
        unfolding frs by (auto elim!: mapSomeE intro!: memory_advances [OF ready])
    next
      case RT_Call
      with run Some ne show ?thesis
        unfolding frs by (intro semantic_advances [OF ready, of H G FragCall]) (simp_all add: fragment_types)
    next
      case RT_Rule
      with run Some ne show ?thesis
        unfolding frs by (intro semantic_advances [OF ready, of H G FragRule]) (simp_all add: fragment_types)
    next
      case RT_Error
      with run Some ne show ?thesis
        unfolding frs by (intro semantic_advances [OF ready, of H G FragError]) (simp_all add: fragment_types)
    next
      case RT_TraceEnd
      with run obtain ev where ev: "v = Some ev" "decode_trace_end H G r (self, w) = (Inr ev, (self', w'))"
        by (auto elim!: mapSomeE)
      with decode_trace_end_ok [OF ev(2)] RT_TraceEnd Some ne show ?thesis
        unfolding frs by (auto intro: terminal_advances [OF ready])
    next
      case RT_TraceStop
      with run obtain ev where ev: "v = Some ev" "decode_trace_stop H G r (self, w) = (Inr ev, (self', w'))"
        by (auto elim!: mapSomeE)
      with decode_trace_stop_ok [OF ev(2)] RT_TraceStop Some ne show ?thesis
        unfolding frs by (auto intro: terminal_advances [OF ready])
    qed
  qed
qed

section \<open>What the handlers leave alone\<close>

definition frame :: "'w qtrb_cursor \<Rightarrow> 'w qtrb_cursor \<Rightarrow> bool" where
  "frame self self' \<longleftrightarrow>
     qc_source self' = qc_source self \<and> qc_identity self' = qc_identity self \<and> qc_mode self' = qc_mode self \<and>
     qc_header self' = qc_header self \<and> qc_offset self' = qc_offset self \<and>
     qc_next_ordinal self' = qc_next_ordinal self \<and> qc_drained self' = qc_drained self \<and>
     qc_poisoned self' = qc_poisoned self \<and> qc_completeness self' = qc_completeness self \<and>
     qc_timelines self' = qc_timelines self \<and>
     pcn_records_seen (qc_counters self') = pcn_records_seen (qc_counters self) \<and>
     pcn_events_emitted (qc_counters self') = pcn_events_emitted (qc_counters self) \<and>
     pcn_input_bytes (qc_counters self') = pcn_input_bytes (qc_counters self) \<and>
     pcn_decompressed_bytes (qc_counters self') = pcn_decompressed_bytes (qc_counters self)"

lemma frame_updates:
  "frame self (self\<lparr>qc_modules := m\<rparr>)" "frame self (self\<lparr>qc_definitions := d\<rparr>)"
  "frame self (self\<lparr>qc_pending := p\<rparr>)" "frame self self"
  "frame self (self\<lparr>qc_began := b, qc_tid := tid, qc_effective_buffer_bytes := n\<rparr>)"
  "frame self (self\<lparr>qc_next_sequence := q, qc_instruction_count := n\<rparr>)"
  "frame self (self\<lparr>qc_termination := t, qc_terminal_seen := b\<rparr>)"
  by (simp_all add: frame_def)

lemma join_fragment_frame: "join_fragment self r kind f p v self' \<Longrightarrow> frame self self'"
  by (auto simp: join_fragment_def frame_updates split: if_splits)

lemma decode_semantic_frame:
  assumes "decode_semantic H G r kind (self, w) = (Inr v, (self', w'))"
  shows "frame self self'"
proof (cases "pr_flags r = 0")
  case True
  then show ?thesis using decode_plain_semantic_ok [OF assms] by (auto simp: frame_updates)
next
  case False
  then have "decode_fragment H G r kind (self, w) = (Inr v, (self', w'))"
    using decode_chunk_semantic_ok [OF assms] by simp
  from decode_fragment_ok [OF this] show ?thesis
    by (elim exE conjE) (rule join_fragment_frame)
qed

lemma terminal_step_frame: "terminal_step self len r rt ev self' \<Longrightarrow> frame self self'"
  by (auto simp: terminal_step_def frame_updates)

lemma frame_eqs:
  "self' = self\<lparr>qc_modules := qc_modules self'\<rparr> \<Longrightarrow> frame self self'"
  "self' = self\<lparr>qc_definitions := qc_definitions self'\<rparr> \<Longrightarrow> frame self self'"
  by (metis frame_updates(1)) (metis frame_updates(2))

lemma opaque_frame: "opaque_event r (self, w) = (Inr ev, (self', w')) \<Longrightarrow> frame self self'"
  by (auto simp: opaque_event_def frame_def)

lemma decode_record_frame:
  assumes "decode_record H G r (self, w) = (Inr v, (self', w'))" and "hdr_profile (qc_header self) \<le> 2"
  shows "frame self self'"
  using assms unfolding decode_record_def
  by (auto simp: frame_updates split: option.splits record_type.splits elim!: mapSomeE
      dest!: decode_begin_ok decode_module_ok decode_instruction_definition_ok decode_instruction_ok
        decode_memory_ok decode_semantic_frame decode_trace_end_ok decode_trace_stop_ok terminal_step_frame
        opaque_frame frame_eqs)

section \<open>The event loop\<close>

definition counters_view :: "'w qtrb_cursor \<Rightarrow> event_record list \<Rightarrow> bool" where
  "counters_view self evs \<longleftrightarrow>
     pcn_records_seen (qc_counters self) = qc_next_ordinal self \<and>
     pcn_input_bytes (qc_counters self) = qc_offset self \<and>
     pcn_decompressed_bytes (qc_counters self) = qc_offset self \<and>
     unat (pcn_events_emitted (qc_counters self)) = length evs"

definition tracks ::
  "'w qtrb_cursor \<Rightarrow> physical_record list \<Rightarrow> event_record list \<Rightarrow> fragment_record list \<Rightarrow> bool" where
  "tracks self recs evs frs \<longleftrightarrow>
     stream_run (qc_source self) (sid_artifact (qc_identity self)) (qc_header self) (qc_offset self) recs evs frs \<and>
     core self evs frs \<and> unat (qc_next_ordinal self) = length recs \<and> counters_view self evs \<and>
     \<not> qc_drained self \<and> \<not> qc_poisoned self \<and> rv_items (qc_completeness self) = []"

text \<open>The cursor once the stream has ended.\<close>

definition finished :: "'w qtrb_cursor \<Rightarrow> physical_record list \<Rightarrow> event_record list \<Rightarrow> bool" where
  "finished self recs evs \<longleftrightarrow> evs \<noteq> [] \<and> (terminated evs \<or> qc_mode self = RecoverablePartial) \<and>
     (\<exists>w. src_len (qc_source self) w \<le> qc_offset self) \<and>
     (\<exists>before. tracks before recs evs [] \<and> self = before\<lparr>qc_completeness := qc_completeness self, qc_drained := True\<rparr> \<and>
        rv_items (qc_completeness self) = drained_completeness before)"

definition origin :: "'w qtrb_cursor \<Rightarrow> 'w read_at_source \<times> source_identity \<times> open_mode \<times> stream_header" where
  "origin self = (qc_source self, qc_identity self, qc_mode self, qc_header self)"

lemma core_read:
  "core (self\<lparr>qc_offset := x, qc_next_ordinal := y, qc_counters := z\<rparr>) evs frs = core self evs frs"
  by (simp add: core_def)

lemma count_record_exact:
  assumes "pcn_records_seen c = o'" and "unat o'' = unat o' + 1" "o'' = o' + 1"
    and "pcn_input_bytes c = x" and "pcn_decompressed_bytes c = x"
    and "unat x' = unat x + 8 + unat n" "x' = x + 8 + ucast n"
  shows "pcn_records_seen (count_record n c) = o''" "pcn_input_bytes (count_record n c) = x'"
    "pcn_decompressed_bytes (count_record n c) = x'"
    "pcn_events_emitted (count_record n c) = pcn_events_emitted c"
proof -
  have "unat n < 2 ^ 32"
    using unat_less_2p [of n] by simp
  then have u: "unat (8 + ucast n :: u64) = 8 + unat n"
    by (simp add: unat_word_ariths unat_ucast_32_64)
  have "unat x + unat (8 + ucast n :: u64) < 2 ^ 64"
    using unat_less_2p [of x'] assms(6) by (simp add: u)
  then have "saturating_add x (8 + ucast n) = x'"
    using assms(7) by (simp add: saturating_add_def add.assoc)
  then show "pcn_input_bytes (count_record n c) = x'" "pcn_decompressed_bytes (count_record n c) = x'"
    using assms(4,5) by (simp_all add: count_record_def RECORD_HEADER_BYTES_def Let_def)
  have "saturating_add o' 1 = o''"
    using unat_less_2p [of o''] assms(2,3) by (simp add: saturating_add_def)
  then show "pcn_records_seen (count_record n c) = o''"
    using assms(1) by (simp add: count_record_def Let_def)
  show "pcn_events_emitted (count_record n c) = pcn_events_emitted c"
    by (simp add: count_record_def Let_def)
qed

text \<open>Reading and decoding one record.\<close>

lemma record_tracks:
  assumes tr: "tracks self recs evs frs" and running: "\<not> terminated evs"
    and rd: "read_record H G (self, w) = (Inr r, (self1, w1))"
    and begun: "qc_began self \<or> pr_record_type r = Some RT_TraceBegin"
    and contiguous: "\<And>p. qc_pending self = Some p \<Longrightarrow>
      pr_record_type r = Some (fragment_record_type (pf_kind p)) \<and> pr_flags r = CHUNK_FLAG"
    and dec: "decode_record H G r (self1, w1) = (Inr v, (self', w'))"
  obtains evs' frs' where "(case v of None \<Rightarrow> evs' = evs | Some ev \<Rightarrow> evs' = evs @ [ev])"
    and "stream_run (qc_source self') (sid_artifact (qc_identity self')) (qc_header self') (qc_offset self')
      (recs @ [r]) evs' frs'"
    and "core self' evs' frs'" and "unat (qc_next_ordinal self') = length (recs @ [r])"
    and "counters_view self' evs" and "\<not> qc_drained self'" and "\<not> qc_poisoned self'"
    and "rv_items (qc_completeness self') = []" and "origin self' = origin self"
proof -
  from rd obtain n limit where
    s1: "self1 = self\<lparr>qc_offset := qc_offset self + 8 + ucast (n :: u32),
       qc_next_ordinal := qc_next_ordinal self + 1, qc_counters := count_record n (qc_counters self)\<rparr>"
    and off: "unat (qc_offset self1) = unat (qc_offset self) + 8 + unat n"
    and ord: "unat (qc_next_ordinal self1) = unat (qc_next_ordinal self) + 1"
    and raw: "pr_record_type r = record_type_from_raw (pr_raw_type r)"
    and pr: "pr_offset r = qc_offset self" "pr_ordinal r = qc_next_ordinal self"
    and limit: "record_payload_limit (qc_header self) (pr_raw_type r) (pr_flags r) (coordinate r) = Inr limit"
    and hdr: "source_bytes_at (qc_source self) (qc_offset self) 8
       (to_le_bytes 2 (pr_raw_type r) @ to_le_bytes 2 (pr_flags r) @ to_le_bytes 4 n)"
    and pay: "source_bytes_at (qc_source self) (qc_offset self + 8) (unat n) (pr_payload r)"
    by (rule read_record_okE)
  have core1: "core self1 evs frs"
    using tr by (simp add: tracks_def s1 core_read)
  have same1: "qc_header self1 = qc_header self" "qc_pending self1 = qc_pending self" "qc_began self1 = qc_began self"
    "qc_source self1 = qc_source self" "qc_identity self1 = qc_identity self" "qc_mode self1 = qc_mode self"
    "qc_drained self1 = qc_drained self" "qc_poisoned self1 = qc_poisoned self"
    "qc_completeness self1 = qc_completeness self"
    by (simp_all add: s1)
  have "advances self1 evs frs r v self'"
    by (rule decode_record_advances [OF core1 running dec raw])
      (use limit begun contiguous same1 in simp_all)
  then obtain evs' frs' where adv: "spec_step (sid_artifact (qc_identity self)) (qc_header self) evs frs r (qc_offset self1) evs' frs'"
    "core self' evs' frs'" "case v of None \<Rightarrow> evs' = evs | Some ev \<Rightarrow> evs' = evs @ [ev]"
    unfolding advances_def same1 by (elim exE conjE)
  have fr: "frame self1 self'"
    by (rule decode_record_frame [OF dec]) (use core1 in \<open>simp add: core_def\<close>)
  have "stored (qc_source self) r (qc_offset self1)"
    unfolding stored_def pr using raw hdr pay off by blast
  moreover have "unat (pr_ordinal r) = length recs"
    using tr pr(2) by (simp add: tracks_def)
  moreover have "stream_run (qc_source self) (sid_artifact (qc_identity self)) (qc_header self) (qc_offset self) recs evs frs"
    using tr by (simp add: tracks_def)
  ultimately have "stream_run (qc_source self) (sid_artifact (qc_identity self)) (qc_header self) (qc_offset self1)
      (recs @ [r]) evs' frs'"
    using run_step pr(1) adv(1) by blast
  then have run: "stream_run (qc_source self') (sid_artifact (qc_identity self')) (qc_header self') (qc_offset self')
      (recs @ [r]) evs' frs'"
    using fr by (simp add: frame_def same1)
  have counters: "counters_view self1 evs"
    using tr count_record_exact [OF _ ord _ _ _ off] by (simp add: tracks_def counters_view_def s1)
  then have cv: "counters_view self' evs"
    using fr by (simp add: counters_view_def frame_def)
  show thesis
    by (rule that [OF adv(3) run adv(2) _ cv]) (use fr same1 tr ord in \<open>simp_all add: frame_def tracks_def origin_def\<close>)
qed

lemma finish_tracks:
  assumes "tracks self recs evs frs" and "finish_stream H G (self, w) = (Inr v, (self', w'))"
    and "src_len (qc_source self) w1 \<le> qc_offset self"
  shows "v = None \<and> finished self' recs evs \<and> origin self' = origin self"
proof -
  have f: "v = None" "qc_began self" "qc_pending self = None" "qc_terminal_seen self \<or> qc_mode self = RecoverablePartial"
    "self' = self\<lparr>qc_completeness := qc_completeness self', qc_drained := True\<rparr>"
    "rv_items (qc_completeness self') = drained_completeness self"
    using finish_stream_ok [OF assms(2)] by simp_all
  have "frs = []"
    using assms(1) f(3) by (cases frs) (auto simp: tracks_def core_def pending_view_def)
  moreover have "qc_mode self' = qc_mode self" "qc_source self' = qc_source self" "qc_offset self' = qc_offset self"
    "origin self' = origin self"
    by (subst f(5), simp add: origin_def)+
  moreover have "evs \<noteq> []" "qc_terminal_seen self = terminated evs"
    using assms(1) f(2) by (simp_all add: tracks_def core_def)
  ultimately show ?thesis
    using assms(1,3) f(1,4,5,6) unfolding finished_def by auto
qed

lemma tracks_emitted:
  assumes "counters_view self evs" and "stream_run S a h offset recs (evs @ [ev]) frs"
    and "length recs = unat (qc_next_ordinal self)"
  shows "counters_view (self\<lparr>qc_counters := (qc_counters self)\<lparr>pcn_events_emitted :=
      saturating_add (pcn_events_emitted (qc_counters self)) 1\<rparr>\<rparr>) (evs @ [ev])"
proof -
  have "Suc (length evs) < 2 ^ 64"
    using stream_run_length [OF assms(2)] assms(3) unat_less_2p [of "qc_next_ordinal self"] by simp
  then show ?thesis
    using assms(1) by (simp add: counters_view_def unat_saturating_add)
qed

definition follows ::
  "'w qtrb_cursor \<Rightarrow> physical_record list \<Rightarrow> event_record list \<Rightarrow> event_record option option \<Rightarrow> bool" where
  "follows self recs evs out = (case out of
       None \<Rightarrow> (\<exists>recs' frs'. tracks self recs' evs frs')
     | Some (Some ev) \<Rightarrow> (\<exists>recs' frs'. tracks self recs' (evs @ [ev]) frs')
     | Some None \<Rightarrow> finished self recs evs)"

lemma iteration_tracks:
  assumes tr: "tracks self recs evs frs"
    and it: "next_event_iteration H G (self, w) = (Inr out, (self', w'))"
  shows "follows self' recs evs out \<and> origin self' = origin self"
proof (cases "qc_terminal_seen self \<or> qc_offset self = src_len (qc_source self) w")
  case True
  then obtain v where v: "out = Some v" "finish_stream H G (self, w) = (Inr v, (self', w'))"
    "src_len (qc_source self) w \<le> qc_offset self"
    using it unfolding next_event_iteration_def by (auto split: if_splits elim!: mapSomeE)
  from finish_tracks [OF tr v(2,3)] v(1) show ?thesis by (simp add: follows_def)
next
  case False
  then have running: "\<not> terminated evs"
    using tr by (simp add: tracks_def core_def)
  obtain r self1 w1 v self2 w2 where rd: "read_record H G (self, w) = (Inr r, (self1, w1))"
    and begun: "qc_began self \<or> pr_record_type r = Some RT_TraceBegin"
    and pend: "\<And>p. qc_pending self = Some p \<Longrightarrow>
      pr_record_type r = Some (fragment_record_type (pf_kind p)) \<and> pr_flags r = CHUNK_FLAG"
    and dec: "decode_record H G r (self1, w1) = (Inr v, (self2, w2))"
    and out: "case v of None \<Rightarrow> out = None \<and> self' = self2
      | Some ev \<Rightarrow> out = Some (Some ev) \<and> self' = self2\<lparr>qc_counters := (qc_counters self2)\<lparr>pcn_events_emitted :=
          saturating_add (pcn_events_emitted (qc_counters self2)) 1\<rparr>\<rparr>"
    using it False unfolding next_event_iteration_def
    by (auto simp: bindR_Inr split: if_splits option.splits)
  obtain evs' frs' where k: "case v of None \<Rightarrow> evs' = evs | Some ev \<Rightarrow> evs' = evs @ [ev]"
    "stream_run (qc_source self2) (sid_artifact (qc_identity self2)) (qc_header self2) (qc_offset self2)
      (recs @ [r]) evs' frs'"
    "core self2 evs' frs'" "unat (qc_next_ordinal self2) = length (recs @ [r])"
    "counters_view self2 evs" "\<not> qc_drained self2" "\<not> qc_poisoned self2"
    "rv_items (qc_completeness self2) = []" "origin self2 = origin self"
    by (rule record_tracks [OF tr running rd begun pend dec])
  show ?thesis
  proof (cases v)
    case None
    then have o': "out = None" "self' = self2" and "tracks self' (recs @ [r]) evs frs'"
      using out k by (simp_all add: tracks_def)
    then have "follows self' recs evs out"
      unfolding follows_def by (simp, blast)
    then show ?thesis using k(9) o'(2) by simp
  next
    case (Some ev)
    then have o': "out = Some (Some ev)" "self' = self2\<lparr>qc_counters := (qc_counters self2)\<lparr>pcn_events_emitted :=
          saturating_add (pcn_events_emitted (qc_counters self2)) 1\<rparr>\<rparr>" and e: "evs' = evs @ [ev]"
      using out k(1) by simp_all
    have "counters_view self' (evs @ [ev])"
      unfolding o'(2) by (rule tracks_emitted [OF k(5) k(2) [unfolded e] k(4) [symmetric]])
    then have "tracks self' (recs @ [r]) (evs @ [ev]) frs'"
      using k by (simp add: o'(2) e tracks_def core_counters)
    then have "follows self' recs evs out"
      unfolding follows_def o'(1) by (simp, blast)
    then show ?thesis using k(9) o'(2) by (simp add: origin_def)
  qed
qed

definition returns ::
  "'w qtrb_cursor \<Rightarrow> event_record list \<Rightarrow> event_record option \<Rightarrow> bool" where
  "returns self evs ret \<longleftrightarrow> (\<exists>recs frs. case ret of
       Some ev \<Rightarrow> tracks self recs (evs @ [ev]) frs
     | None \<Rightarrow> finished self recs evs)"

lemma inner_tracks:
  assumes "tracks self recs evs frs" and "next_event_inner H G (self, w) = (Inr ret, (self', w'))"
  shows "returns self' evs ret \<and> origin self' = origin self"
proof -
  have "\<And>self w recs frs. s = (self, w) \<Longrightarrow> tracks self recs evs frs \<Longrightarrow>
      next_event_inner H G s = (Inr ret, (self', w')) \<Longrightarrow>
      returns self' evs ret \<and> origin self' = origin self" for s
  proof (induction H G s rule: next_event_inner.induct)
    case (1 H G s)
    obtain out self1 w1 where it: "next_event_iteration H G s = (Inr out, (self1, w1))"
      and k: "(case out of Some returned \<Rightarrow> (Inr returned, (self1, w1)) | None \<Rightarrow> next_event_inner H G (self1, w1)) =
        (Inr ret, (self', w'))"
      using "1.prems"(3) by (subst (asm) next_event_inner.simps) (auto simp: bindR_Inr)
    have fl: "follows self1 recs evs out" "origin self1 = origin self"
      using iteration_tracks [OF "1.prems"(2)] it "1.prems"(1) by blast+
    show ?case
    proof (cases out)
      case None
      then obtain recs' frs' where "tracks self1 recs' evs frs'"
        using fl(1) by (auto simp: follows_def)
      moreover have "next_event_inner H G (self1, w1) = (Inr ret, (self', w'))"
        using k None by simp
      ultimately have "returns self' evs ret \<and> origin self' = origin self1"
        using "1.IH" [OF it None] by blast
      then show ?thesis using fl(2) by simp
    next
      case (Some v)
      then have "ret = v" "self1 = self'" using k by simp_all
      then show ?thesis
        using fl Some by (cases v) (simp_all add: follows_def returns_def, blast)
    qed
  qed
  then show ?thesis using assms by blast
qed

lemma next_event_tracks:
  assumes "tracks self recs evs frs" and "next_event H G (self, w) = (Inr ret, (self', w'))"
  shows "returns self' evs ret \<and> origin self' = origin self"
proof -
  have "next_event_inner H G (self, w) = (Inr ret, (self', w'))"
    using assms by (auto simp: next_event_def tracks_def split: prod.splits sum.splits)
  then show ?thesis using inner_tracks [OF assms(1)] by blast
qed

section \<open>Runs of the cursor\<close>

text \<open>
  The events a cursor has returned. Every call may come with another guard and in another world:
  only the cursor itself is carried from one call to the next.
\<close>

inductive emits :: "'w host \<Rightarrow> 'w qtrb_cursor \<Rightarrow> event_record list \<Rightarrow> 'w qtrb_cursor \<Rightarrow> bool" for H self where
  emits_none: "emits H self [] self"
| emits_event: "emits H self evs self1 \<Longrightarrow> next_event H G (self1, w) = (Inr (Some ev), (self2, w2)) \<Longrightarrow>
     emits H self (evs @ [ev]) self2"

lemma emits_tracks:
  assumes "emits H self evs self'" and "tracks self [] [] []"
  shows "(\<exists>recs frs. tracks self' recs evs frs) \<and> origin self' = origin self"
  using assms
proof (induction rule: emits.induct)
  case emits_none
  then show ?case by auto
next
  case (emits_event evs self1 G w ev self2 w2)
  then obtain recs frs where "tracks self1 recs evs frs" and "origin self1 = origin self"
    by blast
  with next_event_tracks [OF _ emits_event.hyps(2)] show ?case
    by (fastforce simp: returns_def)
qed

definition wire_stream_header :: "u8 \<Rightarrow> stream_header \<Rightarrow> u8 list" where
  "wire_stream_header pointer_width h =
     MAGIC @ [MAJOR_VERSION, hdr_minor h, LITTLE_ENDIAN_MARKER, pointer_width, hdr_profile h, 0] @
     to_le_bytes 2 (word_of_nat STREAM_HEADER_BYTES :: u16) @ to_le_bytes 4 (hdr_required_features h)"

definition stream_header_wf :: "stream_header \<Rightarrow> bool" where
  "stream_header_wf h \<longleftrightarrow> hdr_profile h \<le> 2 \<and>
     (hdr_minor h = 0 \<and> hdr_required_features h = 0 \<or> hdr_minor h = 1 \<and> hdr_required_features h = 0 \<or>
      hdr_minor h = 2 \<and> hdr_required_features h = 1)"

lemma stream_header_parse_ok:
  assumes "stream_header_parse bytes w = (Inr h, w')"
  shows "stream_header_wf h \<and> (\<exists>pw. (pw = 4 \<or> pw = 8) \<and> bytes = wire_stream_header pw h)"
  using assms unfolding stream_header_parse_def
  by (elim with_payload_okE read_elims)
    (auto simp: stream_header_wf_def wire_stream_header_def not_less dest!: word_of_unat_eq)

lemma opened_header:
  assumes "qtrb_open H G S identity mode w = (Inr p, w')"
  shows "qp_source p = S" "qp_mode p = mode" "sid_artifact (qp_identity p) = sid_artifact identity"
    "stream_header_wf (qp_header p)"
    "\<exists>pw. (pw = 4 \<or> pw = 8) \<and> source_bytes_at S 0 STREAM_HEADER_BYTES (wire_stream_header pw (qp_header p))"
proof -
  obtain bytes w1 w2 w3 h where rd: "src_read_exact_at S 0 STREAM_HEADER_BYTES w1 = (Inr bytes, w2)"
    and h: "stream_header_parse bytes w2 = (Inr h, w3)"
    and p: "qp_source p = S" "qp_mode p = mode" "sid_artifact (qp_identity p) = sid_artifact identity" "qp_header p = h"
    using assms unfolding qtrb_open_def by (auto simp: bindR_Inr)
  show "qp_source p = S" "qp_mode p = mode" "sid_artifact (qp_identity p) = sid_artifact identity"
    by (fact p)+
  show "stream_header_wf (qp_header p)"
    "\<exists>pw. (pw = 4 \<or> pw = 8) \<and> source_bytes_at S 0 STREAM_HEADER_BYTES (wire_stream_header pw (qp_header p))"
    using stream_header_parse_ok [OF h] source_bytes_atI [OF rd] p(4) by auto
qed

lemma hash_map_len_new: "hash_map_len hash_map_new = 0"
  by (simp add: hash_map_len_def hash_map_new_def)

lemma opened_tracks:
  assumes "qtrb_open H G S identity mode w = (Inr p, w')"
  shows "tracks (into_cursor p) [] [] []"
proof -
  have "core (into_cursor p) [] []"
    using opened_header(4) [OF assms]
    by (simp add: core_def into_cursor_def stream_header_wf_def trace_begin_def trace_tid_def instruction_total_def
        modules_view_def definitions_view_def known_module_def known_definition_def terminated_def
        termination_of_def group_open_def pending_view_def hash_map_len_new)
  then show ?thesis
    by (simp add: tracks_def counters_view_def into_cursor_def run_start counters_default_def)
qed

end
