(* ===== verification/Qtrb_Traces.thy ===== *)
theory Qtrb_Traces
  imports Qtrb_Refinement
begin

text \<open>
  Consequences of the abstract specification for every trace it allows: the lifecycle of a trace,
  the numbering of its instructions, its dictionaries, the places its events come from, and the
  bytes of the source it accounts for.
\<close>

section \<open>Lifecycle\<close>

definition is_begin :: "event_record \<Rightarrow> bool" where
  "is_begin e \<longleftrightarrow> (\<exists>b. er_payload e = P_Begin b)"

definition is_termination :: "event_record \<Rightarrow> bool" where
  "is_termination e \<longleftrightarrow> (\<exists>t. er_payload e = P_Termination t)"

definition is_instruction :: "event_record \<Rightarrow> bool" where
  "is_instruction e \<longleftrightarrow> (\<exists>i. er_payload e = P_Instruction i)"

lemma group_event_payload [simp]:
  "er_payload (group_event a tid kind frs) = semantic_event_payload kind
     \<lparr>se_category = fr_category (snd (hd frs)), se_name = fr_name (snd (hd frs)), se_detail = group_detail frs,
      se_fragment_sequences = []\<rparr>"
  by (simp add: group_event_def case_prod_unfold)

lemma group_event_key:
  "er_key (group_event a tid kind frs) =
     event_key_new a TIMELINE_ID (pr_ordinal (fst (hd frs))) (pr_offset (fst (hd frs))) None tid"
  "er_fragment_source_offsets (group_event a tid kind frs) = map (pr_offset \<circ> fst) frs"
  "er_provenance (group_event a tid kind frs) = Captured"
  "er_scope (group_event a tid kind frs) = ArtifactScope"
  by (simp_all add: group_event_def case_prod_unfold)

lemma group_text_ne: "group_text frs \<Longrightarrow> frs \<noteq> []"
  by (auto simp: group_text_def)

lemma semantic_payload_kinds [simp]:
  "semantic_event_payload kind s \<noteq> P_Begin b" "semantic_event_payload kind s \<noteq> P_Termination t"
  "semantic_event_payload kind s \<noteq> P_Instruction i" "semantic_event_payload kind s \<noteq> P_ModuleDefinition m"
  "semantic_event_payload kind s \<noteq> P_InstructionDefinition d" "semantic_event_payload kind s \<noteq> P_Memory x"
  by (cases kind; simp add: semantic_event_payload_def)+

lemma emitted_begin:
  assumes "emitted a h evs ev"
  shows "is_begin ev \<longleftrightarrow> evs = []"
  using assms
proof cases
  case (emitted_record r e seq tid p)
  from emitted_record(2) show ?thesis
    by cases (auto simp: emitted_record(1) is_begin_def)
next
  case (emitted_group frs kind)
  then show ?thesis by (simp add: is_begin_def)
qed

lemma terminated_iff: "terminated evs \<longleftrightarrow> (\<exists>e \<in> set evs. is_termination e)"
  by (induction evs) (auto simp: terminated_def is_termination_def eq_commute [of "P_Termination _"])

lemma trace_lifecycle:
  assumes "stream_run S a h offset recs evs frs"
  shows "(\<forall>k < length evs. is_begin (evs ! k) \<longleftrightarrow> k = 0) \<and>
    (\<forall>k < length evs. is_termination (evs ! k) \<longrightarrow> Suc k = length evs)"
  using assms
proof (induction rule: trace_induct)
  case (Snoc evs ev)
  have "\<not> is_termination (evs ! k)" if "k < length evs" for k
    using Snoc(2) nth_mem [OF that] by (simp add: terminated_iff)
  with Snoc.IH emitted_begin [OF Snoc(3)] show ?case
    by (simp add: nth_append less_Suc_eq)
qed simp

lemma trace_first:
  assumes "stream_run S a h offset recs evs frs" and "evs \<noteq> []"
  obtains b where "er_payload (hd evs) = P_Begin b" and "trace_begin evs = Some b"
proof -
  have "is_begin (hd evs)"
    using trace_lifecycle [OF assms(1)] assms(2) by (auto simp: hd_conv_nth)
  then show thesis
    using that assms(2) by (cases evs) (auto simp: is_begin_def trace_begin_def)
qed

lemma emitted_tid:
  assumes "emitted a h evs ev"
  shows "ek_tid (er_key ev) = trace_tid (evs @ [ev]) \<and> ek_artifact (er_key ev) = a \<and> er_provenance ev = Captured"
  using assms
proof cases
  case (emitted_record r e seq tid p)
  from emitted_record(2) show ?thesis
    by cases (auto simp: emitted_record(1) event_key_new_def trace_tid_def trace_begin_def trace_begin_append
        split: list.split)
next
  case (emitted_group frs kind)
  then show ?thesis
    by (simp add: group_event_key event_key_new_def trace_tid_append)
qed

lemma trace_tids:
  assumes "stream_run S a h offset recs evs frs"
  shows "\<forall>e \<in> set evs. ek_tid (er_key e) = trace_tid evs \<and> ek_artifact (er_key e) = a \<and> er_provenance e = Captured"
  using assms
proof (induction rule: trace_induct)
  case (Snoc evs ev)
  then show ?case
    using emitted_tid [OF Snoc(3)] by (cases "evs = []") (auto simp: trace_tid_append)
qed simp

section \<open>Instruction numbers\<close>

lemma emitted_sequence:
  assumes "emitted a h evs ev" and "is_instruction ev"
  shows "\<exists>seq. ek_sequence (er_key ev) = Some seq \<and> unat seq = Suc (instruction_total evs)"
  using assms(1)
proof cases
  case (emitted_record r e seq tid p)
  from emitted_record(2) assms(2) show ?thesis
    by cases (auto simp: emitted_record(1) is_instruction_def event_key_new_def)
next
  case (emitted_group frs kind)
  then show ?thesis using assms(2) by (simp add: is_instruction_def)
qed

lemma instruction_total_filter: "instruction_total evs = length (filter is_instruction evs)"
  by (induction evs) (auto simp: instruction_total_def is_instruction_def payloads_def)

lemma trace_sequences:
  assumes "stream_run S a h offset recs evs frs"
  shows "map (ek_sequence \<circ> er_key) (filter is_instruction evs) =
    map (Some \<circ> word_of_nat) [1..<Suc (instruction_total evs)]"
  using assms
proof (induction rule: trace_induct)
  case (Snoc evs ev)
  show ?case
  proof (cases "is_instruction ev")
    case True
    then obtain seq where "ek_sequence (er_key ev) = Some seq" "unat seq = Suc (instruction_total evs)"
      using emitted_sequence [OF Snoc(3)] by blast
    moreover from this(2) have "seq = word_of_nat (Suc (instruction_total evs))"
      by (metis word_of_unat_eq)
    ultimately show ?thesis
      using Snoc.IH True by (simp add: instruction_total_filter)
  next
    case False
    then show ?thesis using Snoc.IH by (simp add: instruction_total_filter)
  qed
qed (simp add: instruction_total_def)

section \<open>References and dictionaries\<close>

text \<open>What a record may refer to: only what the events before it have defined.\<close>

definition resolved :: "event_record list \<Rightarrow> event_payload \<Rightarrow> bool" where
  "resolved prior p = (case p of
       P_Instruction i \<Rightarrow>
         (\<exists>m. known_module prior m \<and> md_module_id m = in_module_id i) \<and>
         (\<exists>d. known_definition prior d \<and> id_definition_id d = in_definition_id i \<and> instruction_matches d i)
     | P_Memory x \<Rightarrow> memory_wf x \<and> (\<exists>m. known_module prior m \<and> md_module_id m = ma_module_id x)
     | P_ModuleDefinition m \<Rightarrow> consistent_module prior m
     | P_InstructionDefinition d \<Rightarrow> consistent_definition prior d \<and> instruction_definition_wf d
     | _ \<Rightarrow> True)"

lemma resolved_semantic: "resolved evs (semantic_event_payload kind s)"
  by (cases kind) (simp_all add: resolved_def semantic_event_payload_def)

lemma emitted_resolved:
  assumes "emitted a h evs ev"
  shows "resolved evs (er_payload ev)"
  using assms
proof cases
  case (emitted_record r e seq tid p)
  from emitted_record(2) have "resolved evs p"
    by cases (simp_all add: resolved_semantic, auto simp: resolved_def)
  then show ?thesis by (simp add: emitted_record(1))
next
  case (emitted_group frs kind)
  then show ?thesis by (simp add: resolved_semantic)
qed

lemma trace_resolved:
  assumes "stream_run S a h offset recs evs frs"
  shows "\<forall>k < length evs. resolved (take k evs) (er_payload (evs ! k))"
  using assms
proof (induction rule: trace_induct)
  case (Snoc evs ev)
  then show ?case
    using emitted_resolved [OF Snoc(3)] by (auto simp: nth_append less_Suc_eq)
qed simp

lemma trace_modules:
  assumes "stream_run S a h offset recs evs frs"
  shows "\<forall>m m'. known_module evs m \<and> known_module evs m' \<and> md_module_id m = md_module_id m' \<longrightarrow> m = m'"
  using assms
proof (induction rule: trace_induct)
  case Nil
  then show ?case by (simp add: known_module_def)
next
  case (Snoc evs ev)
  have "consistent_module evs m" if "er_payload ev = P_ModuleDefinition m" for m
    using emitted_resolved [OF Snoc(3)] that by (simp add: resolved_def)
  with Snoc.IH show ?case
    unfolding known_module_snoc consistent_module_def by (metis event_payload.inject(2))
qed

lemma trace_definitions:
  assumes "stream_run S a h offset recs evs frs"
  shows "\<forall>d d'. known_definition evs d \<and> known_definition evs d' \<and>
    id_definition_id d = id_definition_id d' \<longrightarrow> d = d'"
  using assms
proof (induction rule: trace_induct)
  case Nil
  then show ?case by (simp add: known_definition_def)
next
  case (Snoc evs ev)
  have "consistent_definition evs d" if "er_payload ev = P_InstructionDefinition d" for d
    using emitted_resolved [OF Snoc(3)] that by (simp add: resolved_def)
  with Snoc.IH show ?case
    unfolding known_definition_snoc consistent_definition_def by (metis event_payload.inject(3))
qed

section \<open>Where events come from\<close>

definition event_places :: "event_record list \<Rightarrow> (nat \<times> nat) list" where
  "event_places evs = map (\<lambda>e. (unat (ek_source_offset (er_key e)), unat (ek_record_ordinal (er_key e)))) evs"

definition fragment_places :: "fragment_record list \<Rightarrow> (nat \<times> nat) list" where
  "fragment_places frs = map (\<lambda>(r, f). (unat (pr_offset r), unat (pr_ordinal r))) frs"

definition before :: "nat \<times> nat \<Rightarrow> nat \<times> nat \<Rightarrow> bool" where
  "before p q \<longleftrightarrow> fst p < fst q \<and> snd p < snd q"

lemma trace_places:
  assumes "stream_run S a h offset recs evs frs"
  shows "sorted_wrt before (event_places evs @ fragment_places frs @ [(unat offset, length recs)])"
  using assms
proof (induction rule: stream_run.induct)
  case run_start
  then show ?case by (simp add: event_places_def fragment_places_def)
next
  case (run_step offset recs evs frs r e evs' frs')
  have r: "unat (pr_offset r) = unat offset" "unat (pr_ordinal r) = length recs"
    and e: "unat offset < unat e"
    using run_step.hyps by (auto simp: stored_def)
  from run_step.hyps(5) show ?case
  proof cases
    case (emit seq tid p)
    then show ?thesis
      using run_step.IH r e
      by (auto simp: event_places_def fragment_places_def event_key_new_def sorted_wrt_append before_def)
  next
    case (hold kind f)
    then show ?thesis
      using run_step.IH r e
      by (auto simp: event_places_def fragment_places_def sorted_wrt_append before_def)
  next
    case (join kind f)
    then show ?thesis
      using run_step.IH r e
      by (cases frs) (auto simp: event_places_def fragment_places_def group_event_key event_key_new_def
          sorted_wrt_append before_def)
  qed
qed

text \<open>An event and the record it was decoded from.\<close>

definition record_encodes :: "physical_record \<Rightarrow> event_record \<Rightarrow> bool" where
  "record_encodes r e \<longleftrightarrow>
     pr_offset r = ek_source_offset (er_key e) \<and> pr_ordinal r = ek_record_ordinal (er_key e) \<and>
     (case er_payload e of
        P_Begin b \<Rightarrow> pr_record_type r = Some RT_TraceBegin \<and> pr_payload r = wire_begin b
      | P_ModuleDefinition m \<Rightarrow> pr_record_type r = Some RT_ModuleDefinition \<and> pr_payload r = wire_module m
      | P_InstructionDefinition d \<Rightarrow>
          pr_record_type r = Some RT_InstructionDefinition \<and> pr_payload r = wire_instruction_definition d
      | P_Instruction i \<Rightarrow> pr_record_type r = Some RT_Instruction \<and>
          (\<exists>seq. ek_sequence (er_key e) = Some seq \<and> pr_payload r = wire_instruction seq i)
      | P_Memory x \<Rightarrow> pr_record_type r = Some RT_Memory \<and> pr_payload r = wire_memory x
      | P_SemanticCall s \<Rightarrow> pr_record_type r = Some RT_Call \<and> pr_payload r = wire_semantic s
      | P_SemanticRule s \<Rightarrow> pr_record_type r = Some RT_Rule \<and> pr_payload r = wire_semantic s
      | P_SemanticError s \<Rightarrow> pr_record_type r = Some RT_Error \<and> pr_payload r = wire_semantic s
      | P_Termination t \<Rightarrow> (\<exists>rt. pr_record_type r = Some rt \<and> terminal_record rt (pr_payload r) t)
      | P_OpaqueOptional x \<Rightarrow> pr_record_type r = None \<and> oo_record_type x = pr_raw_type r \<and>
          oo_flags x = pr_flags r \<and> oo_bytes x = pr_payload r
      | _ \<Rightarrow> False)"

definition fragments_encode :: "fragment_record list \<Rightarrow> event_record \<Rightarrow> bool" where
  "fragments_encode frs e \<longleftrightarrow> frs \<noteq> [] \<and> (\<forall>(r, f) \<in> set frs. pr_payload r = wire_fragment f) \<and>
     map (pr_offset \<circ> fst) frs = er_fragment_source_offsets e \<and>
     map (unat \<circ> fr_index \<circ> snd) frs = [0..<length frs] \<and>
     (\<exists>kind s. er_payload e = semantic_event_payload kind s \<and>
        se_detail s = concat (map (fr_detail \<circ> snd) frs) \<and>
        (\<forall>(r, f) \<in> set frs. pr_record_type r = Some (fragment_record_type kind) \<and> fr_name f = se_name s \<and>
           fr_category f = se_category s \<and> unat (fr_total f) = length (se_detail s) \<and> unat (fr_count f) = length frs))"

definition located :: "physical_record list \<Rightarrow> event_record \<Rightarrow> bool" where
  "located recs e \<longleftrightarrow> (\<exists>r \<in> set recs. er_fragment_source_offsets e = [] \<and> record_encodes r e) \<or>
     (\<exists>frs. fst ` set frs \<subseteq> set recs \<and> fragments_encode frs e)"

lemma located_mono: "located recs e \<Longrightarrow> located (recs @ recs') e"
  by (auto simp: located_def)

lemma record_event_encodes:
  assumes "record_event h evs r e seq tid p"
  shows "record_encodes r (captured a tid r seq p)"
proof -
  have sem: "pr_record_type r = Some (fragment_record_type kind) \<Longrightarrow> pr_payload r = wire_semantic s \<Longrightarrow>
      record_encodes r (captured a tid' r seq' (semantic_event_payload kind s))" for kind s tid' seq'
    by (cases kind) (simp_all add: record_encodes_def semantic_event_payload_def fragment_types event_key_new_def)
  from assms show ?thesis
    by cases (simp_all add: sem, auto simp: record_encodes_def event_key_new_def)
qed

text \<open>The fragments of an open group, in order.\<close>

definition group_ordered :: "fragment_record list \<Rightarrow> bool" where
  "group_ordered frs \<longleftrightarrow> map (unat \<circ> fr_index \<circ> snd) frs = [0..<length frs] \<and>
     (\<forall>(r, f) \<in> set frs. pr_payload r = wire_fragment f)"

lemma group_ordered_snoc:
  "group_ordered frs \<Longrightarrow> fragment_follows h kind frs (r, f) \<Longrightarrow> group_ordered (frs @ [(r, f)])"
  by (auto simp: group_ordered_def fragment_follows_def)

lemma group_encodes:
  assumes "group_ordered frs" and "fragment_follows h kind frs (r, f)" and "group_text (frs @ [(r, f)])"
  shows "fragments_encode (frs @ [(r, f)]) (group_event a tid kind (frs @ [(r, f)]))"
proof -
  let ?g = "frs @ [(r, f)]"
  have same: "\<And>y. y \<in> set ?g \<Longrightarrow> pr_record_type (fst y) = Some (fragment_record_type kind) \<and>
      fragment_head (snd y) = fragment_head f"
    using assms(2) by (auto simp: fragment_follows_def)
  have hd: "hd ?g \<in> set ?g" by (cases frs) simp_all
  have f: "fragment_head (snd (hd ?g)) = fragment_head f" using same [OF hd] by simp
  have t: "length (group_detail ?g) = unat (fr_total (snd (hd ?g)))" "length ?g = unat (fr_count (snd (hd ?g)))"
    using assms(3) by (cases frs; auto simp: group_text_def)+
  have ord: "group_ordered ?g" by (rule group_ordered_snoc [OF assms(1,2)])
  have det: "group_detail ?g = concat (map (fr_detail \<circ> snd) ?g)"
    by (simp add: group_detail_def case_prod_unfold comp_def)
  have "\<forall>(r', f') \<in> set ?g. pr_record_type r' = Some (fragment_record_type kind) \<and>
      fr_name f' = fr_name (snd (hd ?g)) \<and> fr_category f' = fr_category (snd (hd ?g)) \<and>
      unat (fr_total f') = length (group_detail ?g) \<and> unat (fr_count f') = length ?g"
  proof (rule ballI)
    fix y assume "y \<in> set ?g"
    then show "case y of (r', f') \<Rightarrow> pr_record_type r' = Some (fragment_record_type kind) \<and>
      fr_name f' = fr_name (snd (hd ?g)) \<and> fr_category f' = fr_category (snd (hd ?g)) \<and>
      unat (fr_total f') = length (group_detail ?g) \<and> unat (fr_count f') = length ?g"
      using same [of y] f t by (simp add: case_prod_unfold fragment_head_def)
  qed
  then show ?thesis
    unfolding fragments_encode_def group_event_payload
    using ord det
    by (intro conjI exI [of _ kind] exI [of _ "\<lparr>se_category = fr_category (snd (hd ?g)), se_name = fr_name (snd (hd ?g)),
        se_detail = group_detail ?g, se_fragment_sequences = []\<rparr>"])
      (simp_all only: group_ordered_def group_event_key semantic_event.select_convs, simp_all)
qed

lemma trace_located:
  assumes "stream_run S a h offset recs evs frs"
  shows "(\<forall>e \<in> set evs. located recs e) \<and> fst ` set frs \<subseteq> set recs \<and> group_ordered frs"
  using assms
proof (induction rule: stream_run.induct)
  case run_start
  then show ?case by (simp add: group_ordered_def)
next
  case (run_step offset recs evs frs r e evs' frs')
  from run_step.hyps(5) show ?case
  proof cases
    case (emit seq tid p)
    then have "located (recs @ [r]) (captured a tid r seq p)"
      using record_event_encodes [OF emit(4)] by (auto simp: located_def)
    then show ?thesis
      using run_step.IH emit by (auto intro: located_mono)
  next
    case (hold kind f)
    then show ?thesis
      using run_step.IH group_ordered_snoc [of frs h kind r f] by (auto intro: located_mono)
  next
    case (join kind f)
    have "fragments_encode (frs @ [(r, f)]) (group_event a (trace_tid evs) kind (frs @ [(r, f)]))"
      by (rule group_encodes) (use run_step.IH join in auto)
    moreover have "fst ` set (frs @ [(r, f)]) \<subseteq> set (recs @ [r])"
      using run_step.IH by auto
    ultimately have "located (recs @ [r]) (group_event a (trace_tid evs) kind (frs @ [(r, f)]))"
      unfolding located_def by blast
    then show ?thesis
      using run_step.IH join by (auto intro: located_mono simp: group_ordered_def)
  qed
qed

section \<open>The terminal\<close>

lemma record_event_terminal:
  assumes "record_event h evs r e seq tid p" and "p = P_Termination t"
  shows "terminal_matches evs e t \<and> evs \<noteq> []"
  using assms by cases auto

lemma emitted_payload_terminal:
  "terminated (evs @ [captured a tid r seq p]) \<Longrightarrow> \<not> terminated evs \<Longrightarrow> \<exists>t. p = P_Termination t"
  by (simp add: terminated_snoc)

lemma trace_terminal:
  assumes "stream_run S a h offset recs evs frs" and "terminated evs"
  shows "frs = [] \<and> (\<exists>evs0 ev t. evs = evs0 @ [ev] \<and> er_payload ev = P_Termination t \<and> terminal_matches evs0 offset t \<and>
    evs0 \<noteq> [])"
  using assms
proof cases
  case run_start
  then show ?thesis using assms(2) by (simp add: terminated_iff)
next
  case (run_step offset' recs' evs' frs' r)
  from run_step(6) show ?thesis
  proof cases
    case (emit seq tid p)
    then obtain t where "p = P_Termination t"
      using assms(2) emitted_payload_terminal by blast
    then show ?thesis
      using emit record_event_terminal [OF emit(4)] by simp
  next
    case (hold kind f)
    then show ?thesis using assms(2) by simp
  next
    case (join kind f)
    then show ?thesis using assms(2) by (simp add: terminated_snoc)
  qed
qed

section \<open>The bytes of the source\<close>

definition wire_record :: "physical_record \<Rightarrow> u8 list" where
  "wire_record r = to_le_bytes 2 (pr_raw_type r) @ to_le_bytes 2 (pr_flags r) @
     to_le_bytes 4 (word_of_nat (length (pr_payload r)) :: u32) @ pr_payload r"

lemma byte_source_bytes_at:
  assumes "length (bs_bytes s) < 2 ^ 63" and "count < 2 ^ 63"
    and "source_bytes_at (byte_source_ops s :: 'w read_at_source) offset count bs"
  shows "unat offset + count \<le> length (bs_bytes s) \<and> bs = take count (drop (unat offset) (bs_bytes s))"
proof -
  obtain w w' :: 'w where "src_read_exact_at (byte_source_ops s) offset count w = (Inr bs, w')"
    using assms(3) by (auto simp: source_bytes_at_def)
  from byte_src.read_inside [OF assms(1,2) this] show ?thesis by simp
qed

lemma stored_bytes:
  assumes len: "length (bs_bytes s) < 2 ^ 63" and st: "stored (byte_source_ops s) r e"
  shows "unat e \<le> length (bs_bytes s)" and "unat e = unat (pr_offset r) + length (wire_record r)"
    and "take (unat e) (bs_bytes s) = take (unat (pr_offset r)) (bs_bytes s) @ wire_record r"
proof -
  obtain n :: u32 where hd: "source_bytes_at (byte_source_ops s :: 'a read_at_source) (pr_offset r) 8
        (to_le_bytes 2 (pr_raw_type r) @ to_le_bytes 2 (pr_flags r) @ to_le_bytes 4 n)"
    and pay: "source_bytes_at (byte_source_ops s :: 'a read_at_source) (pr_offset r + 8) (unat n) (pr_payload r)"
    and e: "unat e = unat (pr_offset r) + 8 + unat n"
    using st by (auto simp: stored_def)
  let ?o = "unat (pr_offset r)"
  have h: "?o + 8 \<le> length (bs_bytes s)"
    "to_le_bytes 2 (pr_raw_type r) @ to_le_bytes 2 (pr_flags r) @ to_le_bytes 4 n = take 8 (drop ?o (bs_bytes s))"
    using byte_source_bytes_at [OF len _ hd] by simp_all
  have o8: "unat (pr_offset r + 8) = ?o + 8"
    using h(1) len by (simp add: unat_word_ariths)
  have n63: "unat n < 2 ^ 63" using unat_less_2p [of n] by simp
  have p: "?o + 8 + unat n \<le> length (bs_bytes s)" "pr_payload r = take (unat n) (drop (?o + 8) (bs_bytes s))"
    using byte_source_bytes_at [OF len n63 pay] by (simp_all add: o8)
  then have n: "word_of_nat (length (pr_payload r)) = n"
    by (simp add: min_absorb2)
  show "unat e \<le> length (bs_bytes s)" using e p(1) by simp
  show "unat e = ?o + length (wire_record r)" using e p by (simp add: wire_record_def)
  have "take (unat e) (bs_bytes s) = take ?o (bs_bytes s) @ take 8 (drop ?o (bs_bytes s)) @
      take (unat n) (drop (?o + 8) (bs_bytes s))"
    unfolding e by (simp only: take_add append_assoc)
  then show "take (unat e) (bs_bytes s) = take ?o (bs_bytes s) @ wire_record r"
    by (simp add: wire_record_def n flip: h(2) p(2))
qed

lemma stream_run_bytes:
  assumes "stream_run (byte_source_ops s) a h offset recs evs frs"
    and "length (bs_bytes s) < 2 ^ 63" and "16 \<le> length (bs_bytes s)"
  shows "unat offset \<le> length (bs_bytes s) \<and>
    take (unat offset) (bs_bytes s) = take 16 (bs_bytes s) @ concat (map wire_record recs)"
  using assms
proof (induction rule: stream_run.induct)
  case run_start
  then show ?case by (simp add: STREAM_HEADER_BYTES_def)
next
  case (run_step offset recs evs frs r e evs' frs')
  then show ?case using stored_bytes [OF run_step.prems(1) run_step.hyps(2)] by simp
qed

lemma stream_run_progress:
  assumes "stream_run S a h offset recs evs frs"
  shows "16 + 8 * length recs \<le> unat offset"
  using assms
proof (induction rule: stream_run.induct)
  case run_start
  then show ?case by (simp add: STREAM_HEADER_BYTES_def)
next
  case (run_step offset recs evs frs r e evs' frs')
  then show ?case by (auto simp: stored_def)
qed

end
