(* ===== verification/Qtrace_Eval.thy ===== *)
theory Qtrace_Eval
  imports Provider_Allocation Provider_Source "HOL-Library.Code_Target_Nat"
begin

text \<open>
  Code equations for running the model on concrete inputs inside the logic. They change nothing
  about the definitions: each is proved equal to the definition it replaces, computes with binary
  numbers instead of powers of two, and keeps the operations of sources and guards as named
  constants so that evaluation does not look inside them.
\<close>

section \<open>Words\<close>

lemma take_bit_small: "0 \<le> k \<Longrightarrow> k < 2 ^ m \<Longrightarrow> m \<le> n \<Longrightarrow> take_bit n (k :: int) = k"
  by (simp add: take_bit_int_eq_self order.strict_trans2 [OF _ power_increasing])

definition two_power :: "nat \<Rightarrow> int" where
  [code del]: "two_power n = 2 ^ n"

lemma take_bit_int_code [code]:
  "take_bit n (k :: int) =
     (if 0 \<le> k \<and> k < 256 \<and> 8 \<le> n then k
      else if 0 \<le> k \<and> k < 4294967296 \<and> 32 \<le> n then k
      else if 0 \<le> k \<and> k < 18446744073709551616 \<and> 64 \<le> n then k
      else k mod (if n = 8 then 256 else if n = 16 then 65536 else if n = 32 then 4294967296
        else if n = 64 then 18446744073709551616 else two_power n))"
  using take_bit_small [of k 8 n] take_bit_small [of k 32 n] take_bit_small [of k 64 n]
  by (simp add: take_bit_eq_mod two_power_def)

lemma bit_int_code [code]:
  "bit (k :: int) n =
     (if 0 \<le> k \<and> k < 256 \<and> 8 \<le> n then False else if n = 0 then odd k else bit (k div 2) (n - 1))"
proof (cases "0 \<le> k \<and> k < 256 \<and> 8 \<le> n")
  case True
  then have "take_bit 8 k = k" by (simp add: take_bit_int_eq_self)
  then have "\<not> bit k n" using True by (metis bit_take_bit_iff not_le)
  then show ?thesis using True by simp
next
  case False
  then show ?thesis by (cases n) (auto simp: bit_0 bit_Suc)
qed

lemma sum_fits_iff:
  fixes a b :: "'a::len word"
  shows "unat a + unat b < 2 ^ LENGTH('a) \<longleftrightarrow> a \<le> a + b"
  by (simp add: no_olen_add_nat)

lemma checked_add_code [code]: "checked_add a b = (let c = a + b in if a \<le> c then Some c else None)"
  by (simp add: checked_add_def sum_fits_iff Let_def)

lemma saturating_add_code [code]: "saturating_add a b = (let c = a + b in if a \<le> c then c else - 1)"
  by (simp add: saturating_add_def sum_fits_iff Let_def)

section \<open>Strings\<close>

fun char_byte :: "char \<Rightarrow> u8" where
  "char_byte (Char b0 b1 b2 b3 b4 b5 b6 b7) =
     (if b0 then 1 else 0) + (if b1 then 2 else 0) + (if b2 then 4 else 0) + (if b3 then 8 else 0) +
     (if b4 then 16 else 0) + (if b5 then 32 else 0) + (if b6 then 64 else 0) + (if b7 then 128 else 0)"

lemma char_byte_eq: "char_byte c = of_char c"
  by (cases c) (simp add: of_char_def)

lemma str_bytes_code [code]: "str_bytes s = map char_byte s"
  by (simp add: str_bytes_def char_byte_eq)

section \<open>Operations of sources and guards\<close>

definition byte_len_op :: "byte_source \<Rightarrow> 'w \<Rightarrow> u64" where
  "byte_len_op s w = byte_source_len s"

definition byte_read_op :: "byte_source \<Rightarrow> u64 \<Rightarrow> usize \<Rightarrow> ('w, provider_error, u8 list) rm" where
  "byte_read_op s offset count w = (byte_source_read_exact_at s offset count, w)"

lemma byte_source_ops_code [code]:
  "byte_source_ops s = \<lparr>src_len = byte_len_op s, src_read_exact_at = byte_read_op s\<rparr>"
  by (simp add: byte_source_ops_def byte_len_op_def byte_read_op_def fun_eq_iff)

definition accept_work :: "work_delta \<Rightarrow> ('w, operation_abort, unit) rm" where
  "accept_work delta w = (Inr (), w)"

definition accept_scope :: "work_delta \<Rightarrow> u64 \<Rightarrow> ('w, operation_abort, unit) rm" where
  "accept_scope delta slack w = (Inr (), w)"

definition keep_phase :: "work_phase \<Rightarrow> 'w \<Rightarrow> 'w" where
  "keep_phase phase w = w"

definition keep_world :: "'w \<Rightarrow> 'w" where
  "keep_world w = w"

lemma allow_state_work_code [code]:
  "allow_state_work =
     \<lparr>wg_consume = accept_work, wg_begin_phase = keep_phase, wg_parallelism = 1,
      wg_begin_allocation_scope = accept_scope, wg_end_allocation_scope = keep_world\<rparr>"
  by (simp add: allow_state_work_def default_guard_def accept_work_def accept_scope_def keep_phase_def
      keep_world_def fun_eq_iff)

definition sample_size :: "rust_type \<Rightarrow> usize" where
  "sample_size T = (case T of T_u8 \<Rightarrow> 1 | _ \<Rightarrow> 64)"

definition sample_align :: "rust_type \<Rightarrow> usize" where
  "sample_align T = (case T of T_u8 \<Rightarrow> 1 | _ \<Rightarrow> 8)"

definition grant_heap :: "usize \<Rightarrow> 'w \<Rightarrow> bool \<times> 'w" where
  "grant_heap n w = (True, w)"

definition granted_exact :: "rust_type \<Rightarrow> usize \<Rightarrow> usize" where
  "granted_exact T n = n"

definition sample_table :: "rust_type \<Rightarrow> usize \<Rightarrow> usize" where
  "sample_table T n = (case hash_buckets n of None \<Rightarrow> 0 | Some b \<Rightarrow> if n = 0 then 0 else b * 64 + b + 16)"

lemma unbounded_host_code [code]:
  "unbounded_host = \<lparr>size_of = sample_size, align_of = sample_align, heap_reserve = grant_heap,
     granted_capacity = granted_exact, table_bytes = sample_table\<rparr>"
  by (simp add: unbounded_host_def sample_size_def sample_align_def grant_heap_def granted_exact_def
      sample_table_def fun_eq_iff)

end
