(* ===== verification/Qtrb_Sample.thy ===== *)
theory Qtrb_Sample
  imports Qtrb_Refinement Qtrace_Eval
begin

text \<open>
  A small complete QTRB stream (one module, one instruction definition, one instruction, a call
  event in two fragments and a successful terminal) and the run of the cursor over it, evaluated
  inside the logic. The witnesses of the stream properties are about this run.
\<close>

definition sample_bytes :: "u8 list" where
  "sample_bytes =
     [81, 84, 82, 66, 1, 1, 1, 8, 0, 0, 16, 0, 0, 0, 0, 0, 1, 0, 0, 0, 54, 0, 0, 0, 0, 16, 0, 0, 0,
      0, 0, 0, 4, 0, 0, 0, 0, 0, 0, 0, 4, 16, 0, 0, 0, 0, 0, 0, 7, 0, 0, 0, 9, 0, 0, 0, 0, 0, 64,
      0, 0, 0, 0, 0, 0, 0, 1, 0, 0, 0, 0, 0, 0, 0, 0, 0, 0, 0, 2, 0, 0, 0, 15, 0, 0, 0, 5, 0, 0, 0,
      0, 16, 0, 0, 0, 0, 0, 0, 1, 0, 109, 3, 0, 0, 0, 52, 0, 0, 0, 3, 0, 0, 0, 192, 3, 95, 214, 0,
      0, 0, 0, 0, 0, 0, 0, 0, 0, 0, 0, 0, 0, 0, 0, 0, 0, 0, 0, 0, 0, 0, 0, 0, 0, 0, 0, 0, 0, 0, 0,
      3, 0, 114, 101, 116, 0, 0, 3, 0, 114, 101, 116, 4, 0, 0, 0, 26, 0, 0, 0, 1, 0, 0, 0, 0, 0, 0,
      0, 5, 0, 0, 0, 4, 0, 0, 0, 0, 0, 0, 0, 3, 0, 0, 0, 0, 0, 6, 0, 1, 0, 26, 0, 0, 0, 1, 0, 0, 0,
      0, 0, 0, 0, 3, 0, 0, 0, 0, 0, 2, 0, 1, 0, 99, 1, 0, 102, 2, 0, 97, 98, 6, 0, 1, 0, 25, 0, 0,
      0, 1, 0, 0, 0, 0, 0, 0, 0, 3, 0, 0, 0, 1, 0, 2, 0, 1, 0, 99, 1, 0, 102, 1, 0, 99, 9, 0, 0, 0,
      97, 0, 0, 0, 1, 42, 0, 0, 0, 0, 0, 0, 0, 10, 0, 0, 0, 0, 0, 0, 0, 1, 0, 0, 0, 0, 0, 0, 0,
      111, 1, 0, 0, 0, 0, 0, 0, 0, 0, 0, 0, 0, 0, 0, 0, 0, 0, 0, 0, 0, 0, 0, 0, 0, 0, 0, 0, 0, 0,
      0, 0, 0, 0, 0, 0, 0, 0, 0, 0, 0, 0, 0, 0, 0, 0, 0, 0, 0, 0, 0, 0, 0, 0, 0, 0, 0, 0, 0, 0, 0,
      0, 0, 0, 64, 0, 0, 0, 0, 0, 0, 0]"

definition sample_source :: "unit read_at_source" where
  "sample_source = byte_source_ops \<lparr>bs_bytes = sample_bytes\<rparr>"

definition sample_len :: "unit \<Rightarrow> u64" where
  "sample_len w = byte_source_len \<lparr>bs_bytes = sample_bytes\<rparr>"

definition sample_read :: "u64 \<Rightarrow> usize \<Rightarrow> (unit, provider_error, u8 list) rm" where
  "sample_read offset count w = (byte_source_read_exact_at \<lparr>bs_bytes = sample_bytes\<rparr> offset count, w)"

lemma sample_source_code [code]: "sample_source = \<lparr>src_len = sample_len, src_read_exact_at = sample_read\<rparr>"
  by (simp add: sample_source_def byte_source_ops_def sample_len_def sample_read_def fun_eq_iff)

definition sample_identity :: source_identity where
  "sample_identity = \<lparr>sid_artifact = [], sid_format = [], sid_format_major = 0, sid_format_minor = 0,
     sid_source_bytes = 0\<rparr>"

text \<open>Calling \<open>next_event\<close> until \<open>n\<close> events have come.\<close>

fun pull ::
  "nat \<Rightarrow> 'w host \<Rightarrow> 'w work_guard \<Rightarrow> 'w qtrb_cursor \<times> 'w \<Rightarrow> (event_record list \<times> 'w qtrb_cursor \<times> 'w) option" where
  "pull 0 H G s = Some ([], s)"
| "pull (Suc n) H G s = (case next_event H G s of
      (Inr (Some ev), t) \<Rightarrow> (case pull n H G t of Some (evs, u) \<Rightarrow> Some (ev # evs, u) | None \<Rightarrow> None)
    | _ \<Rightarrow> None)"

lemma emits_Cons:
  assumes "emits H self1 evs self2" and "next_event H G (self, w) = (Inr (Some ev), (self1, w1))"
  shows "emits H self (ev # evs) self2"
  using assms
proof (induction rule: emits.induct)
  case emits_none
  then show ?case using emits_event [OF emits.emits_none] by fastforce
next
  case (emits_event evs self2 G' w' ev' self3 w3)
  then show ?case using emits.emits_event [of H self "ev # evs"] by simp
qed

lemma pull_emits:
  "pull n H G (self, w) = Some (evs, (self', w')) \<Longrightarrow> emits H self evs self'"
proof (induction n arbitrary: self w evs)
  case 0
  then show ?case by (simp add: emits.emits_none)
next
  case (Suc n)
  then show ?case
    by (auto split: prod.splits sum.splits option.splits intro: emits_Cons)
qed

lemma count_ones_zero [code]:
  "count_ones bits = (if bits = 0 then 0 else length (filter (bit bits) [0..<64]))"
  by (simp add: count_ones_def)

lemma sample_run_evaluated:
  "case qtrb_open unbounded_host allow_state_work sample_source sample_identity Sealed () of
     (Inl e, w) \<Rightarrow> False
   | (Inr p, w) \<Rightarrow> (case pull 6 unbounded_host allow_state_work (into_cursor p, w) of
       None \<Rightarrow> False
     | Some (evs, s) \<Rightarrow>
         map event_record_kind evs =
           [K_Begin, K_ModuleDefinition, K_InstructionDefinition, K_Instruction, K_SemanticCall, K_Termination] \<and>
         (case next_event unbounded_host allow_state_work s of
             (Inr None, t) \<Rightarrow> (case qtrb_finish (fst t) () of (Inr x, _) \<Rightarrow> True | (Inl x, _) \<Rightarrow> False)
           | (Inr (Some ev), t) \<Rightarrow> False
           | (Inl e, t) \<Rightarrow> False))"
  by code_simp

lemma sample_summary:
  obtains p w evs self w1 self' w2 summary w3 where
    "qtrb_open unbounded_host allow_state_work sample_source sample_identity Sealed () = (Inr p, w)"
    and "emits unbounded_host (into_cursor p) evs self"
    and "map event_record_kind evs =
      [K_Begin, K_ModuleDefinition, K_InstructionDefinition, K_Instruction, K_SemanticCall, K_Termination]"
    and "next_event unbounded_host allow_state_work (self, w1) = (Inr None, (self', w2))"
    and "qtrb_finish self' w2 = (Inr summary, w3)"
proof -
  let ?H = "unbounded_host :: unit host" and ?G = "allow_state_work :: unit work_guard"
  obtain p where o: "qtrb_open ?H ?G sample_source sample_identity Sealed () = (Inr p, ())"
    using sample_run_evaluated
    by (cases "qtrb_open ?H ?G sample_source sample_identity Sealed ()") (auto split: sum.splits)
  obtain evs self where pl: "pull 6 ?H ?G (into_cursor p, ()) = Some (evs, (self, ()))"
    using sample_run_evaluated by (cases "pull 6 ?H ?G (into_cursor p, ())") (auto simp: o)
  obtain r self' where n: "next_event ?H ?G (self, ()) = (r, (self', ()))"
    by (cases "next_event ?H ?G (self, ())") auto
  obtain f where q: "qtrb_finish self' () = (f, ())"
    by (cases "qtrb_finish self' ()") auto
  have "r = Inr None" and "\<exists>summary. f = Inr summary" and "map event_record_kind evs =
      [K_Begin, K_ModuleDefinition, K_InstructionDefinition, K_Instruction, K_SemanticCall, K_Termination]"
    using sample_run_evaluated by (auto simp: o pl n q split: sum.splits option.splits)
  then show thesis
    using that [OF o pull_emits [OF pl]] n q by auto
qed

lemma sample_run:
  obtains p w evs self w1 self' w2 where
    "qtrb_open unbounded_host allow_state_work sample_source sample_identity Sealed () = (Inr p, w)"
    and "emits unbounded_host (into_cursor p) evs self"
    and "map event_record_kind evs =
      [K_Begin, K_ModuleDefinition, K_InstructionDefinition, K_Instruction, K_SemanticCall, K_Termination]"
    and "next_event unbounded_host allow_state_work (self, w1) = (Inr None, (self', w2))"
  using sample_summary by metis

end
