(* ===== verification/Qtrb_Properties.thy ===== *)
theory Qtrb_Properties
  imports Qtrb_Traces Qtrb_Sample
begin

text \<open>
  What holds of every run of the QTRB cursor: the events it returns, wherever a caller stops
  pulling them, whatever guard authorizes each call, and for every source. A run starts with a
  successful \<open>qtrb_open\<close> and is the relation \<^const>\<open>emits\<close>; the stream is drained when a further
  call of \<^const>\<open>next_event\<close> returns \<open>Ok(None)\<close>. The proofs go through the refinement of the
  cursor by the abstract specification.
\<close>

section \<open>Runs and the specification\<close>

lemma opened_run:
  assumes "qtrb_open H G S identity mode w = (Inr p, w')" and "emits H (into_cursor p) evs self"
  obtains recs frs where "tracks self recs evs frs" and "qc_source self = S" and "qc_mode self = mode"
    and "sid_artifact (qc_identity self) = sid_artifact identity" and "qc_header self = qp_header p"
    and "stream_run S (sid_artifact identity) (qp_header p) (qc_offset self) recs evs frs"
proof -
  obtain recs frs where t: "tracks self recs evs frs" and o: "origin self = origin (into_cursor p)"
    using emits_tracks [OF assms(2) opened_tracks [OF assms(1)]] by blast
  have "qc_source self = S" "qc_mode self = mode" "sid_artifact (qc_identity self) = sid_artifact identity"
    "qc_header self = qp_header p"
    using o opened_header(1,2,3) [OF assms(1)] by (simp_all add: origin_def into_cursor_def)
  moreover from this t have "stream_run S (sid_artifact identity) (qp_header p) (qc_offset self) recs evs frs"
    by (simp add: tracks_def)
  ultimately show thesis by (rule that [OF t])
qed

lemma drained_run:
  assumes "qtrb_open H G S identity mode w = (Inr p, w')" and "emits H (into_cursor p) evs self"
    and "next_event H G' (self, w1) = (Inr None, (self', w2))"
  obtains recs where "finished self' recs evs" and "qc_source self' = S" and "qc_mode self' = mode"
    and "qc_header self' = qp_header p"
    and "stream_run S (sid_artifact identity) (qp_header p) (qc_offset self') recs evs []"
proof -
  obtain recs frs where t: "tracks self recs evs frs" and o: "qc_source self = S" "qc_mode self = mode"
    "sid_artifact (qc_identity self) = sid_artifact identity" "qc_header self = qp_header p"
    using opened_run [OF assms(1,2)] by blast
  obtain recs' where f: "finished self' recs' evs" and o': "origin self' = origin self"
    using next_event_tracks [OF t assms(3)] by (auto simp: returns_def)
  obtain b where tb: "tracks b recs' evs []" and b: "self' = b\<lparr>qc_completeness := qc_completeness self', qc_drained := True\<rparr>"
    using f by (auto simp: finished_def)
  have same: "qc_offset self' = qc_offset b" "qc_source self' = qc_source b" "qc_identity self' = qc_identity b"
    "qc_header self' = qc_header b"
    by (subst b, simp)+
  have "stream_run (qc_source b) (sid_artifact (qc_identity b)) (qc_header b) (qc_offset b) recs' evs []"
    using tb by (simp add: tracks_def)
  then show thesis
    using that [OF f] o o' same by (simp add: origin_def)
qed

text \<open>The counters of a drained cursor.\<close>

lemma finished_counters:
  assumes "finished self recs evs"
  shows "counters_view self evs" and "unat (qc_next_ordinal self) = length recs"
    and "qc_termination self = termination_of evs" and "qc_tid self = trace_tid evs"
    and "rv_items (qc_completeness self) =
      \<lparr>cr_domain = SourceBytes, cr_bounds = HalfOpen 0 (qc_offset self), cr_provenance = Captured,
       cr_cause = C_Retained\<rparr> #
      (if terminated evs then [] else
        [\<lparr>cr_domain = SourceBytes, cr_bounds = HalfOpen (qc_offset self) (qc_offset self),
          cr_provenance = Unknown, cr_cause = C_MissingTerminal\<rparr>])"
proof -
  obtain b where tb: "tracks b recs evs []"
    and b: "self = b\<lparr>qc_completeness := qc_completeness self, qc_drained := True\<rparr>"
    and c: "rv_items (qc_completeness self) = drained_completeness b"
    using assms by (auto simp: finished_def)
  have same: "qc_offset self = qc_offset b" "qc_counters self = qc_counters b" "qc_next_ordinal self = qc_next_ordinal b"
    "qc_termination self = qc_termination b" "qc_tid self = qc_tid b"
    by (subst b, simp)+
  show "counters_view self evs" "unat (qc_next_ordinal self) = length recs"
    "qc_termination self = termination_of evs" "qc_tid self = trace_tid evs"
    using tb by (simp_all add: tracks_def counters_view_def core_def same)
  have "rv_items (qc_completeness b) = []" "qc_terminal_seen b = terminated evs"
    using tb by (simp_all add: tracks_def core_def)
  then show "rv_items (qc_completeness self) =
      \<lparr>cr_domain = SourceBytes, cr_bounds = HalfOpen 0 (qc_offset self), cr_provenance = Captured,
       cr_cause = C_Retained\<rparr> #
      (if terminated evs then [] else
        [\<lparr>cr_domain = SourceBytes, cr_bounds = HalfOpen (qc_offset self) (qc_offset self),
          cr_provenance = Unknown, cr_cause = C_MissingTerminal\<rparr>])"
    by (simp add: c same drained_completeness_def source_bytes_with_cause_def half_open_def map_filter_simps)
qed

lemma keys_bound:
  assumes "\<And>x. x \<in> X \<Longrightarrow> \<exists>v. hash_map_get m (key x) = Some v"
  shows "card (key ` X) \<le> hash_map_len m"
proof -
  have "key ` X \<subseteq> set (map fst (hm_entries m))"
    using assms by (force simp: hash_map_get_def dest: map_of_SomeD)
  then have "card (key ` X) \<le> card (set (map fst (hm_entries m)))"
    by (intro card_mono) simp_all
  also have "\<dots> \<le> hash_map_len m"
    using card_length [of "map fst (hm_entries m)"] by (simp add: hash_map_len_def)
  finally show ?thesis .
qed

section \<open>The run of the sample stream\<close>

lemma sample_witness:
  assumes "\<And>p w evs self. qtrb_open unbounded_host allow_state_work sample_source sample_identity Sealed () = (Inr p, w) \<Longrightarrow>
      emits unbounded_host (into_cursor p) evs self \<Longrightarrow> Q p evs self"
  shows "\<exists>p w evs self. qtrb_open unbounded_host allow_state_work sample_source sample_identity Sealed () = (Inr p, w) \<and>
      emits unbounded_host (into_cursor p) evs self \<and> length evs = 6 \<and> Q p evs self"
proof -
  obtain p w evs self where o: "qtrb_open unbounded_host allow_state_work sample_source sample_identity Sealed () = (Inr p, w)"
    and e: "emits unbounded_host (into_cursor p) evs self" and k: "map event_record_kind evs =
      [K_Begin, K_ModuleDefinition, K_InstructionDefinition, K_Instruction, K_SemanticCall, K_Termination]"
    by (rule sample_run)
  have "length evs = 6" using arg_cong [OF k, of length] by simp
  then show ?thesis using o e assms [OF o e] by blast
qed

lemma sample_drained_witness:
  assumes "\<And>p w evs self w1 self' w2.
      qtrb_open unbounded_host allow_state_work sample_source sample_identity Sealed () = (Inr p, w) \<Longrightarrow>
      emits unbounded_host (into_cursor p) evs self \<Longrightarrow>
      next_event unbounded_host allow_state_work (self, w1) = (Inr None, (self', w2)) \<Longrightarrow> Q p evs self'"
  shows "\<exists>p w evs self w1 self' w2.
      qtrb_open unbounded_host allow_state_work sample_source sample_identity Sealed () = (Inr p, w) \<and>
      emits unbounded_host (into_cursor p) evs self \<and>
      next_event unbounded_host allow_state_work (self, w1) = (Inr None, (self', w2)) \<and> length evs = 6 \<and> Q p evs self'"
proof -
  obtain p w evs self w1 self' w2
    where o: "qtrb_open unbounded_host allow_state_work sample_source sample_identity Sealed () = (Inr p, w)"
    and e: "emits unbounded_host (into_cursor p) evs self" and k: "map event_record_kind evs =
      [K_Begin, K_ModuleDefinition, K_InstructionDefinition, K_Instruction, K_SemanticCall, K_Termination]"
    and n: "next_event unbounded_host allow_state_work (self, w1) = (Inr None, (self', w2))"
    by (rule sample_run)
  have "length evs = 6" using arg_cong [OF k, of length] by simp
  then show ?thesis using o e n assms [OF o e n] by blast
qed

section \<open>Properties of runs\<close>

text \<open>
  C1. Refinement of the abstract specification: the events returned so far are exactly those the
  specification derives from the records stored in the source before the cursor's offset, under the
  parsed stream header. The cursor's ordinal is the number of these records and its counters count the
  records, the bytes and the events.
\<close>

theorem cursor_refines_specification:
  assumes "qtrb_open H G S identity mode w = (Inr p, w')" and "emits H (into_cursor p) evs self"
  shows "\<exists>recs frs. stream_run S (sid_artifact identity) (qp_header p) (qc_offset self) recs evs frs \<and>
    unat (qc_next_ordinal self) = length recs \<and> counters_view self evs"
proof -
  obtain recs frs where "tracks self recs evs frs"
    and "stream_run S (sid_artifact identity) (qp_header p) (qc_offset self) recs evs frs"
    by (rule opened_run [OF assms])
  then show ?thesis by (auto simp: tracks_def)
qed

theorem cursor_refines_specification_witness:
  "\<exists>p w evs self. qtrb_open unbounded_host allow_state_work sample_source sample_identity Sealed () = (Inr p, w) \<and>
    emits unbounded_host (into_cursor p) evs self \<and> length evs = 6 \<and>
    (\<exists>recs frs. stream_run sample_source (sid_artifact sample_identity) (qp_header p) (qc_offset self) recs evs frs \<and>
    unat (qc_next_ordinal self) = length recs \<and> counters_view self evs)"
  by (rule sample_witness) (erule (1) cursor_refines_specification)

text \<open>
  C7. Lifecycle of a stream: TRACE_BEGIN is the first event and no other is one, a terminal
  event can only be the last, and every event carries the artifact of the source and the thread id that
  TRACE_BEGIN declared.
\<close>

theorem event_lifecycle:
  assumes "qtrb_open H G S identity mode w = (Inr p, w')" and "emits H (into_cursor p) evs self"
  shows "(\<forall>k < length evs. is_begin (evs ! k) = (k = 0)) \<and>
    (\<forall>k < length evs. is_termination (evs ! k) \<longrightarrow> Suc k = length evs) \<and>
    (\<forall>e \<in> set evs. ek_tid (er_key e) = trace_tid evs \<and> ek_artifact (er_key e) = sid_artifact identity \<and>
       er_provenance e = Captured)"
proof -
  obtain recs frs where r: "stream_run S (sid_artifact identity) (qp_header p) (qc_offset self) recs evs frs"
    by (rule opened_run [OF assms])
  show ?thesis using trace_lifecycle [OF r] trace_tids [OF r] by blast
qed

theorem event_lifecycle_witness:
  "\<exists>p w evs self. qtrb_open unbounded_host allow_state_work sample_source sample_identity Sealed () = (Inr p, w) \<and>
    emits unbounded_host (into_cursor p) evs self \<and> length evs = 6 \<and>
    ((\<forall>k < length evs. is_begin (evs ! k) = (k = 0)) \<and>
    (\<forall>k < length evs. is_termination (evs ! k) \<longrightarrow> Suc k = length evs) \<and>
    (\<forall>e \<in> set evs. ek_tid (er_key e) = trace_tid evs \<and> ek_artifact (er_key e) = sid_artifact sample_identity \<and>
       er_provenance e = Captured))"
  by (rule sample_witness) (erule (1) event_lifecycle)

text \<open>
  C8. The instruction events carry the sequence numbers 1, 2, 3, ... without gap, repetition or
  reordering.
\<close>

theorem instruction_sequences:
  assumes "qtrb_open H G S identity mode w = (Inr p, w')" and "emits H (into_cursor p) evs self"
  shows "map (ek_sequence \<circ> er_key) (filter is_instruction evs) =
    map (Some \<circ> word_of_nat) [1..<Suc (length (filter is_instruction evs))]"
proof -
  obtain recs frs where r: "stream_run S (sid_artifact identity) (qp_header p) (qc_offset self) recs evs frs"
    by (rule opened_run [OF assms])
  show ?thesis using trace_sequences [OF r] by (simp add: instruction_total_filter)
qed

theorem instruction_sequences_witness:
  "\<exists>p w evs self. qtrb_open unbounded_host allow_state_work sample_source sample_identity Sealed () = (Inr p, w) \<and>
    emits unbounded_host (into_cursor p) evs self \<and> length evs = 6 \<and>
    (map (ek_sequence \<circ> er_key) (filter is_instruction evs) =
    map (Some \<circ> word_of_nat) [1..<Suc (length (filter is_instruction evs))])"
  by (rule sample_witness) (erule (1) instruction_sequences)

text \<open>
  C5. Every module and every instruction definition an event refers to was announced by an earlier
  event of the stream, an instruction has the shape its definition declares, and a redefinition agrees
  with what it redefines.
\<close>

theorem references_resolved:
  assumes "qtrb_open H G S identity mode w = (Inr p, w')" and "emits H (into_cursor p) evs self"
  shows "\<forall>k < length evs. resolved (take k evs) (er_payload (evs ! k))"
proof -
  obtain recs frs where r: "stream_run S (sid_artifact identity) (qp_header p) (qc_offset self) recs evs frs"
    by (rule opened_run [OF assms])
  show ?thesis by (rule trace_resolved [OF r])
qed

theorem references_resolved_witness:
  "\<exists>p w evs self. qtrb_open unbounded_host allow_state_work sample_source sample_identity Sealed () = (Inr p, w) \<and>
    emits unbounded_host (into_cursor p) evs self \<and> length evs = 6 \<and>
    (\<forall>k < length evs. resolved (take k evs) (er_payload (evs ! k)))"
  by (rule sample_witness) (erule (1) references_resolved)

text \<open>
  C9. The module and definition dictionaries of a stream are functional and bounded: an id never
  means two different modules or definitions, and at most 65,536 ids of each are ever accepted.
\<close>

theorem dictionaries_functional:
  assumes "qtrb_open H G S identity mode w = (Inr p, w')" and "emits H (into_cursor p) evs self"
  shows "(\<forall>m m'. known_module evs m \<and> known_module evs m' \<and> md_module_id m = md_module_id m' \<longrightarrow> m = m') \<and>
    (\<forall>d d'. known_definition evs d \<and> known_definition evs d' \<and> id_definition_id d = id_definition_id d' \<longrightarrow> d = d') \<and>
    card (md_module_id ` {m. known_module evs m}) \<le> MAX_DICTIONARY_ENTRIES \<and>
    card (id_definition_id ` {d. known_definition evs d}) \<le> MAX_DICTIONARY_ENTRIES"
proof -
  obtain recs frs where t: "tracks self recs evs frs"
    and r: "stream_run S (sid_artifact identity) (qp_header p) (qc_offset self) recs evs frs"
    by (rule opened_run [OF assms])
  have v: "modules_view evs (qc_modules self)" "hash_map_len (qc_modules self) \<le> MAX_DICTIONARY_ENTRIES"
    "definitions_view evs (qc_definitions self)" "hash_map_len (qc_definitions self) \<le> MAX_DICTIONARY_ENTRIES"
    using t by (simp_all add: tracks_def core_def)
  have "card (md_module_id ` {m. known_module evs m}) \<le> hash_map_len (qc_modules self)"
    by (rule keys_bound) (use v(1) in \<open>auto simp: modules_view_def\<close>)
  moreover have "card (id_definition_id ` {d. known_definition evs d}) \<le> hash_map_len (qc_definitions self)"
    by (rule keys_bound) (use v(3) in \<open>auto simp: definitions_view_def\<close>)
  ultimately show ?thesis
    using trace_modules [OF r] trace_definitions [OF r] v(2,4) by (auto intro: order_trans)
qed

theorem dictionaries_functional_witness:
  "\<exists>p w evs self. qtrb_open unbounded_host allow_state_work sample_source sample_identity Sealed () = (Inr p, w) \<and>
    emits unbounded_host (into_cursor p) evs self \<and> length evs = 6 \<and>
    ((\<forall>m m'. known_module evs m \<and> known_module evs m' \<and> md_module_id m = md_module_id m' \<longrightarrow> m = m') \<and>
    (\<forall>d d'. known_definition evs d \<and> known_definition evs d' \<and> id_definition_id d = id_definition_id d' \<longrightarrow> d = d') \<and>
    card (md_module_id ` {m. known_module evs m}) \<le> MAX_DICTIONARY_ENTRIES \<and>
    card (id_definition_id ` {d. known_definition evs d}) \<le> MAX_DICTIONARY_ENTRIES)"
  by (rule sample_witness) (erule (1) dictionaries_functional)

text \<open>
  C10. Events come in source order: their source offsets and their record ordinals both increase
  strictly, and all of them lie before the cursor's offset.
\<close>

theorem source_order:
  assumes "qtrb_open H G S identity mode w = (Inr p, w')" and "emits H (into_cursor p) evs self"
  shows "sorted_wrt before (event_places evs) \<and> (\<forall>q \<in> set (event_places evs). fst q < unat (qc_offset self))"
proof -
  obtain recs frs where r: "stream_run S (sid_artifact identity) (qp_header p) (qc_offset self) recs evs frs"
    by (rule opened_run [OF assms])
  show ?thesis
    using trace_places [OF r] by (auto simp: sorted_wrt_append before_def)
qed

theorem source_order_witness:
  "\<exists>p w evs self. qtrb_open unbounded_host allow_state_work sample_source sample_identity Sealed () = (Inr p, w) \<and>
    emits unbounded_host (into_cursor p) evs self \<and> length evs = 6 \<and>
    (sorted_wrt before (event_places evs) \<and> (\<forall>q \<in> set (event_places evs). fst q < unat (qc_offset self)))"
  by (rule sample_witness) (erule (1) source_order)

text \<open>
  C3. Every event can be found in the source: either one record, at the event's source offset and
  ordinal, has exactly the wire encoding of the event's payload, or the event is reassembled from a
  complete group of fragments, numbered from 0, whose details concatenate to its detail and whose offsets
  it lists.
\<close>

theorem events_located:
  assumes "qtrb_open H G S identity mode w = (Inr p, w')" and "emits H (into_cursor p) evs self"
  shows "\<exists>recs frs. stream_run S (sid_artifact identity) (qp_header p) (qc_offset self) recs evs frs \<and> (\<forall>e \<in> set evs. located recs e)"
proof -
  obtain recs frs where r: "stream_run S (sid_artifact identity) (qp_header p) (qc_offset self) recs evs frs"
    by (rule opened_run [OF assms])
  show ?thesis using trace_located [OF r] r by blast
qed

theorem events_located_witness:
  "\<exists>p w evs self. qtrb_open unbounded_host allow_state_work sample_source sample_identity Sealed () = (Inr p, w) \<and>
    emits unbounded_host (into_cursor p) evs self \<and> length evs = 6 \<and>
    (\<exists>recs frs. stream_run sample_source (sid_artifact sample_identity) (qp_header p) (qc_offset self) recs evs frs \<and> (\<forall>e \<in> set evs. located recs e))"
  by (rule sample_witness) (erule (1) events_located)

text \<open>
  C11. Progress: each event has moved the cursor by at least the 8 bytes of a record header, so the
  number of events a source can ever yield is bounded by its offset range.
\<close>

theorem events_bounded:
  assumes "qtrb_open H G S identity mode w = (Inr p, w')" and "emits H (into_cursor p) evs self"
  shows "16 + 8 * length evs \<le> unat (qc_offset self) \<and> length evs < 2 ^ 61"
proof -
  obtain recs frs where r: "stream_run S (sid_artifact identity) (qp_header p) (qc_offset self) recs evs frs"
    by (rule opened_run [OF assms])
  then have "16 + 8 * length evs \<le> unat (qc_offset self)"
    using stream_run_progress [OF r] stream_run_length [OF r] by linarith
  then show ?thesis using unat_less_2p [of "qc_offset self"] by simp
qed

theorem events_bounded_witness:
  "\<exists>p w evs self. qtrb_open unbounded_host allow_state_work sample_source sample_identity Sealed () = (Inr p, w) \<and>
    emits unbounded_host (into_cursor p) evs self \<and> length evs = 6 \<and>
    (16 + 8 * length evs \<le> unat (qc_offset self) \<and> length evs < 2 ^ 61)"
  by (rule sample_witness) (erule (1) events_bounded)

section \<open>Properties of drained streams\<close>

text \<open>
  C2. A sealed source is only drained after a terminal: the last event is a termination whose metrics
  agree with the stream, namely the number of instruction events, the number of bytes up to the end of
  the terminal record, and the buffer size TRACE_BEGIN declared. The end of the terminal is the end of
  the source.
\<close>

theorem sealed_stream_terminated:
  assumes "qtrb_open H G S identity Sealed w = (Inr p, w')" and "emits H (into_cursor p) evs self"
    and "next_event H G' (self, w1) = (Inr None, (self', w2))"
  shows "\<exists>evs0 ev t. evs = evs0 @ [ev] \<and> er_payload ev = P_Termination t \<and>
    unat (tm_instructions (te_metrics t)) = length (filter is_instruction evs) \<and>
    tm_encoded_bytes (te_metrics t) = qc_offset self' \<and>
    (\<exists>b. er_payload (hd evs) = P_Begin b \<and>
       tm_effective_buffer_bytes (te_metrics t) = bm_effective_buffer_bytes b) \<and>
    (\<exists>v. src_len S v \<le> qc_offset self')"
proof -
  obtain recs where f: "finished self' recs evs" and s: "qc_source self' = S" "qc_mode self' = Sealed"
    and r: "stream_run S (sid_artifact identity) (qp_header p) (qc_offset self') recs evs []"
    by (rule drained_run [OF assms])
  have t: "terminated evs" and l: "\<exists>v. src_len S v \<le> qc_offset self'"
    using f s by (auto simp: finished_def)
  obtain evs0 ev t where e: "evs = evs0 @ [ev]" "er_payload ev = P_Termination t"
    "terminal_matches evs0 (qc_offset self') t" "evs0 \<noteq> []"
    using trace_terminal [OF r t] by blast
  obtain b where b: "er_payload (hd evs) = P_Begin b" "trace_begin evs = Some b"
    by (rule trace_first [OF r]) (simp add: e(1))
  have "trace_begin evs0 = Some b"
    using b(2) e(1,4) by (simp add: trace_begin_append)
  moreover have "\<not> is_instruction ev" using e(2) by (simp add: is_instruction_def)
  ultimately show ?thesis
    using e b(1) l by (auto simp: terminal_matches_def instruction_total_filter)
qed

theorem sealed_stream_terminated_witness:
  "\<exists>p w evs self w1 self' w2.
    qtrb_open unbounded_host allow_state_work sample_source sample_identity Sealed () = (Inr p, w) \<and>
    emits unbounded_host (into_cursor p) evs self \<and>
    next_event unbounded_host allow_state_work (self, w1) = (Inr None, (self', w2)) \<and> length evs = 6 \<and>
    (\<exists>evs0 ev t. evs = evs0 @ [ev] \<and> er_payload ev = P_Termination t \<and>
      unat (tm_instructions (te_metrics t)) = length (filter is_instruction evs) \<and>
      tm_encoded_bytes (te_metrics t) = qc_offset self' \<and>
      (\<exists>b. er_payload (hd evs) = P_Begin b \<and>
         tm_effective_buffer_bytes (te_metrics t) = bm_effective_buffer_bytes b) \<and>
      (\<exists>v. src_len sample_source v \<le> qc_offset self'))"
  by (rule sample_drained_witness) (erule (2) sealed_stream_terminated)

text \<open>
  C4. Losslessness: the bytes of a drained in-memory source are the encoding of its stream header
  followed by the encodings of the records the events were derived from, with nothing left over.
\<close>

theorem drained_source_bytes:
  fixes H :: "'w host" and S :: "'w read_at_source"
  assumes "S = byte_source_ops s" and "qtrb_open H G S identity mode w = (Inr p, w')" and "emits H (into_cursor p) evs self"
    and "next_event H G' (self, w1) = (Inr None, (self', w2))" and "length (bs_bytes s) < 2 ^ 63"
  shows "\<exists>recs pw. stream_run S (sid_artifact identity) (qp_header p) (qc_offset self') recs evs [] \<and>
    (pw = 4 \<or> pw = 8) \<and> bs_bytes s = wire_stream_header pw (qp_header p) @ concat (map wire_record recs)"
proof -
  obtain recs where f: "finished self' recs evs" and src: "qc_source self' = S"
    and r: "stream_run S (sid_artifact identity) (qp_header p) (qc_offset self') recs evs []"
    by (rule drained_run [OF assms(2-4)])
  obtain pw where pw: "pw = 4 \<or> pw = 8" "source_bytes_at S 0 STREAM_HEADER_BYTES (wire_stream_header pw (qp_header p))"
    using opened_header(5) [OF assms(2)] by blast
  have h: "16 \<le> length (bs_bytes s)" "wire_stream_header pw (qp_header p) = take 16 (bs_bytes s)"
    using byte_source_bytes_at [OF assms(5) _ pw(2) [unfolded assms(1)]] by (simp_all add: STREAM_HEADER_BYTES_def)
  obtain v where "src_len S v \<le> qc_offset self'"
    using f unfolding finished_def src by (elim conjE exE) assumption
  then have "length (bs_bytes s) \<le> unat (qc_offset self')"
    using byte_src.unat_len [OF assms(5), of v] by (simp add: word_le_nat_alt assms(1))
  then have "take (unat (qc_offset self')) (bs_bytes s) = bs_bytes s" by simp
  with stream_run_bytes [OF r [unfolded assms(1)] assms(5) h(1)]
  have "bs_bytes s = wire_stream_header pw (qp_header p) @ concat (map wire_record recs)"
    unfolding h(2) by metis
  then show ?thesis using r pw(1) by blast
qed

theorem drained_source_bytes_witness:
  "\<exists>p w evs self w1 self' w2.
    qtrb_open unbounded_host allow_state_work sample_source sample_identity Sealed () = (Inr p, w) \<and>
    emits unbounded_host (into_cursor p) evs self \<and>
    next_event unbounded_host allow_state_work (self, w1) = (Inr None, (self', w2)) \<and> length evs = 6 \<and>
    (\<exists>recs pw. stream_run sample_source (sid_artifact sample_identity) (qp_header p)
        (qc_offset self') recs evs [] \<and>
      (pw = 4 \<or> pw = 8) \<and>
      bs_bytes \<lparr>bs_bytes = sample_bytes\<rparr> = wire_stream_header pw (qp_header p) @ concat (map wire_record recs))"
  by (rule sample_drained_witness, rule drained_source_bytes [OF sample_source_def])
    (assumption | simp add: sample_bytes_def)+



section \<open>The stream header\<close>

lemma stream_header_accepts:
  assumes "stream_header_wf h" and "pw = 4 \<or> pw = 8"
  shows "\<exists>w'. stream_header_parse (wire_stream_header pw h) w = (Inr h, w')"
proof -
  have size: "unat (word_of_nat STREAM_HEADER_BYTES :: u16) = STREAM_HEADER_BYTES"
    by (simp add: STREAM_HEADER_BYTES_def)
  have take: "accepts (pc_take 4) (pc_at d (MAGIC @ r) l k) MAGIC (pc_at (d @ MAGIC) r l k)" for d r l k
    by (rule accepts_take) (simp add: MAGIC_def)
  have ret: "accepts (retR \<lparr>hdr_minor = hdr_minor h, hdr_profile = hdr_profile h,
      hdr_required_features = hdr_required_features h\<rparr>) c h c" for c
    by (simp add: accepts_def)
  have last: "accepts pc_u32_le (pc_at d (to_le_bytes 4 v) l k) v (pc_at (d @ to_le_bytes 4 v) [] l k)" for d v l k
    using accepts_u32 [of d v "[]" l k] by simp
  show ?thesis
    unfolding stream_header_parse_def wire_stream_header_def append_assoc append_Cons append_Nil
  proof (rule accepts_with_payload)
    show "length (MAGIC @ MAJOR_VERSION # hdr_minor h # LITTLE_ENDIAN_MARKER # pw # hdr_profile h # 0 #
        to_le_bytes 2 (word_of_nat STREAM_HEADER_BYTES :: u16) @ to_le_bytes 4 (hdr_required_features h)) < usize_limit"
      by (simp add: MAGIC_def usize_limit_def)
  qed (rule take last ret accepts_bind accepts_u8 accepts_u16 accepts_finish accepts_else |
      use assms in \<open>force simp: stream_header_wf_def size not_less\<close>)+
qed

text \<open>
  C12. The stream header: exactly the 16-byte headers with the QTRB magic, version 1, the little-endian
  marker, a pointer width of 4 or 8, a known profile and one of the three combinations of minor version and
  feature bits are accepted, and the fields returned are the ones encoded.
\<close>

theorem stream_header_exact:
  "(\<exists>w'. stream_header_parse bytes w = (Inr h, w')) \<longleftrightarrow>
     stream_header_wf h \<and> (\<exists>pw. (pw = 4 \<or> pw = 8) \<and> bytes = wire_stream_header pw h)"
  using stream_header_parse_ok stream_header_accepts by metis

end
