(* ===== verification/Qtrb_Steps.thy ===== *)
theory Qtrb_Steps
  imports Qtrb_Stream
begin

text \<open>
  What every call of the QTRB cursor respects, on success and on failure. Given a guard and an allocator
  that respect a pair of relations on worlds (\<open>guarded_world\<close>) and a source whose reads do, every
  decoder and the event loop respect them too, and no failing call marks the stream as drained. The
  lemmas follow the definitions of \<open>Qtrb_Wire\<close> and \<open>Qtrb_Stream\<close> in their order.
\<close>

section \<open>Decoders of one payload\<close>

context guarded_world
begin

lemma payload_frame: "step_frame (on_world R) (on_world E :: 'c \<times> 'w \<Rightarrow> 'c \<times> 'w \<Rightarrow> bool)"
  by unfold_locales (auto simp: on_world_def ok_refl stop_refl intro: ok_trans stop_after)

lemmas payload_rules = step_frame.step_rules [OF payload_frame]

abbreviation payload_step :: "('w, 'a) payload_rm \<Rightarrow> bool" where
  "payload_step \<equiv> stepR (on_world R) (on_world E)"

lemma payload_lift: "stepR R E m \<Longrightarrow> stepR (on_world R) (on_world E) (liftW m)"
  by (erule stepR_liftW) (simp_all add: on_world_def)

lemma payload_take: "payload_step (pc_take n)"
  by (rule stepRI)
    (auto simp: pc_take_def on_world_def ok_refl stop_refl split: option.splits)

lemma payload_finish: "payload_step pc_finish"
  by (rule stepRI) (auto simp: pc_finish_def on_world_def ok_refl stop_refl)

lemma payload_error: "payload_step (pc_error code detail)"
  by (rule stepRI) (auto simp: pc_error_def on_world_def ok_refl stop_refl)

lemma payload_reads:
  "payload_step pc_u8" "payload_step pc_u16_le" "payload_step pc_u32_le" "payload_step pc_u64_le" "payload_step pc_i64_le"
  unfolding pc_u8_def pc_u16_le_def pc_u32_le_def pc_u64_le_def pc_i64_le_def
  by (intro payload_rules payload_take)+

lemmas payload_steps = payload_take payload_finish payload_error payload_reads

lemma payload_utf8: "payload_step (bounded_utf8_guarded H G maximum field)"
  unfolding bounded_utf8_guarded_def
  by (intro payload_rules payload_steps payload_lift allocation_steps)

lemma step_with_payload: "payload_step m \<Longrightarrow> stepR R E (with_payload bytes label k m)"
  by (rule stepRI)
    (auto simp: with_payload_def on_world_def split: prod.splits dest: stepR_ok stepR_stop)

lemma payload_registers_loop: "payload_step (decode_registers_loop H G bits field co slots)"
  by (induction slots) (simp_all only: decode_registers_loop.simps payload_rules payload_steps payload_utf8)

lemma payload_registers: "payload_step (decode_registers H G bits field co)"
  unfolding decode_registers_def
  by (intro payload_rules payload_lift allocation_steps payload_registers_loop)

lemma payload_operand: "payload_step (memory_operand_wire_payload r)"
  unfolding memory_operand_wire_payload_def by (intro payload_rules payload_steps)

lemma payload_observation: "payload_step (observation H G detail register)"
  unfolding observation_def by (intro payload_rules payload_steps payload_lift allocation_steps)

lemma payload_memory_state: "payload_step (decode_memory_state H G field co)"
  unfolding decode_memory_state_def by (intro payload_rules payload_steps payload_lift allocation_steps)

lemma payload_bounded_raw: "payload_step (decode_bounded_raw H G maximum field co)"
  unfolding decode_bounded_raw_def by (intro payload_rules payload_steps payload_lift allocation_steps)

lemma payload_metrics: "payload_step decode_metrics"
  unfolding decode_metrics_def by (intro payload_rules payload_steps)

lemmas field_steps = payload_utf8 payload_registers payload_operand payload_observation payload_memory_state
  payload_bounded_raw payload_metrics

section \<open>Payloads\<close>

lemma step_begin_payload: "stepR R E (begin_payload H G r)"
  unfolding begin_payload_def by (intro step_with_payload payload_rules payload_steps field_steps)

lemma step_module_payload: "stepR R E (module_payload H G r)"
  unfolding module_payload_def by (intro step_with_payload payload_rules payload_steps field_steps)

lemma step_definition_payload: "stepR R E (definition_payload H G r)"
  unfolding definition_payload_def
  by (intro step_with_payload payload_rules payload_steps field_steps payload_lift allocation_steps)

lemma step_instruction_payload: "stepR R E (instruction_payload H G self r)"
  unfolding instruction_payload_def
  by (intro step_with_payload payload_rules payload_steps field_steps payload_lift allocation_steps)

lemma step_memory_payload: "stepR R E (memory_payload H G self r)"
  unfolding memory_payload_def by (intro step_with_payload payload_rules payload_steps field_steps)

lemma step_semantic_payload: "stepR R E (semantic_payload H G r kind)"
  unfolding semantic_payload_def by (intro step_with_payload payload_rules payload_steps field_steps)

lemma step_fragment_payload: "stepR R E (fragment_payload H G r kind)"
  unfolding fragment_payload_def by (intro step_with_payload payload_rules payload_steps field_steps)

lemma step_trace_end_payload: "stepR R E (trace_end_payload r)"
  unfolding trace_end_payload_def by (intro step_with_payload payload_rules payload_steps field_steps)

lemma step_trace_stop_payload: "stepR R E (trace_stop_payload r)"
  unfolding trace_stop_payload_def by (intro step_with_payload payload_rules payload_steps field_steps)

lemma step_record_header: "stepR R E (record_header bytes co)"
  unfolding record_header_def by (intro step_with_payload payload_rules payload_steps field_steps)

lemma step_stream_header: "stepR R E (stream_header_parse bytes)"
  unfolding stream_header_parse_def by (intro step_with_payload payload_rules payload_steps field_steps)

lemma step_typed_definition: "stepR R E (typed_definition H G i df)"
  unfolding typed_definition_def typed_register_def by (intro step_rules allocation_steps)

lemma step_clone_definition: "stepR R E (clone_definition_wire H G df)"
  unfolding clone_definition_wire_def clone_register_wire_def by (intro step_rules allocation_steps)

lemma step_start_fragment: "stepR R E (start_fragment H G r kind i n x c category name)"
  unfolding start_fragment_def transposeR_def by (intro step_rules stepR_case_option allocation_steps)

lemmas payload_decoders = step_begin_payload step_module_payload step_definition_payload step_instruction_payload
  step_memory_payload step_semantic_payload step_fragment_payload step_trace_end_payload step_trace_stop_payload
  step_record_header step_stream_header step_typed_definition step_clone_definition step_start_fragment

end

section \<open>Calls of the cursor\<close>

text \<open>
  The frame of a call: the source, the identity, the mode and the two flags of the cursor do not change,
  and the world changes by \<open>R\<close> or \<open>E\<close> when the source is the given one.
\<close>

definition fixed_fields :: "'w qtrb_cursor \<Rightarrow> 'w read_at_source \<times> source_identity \<times> open_mode \<times> bool \<times> bool" where
  "fixed_fields self = (qc_source self, qc_identity self, qc_mode self, qc_drained self, qc_poisoned self)"

definition call_frame ::
  "'w read_at_source \<Rightarrow> ('w \<Rightarrow> 'w \<Rightarrow> bool) \<Rightarrow> 'w qtrb_cursor \<times> 'w \<Rightarrow> 'w qtrb_cursor \<times> 'w \<Rightarrow> bool" where
  "call_frame S R s t \<longleftrightarrow> fixed_fields (fst t) = fixed_fields (fst s) \<and> (qc_source (fst s) = S \<longrightarrow> R (snd s) (snd t))"

text \<open>The same for a call that may have ended the stream.\<close>

definition end_frame ::
  "'w read_at_source \<Rightarrow> ('w \<Rightarrow> 'w \<Rightarrow> bool) \<Rightarrow> 'w qtrb_cursor \<times> 'w \<Rightarrow> 'w qtrb_cursor \<times> 'w \<Rightarrow> bool" where
  "end_frame S R s t \<longleftrightarrow> qc_source (fst t) = qc_source (fst s) \<and> (qc_source (fst s) = S \<longrightarrow> R (snd s) (snd t))"

lemma call_end_frame: "call_frame S R s t \<Longrightarrow> end_frame S R s t"
  by (simp add: call_frame_def end_frame_def fixed_fields_def)

locale cursor_world = guarded_world R E H G for R E and H :: "'w host" and G +
  fixes S :: "'w read_at_source"
  assumes read_step: "stepR R E (src_read_exact_at S offset count)"
begin

lemma cursor_frame: "step_frame (call_frame S R) (call_frame S E)"
  by unfold_locales
    (auto simp: call_frame_def fixed_fields_def ok_refl stop_refl intro: ok_trans stop_after)

lemmas cursor_rules = step_frame.step_rules [OF cursor_frame]

abbreviation cursor_step :: "('w, 'a) cursor_rm \<Rightarrow> bool" where
  "cursor_step \<equiv> stepR (call_frame S R) (call_frame S E)"

lemma cursor_lift: "stepR R E m \<Longrightarrow> stepR (call_frame S R) (call_frame S E) (liftW m)"
  by (erule stepR_liftW) (simp_all add: call_frame_def)

lemma cursor_self: "cursor_step selfR"
  by (rule stepRI) (auto simp: selfR_def call_frame_def ok_refl)

lemma cursor_len: "cursor_step source_lenR"
  by (rule stepRI) (auto simp: source_lenR_def call_frame_def ok_refl)

lemma cursor_modify: "(\<And>self. fixed_fields (f self) = fixed_fields self) \<Longrightarrow> cursor_step (modifyR f)"
  by (rule stepRI) (auto simp: modifyR_def call_frame_def ok_refl)

lemma cursor_read: "cursor_step (read_sourceR offset count)"
  by (rule stepRI)
    (auto simp: read_sourceR_def call_frame_def split: prod.splits intro: stepR_ok [OF read_step] stepR_stop [OF read_step])

lemmas cursor_steps = cursor_self cursor_len cursor_read

text \<open>Decoders that update fields of the cursor: the updates are outside the frame.\<close>

lemma step_read_record: "cursor_step (read_record H G)"
  unfolding read_record_def
  by (intro cursor_rules cursor_steps cursor_lift allocation_steps payload_decoders cursor_modify)
    (simp_all add: fixed_fields_def)

lemma step_decode_begin: "cursor_step (decode_begin H G r)"
  unfolding decode_begin_def
  by (intro cursor_rules cursor_steps cursor_lift payload_decoders cursor_modify) (simp_all add: fixed_fields_def)

lemma step_decode_module: "cursor_step (decode_module H G r)"
  unfolding decode_module_def
  by (intro cursor_rules stepR_case_option cursor_steps cursor_lift allocation_steps payload_decoders cursor_modify)
    (simp_all add: fixed_fields_def)

lemma step_decode_definition: "cursor_step (decode_instruction_definition H G r)"
  unfolding decode_instruction_definition_def
  by (intro cursor_rules stepR_case_option cursor_steps cursor_lift allocation_steps payload_decoders cursor_modify)
    (simp_all add: fixed_fields_def)

lemma step_decode_instruction: "cursor_step (decode_instruction H G r)"
  unfolding decode_instruction_def
  by (intro cursor_rules cursor_steps cursor_lift payload_decoders cursor_modify) (simp_all add: fixed_fields_def)

lemma step_decode_memory: "cursor_step (decode_memory H G r)"
  unfolding decode_memory_def by (intro cursor_rules cursor_steps cursor_lift payload_decoders)

lemma step_assemble: "cursor_step (assemble_fragment self r kind pending)"
  unfolding assemble_fragment_def transposeR_def by (intro cursor_rules stepR_case_option)

lemma step_append: "cursor_step (append_fragment self r kind wire pending)"
  unfolding append_fragment_def
  by (intro cursor_rules step_assemble cursor_modify) (simp_all add: fixed_fields_def)

lemma step_decode_fragment: "cursor_step (decode_fragment H G r kind)"
  unfolding decode_fragment_def
  by (intro cursor_rules stepR_case_option cursor_steps cursor_lift payload_decoders step_append cursor_modify)
    (simp_all add: fixed_fields_def)

lemma step_decode_semantic: "cursor_step (decode_semantic H G r kind)"
  unfolding decode_semantic_def
  by (intro cursor_rules cursor_steps cursor_lift payload_decoders step_decode_fragment)

lemma step_accept_terminal: "cursor_step (accept_terminal H G r metrics draft)"
  unfolding accept_terminal_def transposeR_def
  by (intro cursor_rules stepR_case_option cursor_steps cursor_lift allocation_steps cursor_modify)
    (simp_all add: fixed_fields_def)

lemma step_decode_end: "cursor_step (decode_trace_end H G r)"
  unfolding decode_trace_end_def by (intro cursor_rules cursor_lift payload_decoders step_accept_terminal)

lemma step_decode_stop: "cursor_step (decode_trace_stop H G r)"
  unfolding decode_trace_stop_def
  by (intro cursor_rules cursor_steps cursor_lift allocation_steps payload_decoders step_accept_terminal)

lemma step_opaque: "cursor_step (opaque_event r)"
  unfolding opaque_event_def by (intro cursor_rules cursor_steps cursor_modify) (simp add: fixed_fields_def)

lemmas record_steps = step_decode_begin step_decode_module step_decode_definition step_decode_instruction
  step_decode_memory step_decode_semantic step_decode_end step_decode_stop step_opaque

lemma step_decode_record: "cursor_step (decode_record H G r)"
  unfolding decode_record_def mapSome_def
  by (auto split: option.split record_type.split intro!: record_steps cursor_rules)

text \<open>The end of the stream: only the last step marks the cursor as drained, and it cannot fail.\<close>

abbreviation end_step :: "('w, 'a) cursor_rm \<Rightarrow> bool" where
  "end_step \<equiv> stepR (end_frame S R) (call_frame S E)"

lemma end_of_cursor: "cursor_step m \<Longrightarrow> end_step m"
  by (rule stepRI) (blast intro: call_end_frame dest: stepR_ok, blast dest: stepR_stop)

lemma end_bind: "cursor_step m \<Longrightarrow> (\<And>x. end_step (k x)) \<Longrightarrow> end_step (bindR m k)"
  by (erule stepR_bindR_into)
    (auto simp: call_frame_def end_frame_def fixed_fields_def intro: ok_trans stop_after)

lemma end_throw: "end_step (throwR e)"
  by (intro end_of_cursor cursor_rules)

lemma end_drained: "end_step (bindR (modifyR (\<lambda>self. self\<lparr>qc_drained := True\<rparr>)) (\<lambda>_. retR x))"
  by (rule stepRI) (auto simp: modifyR_def bindR_def end_frame_def ok_refl)

lemma end_map_some: "end_step m \<Longrightarrow> end_step (mapSome m)"
  by (rule stepRI) (auto simp: mapSome_def bindR_Inr bindR_Inl dest: stepR_ok stepR_stop)

lemma step_validate: "cursor_step validate_source_identity"
  unfolding validate_source_identity_def by (intro cursor_rules cursor_steps)

lemma step_completeness: "cursor_step (push_completeness c)" "cursor_step (insert_completeness c)"
  unfolding push_completeness_def insert_completeness_def
  by (intro cursor_modify, simp add: fixed_fields_def split: option.split)+

lemma step_missing_terminal: "cursor_step (case mode of Sealed \<Rightarrow> throwR e | RecoverablePartial \<Rightarrow> push_completeness c)"
  by (cases mode) (simp_all add: cursor_rules step_completeness)

lemma step_finish_stream: "end_step (finish_stream H G)"
  unfolding finish_stream_def
  by (intro stepR_if end_throw end_drained end_bind cursor_rules cursor_steps cursor_lift allocation_steps step_validate
      step_completeness step_missing_terminal cursor_modify)
    (simp_all add: fixed_fields_def)

lemma step_iteration: "end_step (next_event_iteration H G)"
  unfolding next_event_iteration_def
  by (intro stepR_if stepR_case_option end_throw end_bind end_map_some step_finish_stream end_of_cursor cursor_rules
      cursor_steps cursor_lift allocation_steps step_read_record step_decode_record cursor_modify)
    (simp_all add: fixed_fields_def)

text \<open>An iteration that only held a fragment back has not ended the stream.\<close>

lemma held_iteration:
  assumes "next_event_iteration H G s = (Inr None, t)"
  shows "call_frame S R s t"
proof -
  obtain self w where s: "s = (self, w)" by (cases s)
  have "\<exists>r u. read_record H G (self, w) = (Inr r, u) \<and> decode_record H G r u = (Inr None, t)"
    using assms unfolding s next_event_iteration_def
    by (auto simp: bindR_Inr mapSome_def split: if_splits option.splits)
  then obtain r u where "read_record H G s = (Inr r, u)" and "decode_record H G r u = (Inr None, t)"
    by (auto simp: s)
  then show ?thesis
    using stepR_ok [OF step_read_record] stepR_ok [OF step_decode_record] step_frame.ok_trans [OF cursor_frame] by blast
qed

lemma inner_frame:
  assumes "next_event_inner H' G' s = (r, t)" and "H' = H" and "G' = G"
  shows "case r of Inr x \<Rightarrow> end_frame S R s t | Inl e \<Rightarrow> call_frame S E s t"
  using assms
proof (induction H' G' s rule: next_event_inner.induct)
  case (1 H' G' s)
  obtain out u where it: "next_event_iteration H G s = (out, u)" by (cases "next_event_iteration H G s")
  show ?case
  proof (cases out)
    case (Inl e)
    then have "r = Inl e" "t = u"
      using "1.prems" it by (simp_all add: next_event_inner.simps [of H G] bindR_def)
    then show ?thesis using stepR_stop [OF step_iteration] it Inl by simp
  next
    case (Inr v)
    show ?thesis
    proof (cases v)
      case None
      then have rec: "next_event_inner H' G' u = (r, t)"
        using "1.prems" it Inr by (simp add: next_event_inner.simps [of H G s] bindR_def)
      have "case r of Inr x \<Rightarrow> end_frame S R u t | Inl e \<Rightarrow> call_frame S E u t"
        by (rule "1.IH" [OF _ None rec "1.prems"(2,3)]) (use it Inr "1.prems" in simp)
      moreover have "call_frame S R s u" using held_iteration it Inr None by simp
      ultimately show ?thesis
        by (auto simp: call_frame_def end_frame_def fixed_fields_def split: sum.splits intro: ok_trans stop_after)
    next
      case (Some x)
      then have "r = Inr x" "t = u"
        using "1.prems" it Inr by (simp_all add: next_event_inner.simps [of H G] bindR_def)
      then show ?thesis using stepR_ok [OF step_iteration] it Inr by simp
    qed
  qed
qed

text \<open>A call of \<open>next_event\<close>: on failure the cursor is poisoned and not drained.\<close>

lemma call_result:
  assumes "next_event H G (self, w) = (r, (self', w'))"
  shows "qc_source self' = qc_source self \<and>
    (qc_source self = S \<longrightarrow> (case r of Inr x \<Rightarrow> R w w' | Inl e \<Rightarrow> E w w')) \<and>
    (\<forall>e. r = Inl e \<longrightarrow> \<not> qc_drained self' \<and> qc_poisoned self')"
proof -
  obtain q self1 w1 where i: "next_event_inner H G (self, w) = (q, (self1, w1))"
    by (metis prod.collapse)
  have f: "case q of Inr x \<Rightarrow> end_frame S R (self, w) (self1, w1) | Inl e \<Rightarrow> call_frame S E (self, w) (self1, w1)"
    by (rule inner_frame [OF i refl refl])
  show ?thesis
    using assms f
    by (auto simp: next_event_def i end_frame_def call_frame_def fixed_fields_def ok_refl stop_refl
        split: if_splits sum.splits)
qed

lemma step_open: "stepR R E (qtrb_open H G S identity mode)"
  unfolding qtrb_open_def
  by (intro step_rules allocation_steps payload_decoders read_step stepRI [of "\<lambda>w. (Inr (src_len S w), w)"])
    (auto simp: ok_refl)

end

end
