(* ===== verification/Service_Budget.thy ===== *)
theory Service_Budget
  imports Qtrace_Eval
begin

text \<open>
  The work budget of a service request (\<open>qtrace-service/src/budget.rs\<close>): six atomic counters with
  limits, a deadline and two cancellation flags, implementing the \<open>WorkGuard\<close> trait.

  The world \<open>service_world\<close> holds what changes: the clock, the cancellation flags (the budget's own and
  the shared flags of job cancellations), the counters, and the number of heap bytes the allocator has
  handed out, which the program never reads and the theorems bound.
\<close>

section \<open>Limits and budgets\<close>

type_synonym instant = nat

text \<open>Instants in nanoseconds.\<close>

record service_limits =
  sl_deadline :: instant
  sl_input_bytes :: u64
  sl_decompressed_bytes :: u64
  sl_events :: u64
  sl_nodes :: u64
  sl_rows :: u64
  sl_resident_bytes :: u64

text \<open>A job cancellation is a shared flag: a name of one.\<close>

type_synonym job_cancellation = nat

record service_budget =
  sb_limits :: service_limits
  sb_external_cancel :: "job_cancellation option"
  sb_validation_workers :: usize

record service_world =
  sv_now :: instant
  sv_cancelled :: bool
  sv_flags :: "job_cancellation \<Rightarrow> bool"
  sv_used :: "u64 list"
  sv_allocated :: nat

definition interactive :: "service_world \<Rightarrow> service_limits" where
  "interactive w = \<lparr>sl_deadline = sv_now w + 5 * 10 ^ 9, sl_input_bytes = - 1, sl_decompressed_bytes = - 1,
     sl_events = - 1, sl_nodes = 100000, sl_rows = 2000, sl_resident_bytes = 256 * 1024 * 1024\<rparr>"

text \<open>Creating a budget resets its own flag and its counters.\<close>

definition budget_reset :: "service_world \<Rightarrow> service_world" where
  "budget_reset w = w\<lparr>sv_cancelled := False, sv_used := replicate 6 0\<rparr>"

definition service_budget_new :: "service_limits \<Rightarrow> service_world \<Rightarrow> service_budget \<times> service_world" where
  "service_budget_new limits w =
     (\<lparr>sb_limits = limits, sb_external_cancel = None, sb_validation_workers = 1\<rparr>, budget_reset w)"

definition with_cancellation ::
  "service_limits \<Rightarrow> job_cancellation \<Rightarrow> service_world \<Rightarrow> service_budget \<times> service_world" where
  "with_cancellation limits external_cancel w =
     (\<lparr>sb_limits = limits, sb_external_cancel = Some external_cancel, sb_validation_workers = 1\<rparr>, budget_reset w)"

definition budget_cancel :: "service_world \<Rightarrow> service_world" where
  "budget_cancel w = w\<lparr>sv_cancelled := True\<rparr>"

definition with_cache_validation_workers :: "service_budget \<Rightarrow> service_budget" where
  "with_cache_validation_workers B = B\<lparr>sb_validation_workers := 2\<rparr>"

definition job_cancel :: "job_cancellation \<Rightarrow> service_world \<Rightarrow> service_world" where
  "job_cancel c w = w\<lparr>sv_flags := (sv_flags w)(c := True)\<rparr>"

definition job_is_cancelled :: "job_cancellation \<Rightarrow> service_world \<Rightarrow> bool" where
  "job_is_cancelled c w = sv_flags w c"

definition budget_is_cancelled :: "service_budget \<Rightarrow> service_world \<Rightarrow> bool" where
  "budget_is_cancelled B w \<longleftrightarrow> sv_cancelled w \<or>
     (case sb_external_cancel B of None \<Rightarrow> False | Some c \<Rightarrow> job_is_cancelled c w)"

section \<open>Consuming work\<close>

definition delta_values :: "work_delta \<Rightarrow> u64 list" where
  "delta_values d = [wd_input_bytes d, wd_decompressed_bytes d, wd_events d, wd_nodes d, wd_rows d,
     wd_resident_bytes d]"

definition limit_values :: "service_limits \<Rightarrow> u64 list" where
  "limit_values l = [sl_input_bytes l, sl_decompressed_bytes l, sl_events l, sl_nodes l, sl_rows l,
     sl_resident_bytes l]"

definition limit_dimensions :: "budget_dimension list" where
  "limit_dimensions = [InputBytes, DecompressedBytes, Events, Nodes, Rows, ResidentBytes]"

text \<open>
  One iteration of the loop: \<open>fetch_add\<close> wraps and returns the old counter, the total the limit is
  compared with saturates.
\<close>

definition charge :: "service_budget \<Rightarrow> work_delta \<Rightarrow> nat \<Rightarrow> (service_world, operation_abort, unit) rm" where
  "charge B d i w =
     (let used = sv_used w ! i; v = delta_values d ! i; limit = limit_values (sb_limits B) ! i;
          w' = w\<lparr>sv_used := (sv_used w)[i := used + v]\<rparr>; consumed = saturating_add used v in
      if consumed > limit then (Inl (budget_exceeded (limit_dimensions ! i) limit consumed), w')
      else (Inr (), w'))"

definition budget_consume :: "service_budget \<Rightarrow> work_delta \<Rightarrow> (service_world, operation_abort, unit) rm" where
  "budget_consume B d w =
     (if budget_is_cancelled B w \<or> sv_now w > sl_deadline (sb_limits B) then (Inl Cancelled, w)
      else bindR (forR (charge B d) [0..<6]) (\<lambda>_. retR ()) w)"

definition budget_guard :: "service_budget \<Rightarrow> service_world work_guard" where
  "budget_guard B = (default_guard (budget_consume B))\<lparr>wg_parallelism := sb_validation_workers B\<rparr>"

text \<open>Row work of memory queries is charged to the node budget.\<close>

definition memory_work :: "work_delta \<Rightarrow> work_delta" where
  "memory_work d = d\<lparr>wd_nodes := saturating_add (wd_nodes d) (wd_rows d), wd_rows := 0\<rparr>"

definition memory_work_guard :: "'w work_guard \<Rightarrow> 'w work_guard" where
  "memory_work_guard G = (default_guard (\<lambda>d. wg_consume G (memory_work d)))
     \<lparr>wg_parallelism := wg_parallelism G,
      wg_begin_allocation_scope := (\<lambda>d slack. wg_begin_allocation_scope G (memory_work d) slack),
      wg_end_allocation_scope := wg_end_allocation_scope G\<rparr>"

section \<open>One counter\<close>

text \<open>The counters of a budget: one per dimension.\<close>

definition counters_wf :: "service_world \<Rightarrow> bool" where
  "counters_wf w \<longleftrightarrow> length (sv_used w) = 6"

definition spent :: "service_world \<Rightarrow> nat \<Rightarrow> nat" where
  "spent w i = unat (sv_used w ! i)"

abbreviation bound :: "service_budget \<Rightarrow> nat \<Rightarrow> nat" where
  "bound B i \<equiv> unat (limit_values (sb_limits B) ! i)"

abbreviation amount :: "work_delta \<Rightarrow> nat \<Rightarrow> nat" where
  "amount d i \<equiv> unat (delta_values d ! i)"

lemma charge_frame:
  assumes "charge B d i w = (r, w')"
  shows "sv_allocated w' = sv_allocated w" and "counters_wf w' = counters_wf w"
    and "i \<noteq> j \<Longrightarrow> spent w' j = spent w j" and "sv_now w' = sv_now w"
    and "sv_cancelled w' = sv_cancelled w" and "sv_flags w' = sv_flags w"
  using assms by (auto simp: charge_def Let_def counters_wf_def spent_def split: if_splits)

text \<open>
  A charge is granted when it fits. A limit of \<open>u64::MAX\<close> grants everything; below it the limit is exact,
  because the saturated total exceeds it whenever the counter wraps.
\<close>

definition fits :: "service_budget \<Rightarrow> work_delta \<Rightarrow> service_world \<Rightarrow> nat \<Rightarrow> bool" where
  "fits B d w i \<longleftrightarrow> bound B i = 2 ^ 64 - 1 \<or> spent w i + amount d i \<le> bound B i"

definition spent_after :: "work_delta \<Rightarrow> service_world \<Rightarrow> nat \<Rightarrow> nat" where
  "spent_after d w i = (spent w i + amount d i) mod 2 ^ 64"

definition refusal :: "service_budget \<Rightarrow> work_delta \<Rightarrow> service_world \<Rightarrow> nat \<Rightarrow> operation_abort" where
  "refusal B d w i = BudgetExceeded (limit_dimensions ! i) (limit_values (sb_limits B) ! i)
     (saturating_add (sv_used w ! i) (delta_values d ! i))"

lemma charge_exact:
  assumes "charge B d i w = (r, w')" and "counters_wf w" and "i < 6"
  shows "r = (if fits B d w i then Inr () else Inl (refusal B d w i))" and "spent w' i = spent_after d w i"
proof -
  let ?u = "sv_used w ! i" and ?v = "delta_values d ! i" and ?l = "limit_values (sb_limits B) ! i"
  have "unat ?l < 2 ^ 64" using unat_less_2p [of ?l] by simp
  then have sat: "saturating_add ?u ?v \<le> ?l \<longleftrightarrow> fits B d w i"
    by (auto simp: word_le_nat_alt unat_saturating_add min_def fits_def spent_def)
  have r: "r = (if saturating_add ?u ?v > ?l then Inl (budget_exceeded (limit_dimensions ! i) ?l (saturating_add ?u ?v))
      else Inr ())" and w': "w' = w\<lparr>sv_used := (sv_used w)[i := ?u + ?v]\<rparr>"
    using assms(1) by (auto simp: charge_def Let_def split: if_splits)
  show "r = (if fits B d w i then Inr () else Inl (refusal B d w i))"
    using sat by (auto simp: r refusal_def budget_exceeded_def not_less)
  show "spent w' i = spent_after d w i"
    using assms(2,3) by (simp add: w' spent_def spent_after_def counters_wf_def unat_word_ariths)
qed

text \<open>A charge in one dimension does not change what the others decide.\<close>

lemma charge_other:
  assumes "charge B d i w = (r, w')" and "i \<noteq> j"
  shows "fits B d w' j = fits B d w j" and "spent_after d w' j = spent_after d w j"
    and "refusal B d w' j = refusal B d w j"
proof -
  have "sv_used w' ! j = sv_used w ! j"
    using assms by (auto simp: charge_def Let_def split: if_splits)
  then show "fits B d w' j = fits B d w j" "spent_after d w' j = spent_after d w j"
    "refusal B d w' j = refusal B d w j"
    by (simp_all add: fits_def spent_after_def refusal_def spent_def)
qed

section \<open>The loop\<close>

text \<open>The dimensions before \<open>k\<close>, and \<open>k\<close> itself, have been charged from dimension \<open>i\<close> on.\<close>

definition charged :: "work_delta \<Rightarrow> nat \<Rightarrow> nat \<Rightarrow> service_world \<Rightarrow> service_world \<Rightarrow> bool" where
  "charged d i k w w' \<longleftrightarrow> (\<forall>j < 6. spent w' j = (if i \<le> j \<and> j \<le> k then spent_after d w j else spent w j)) \<and>
     counters_wf w' \<and> sv_allocated w' = sv_allocated w"

definition charge_result :: "service_budget \<Rightarrow> work_delta \<Rightarrow> nat \<Rightarrow> service_world \<Rightarrow> operation_abort + 'a \<Rightarrow> service_world \<Rightarrow> bool" where
  "charge_result B d i w r w' = (case r of
       Inr _ \<Rightarrow> (\<forall>j. i \<le> j \<and> j < 6 \<longrightarrow> fits B d w j) \<and> charged d i 5 w w'
     | Inl e \<Rightarrow> (\<exists>k. i \<le> k \<and> k < 6 \<and> (\<forall>j. i \<le> j \<and> j < k \<longrightarrow> fits B d w j) \<and> \<not> fits B d w k \<and> e = refusal B d w k \<and>
         charged d i k w w'))"

lemma charged_step:
  assumes "charge B d i w = (r, w1)" and "counters_wf w" and "i < 6" and "charged d (Suc i) k w1 w'" and "i \<le> k"
  shows "charged d i k w w'"
proof -
  have "spent w' j = (if i \<le> j \<and> j \<le> k then spent_after d w j else spent w j)" if "j < 6" for j
  proof (cases "j = i")
    case True
    then show ?thesis
      using assms charge_exact(2) [OF assms(1-3)] by (simp add: charged_def)
  next
    case False
    then show ?thesis
      using assms(4) that charge_other(2) [OF assms(1), of j] charge_frame(3) [OF assms(1), of j]
      by (auto simp: charged_def)
  qed
  then show ?thesis
    using assms(4) charge_frame(1) [OF assms(1)] by (simp add: charged_def)
qed

lemma charge_result_step:
  assumes "charge B d i w = (p, w1)" and "counters_wf w" and "i < 6" and "fits B d w i"
    and "charge_result B d (Suc i) w1 q w'"
  shows "charge_result B d i w (case q of Inl e \<Rightarrow> Inl e | Inr ys \<Rightarrow> Inr (f ys)) w'"
proof -
  have lift: "charged d (Suc i) k w1 w' \<Longrightarrow> i \<le> k \<Longrightarrow> charged d i k w w'" for k
    using charged_step [OF assms(1-3)] by blast
  have keep: "fits B d w1 j = fits B d w j" "refusal B d w1 j = refusal B d w j" if "Suc i \<le> j" for j
    using charge_other [OF assms(1), of j] that by auto
  have cover: "i \<le> j \<longleftrightarrow> j = i \<or> Suc i \<le> j" for j by auto
  show ?thesis
  proof (cases q)
    case (Inl e)
    then obtain k where k: "Suc i \<le> k" "k < 6" "\<forall>j. Suc i \<le> j \<and> j < k \<longrightarrow> fits B d w1 j" "\<not> fits B d w1 k"
      "e = refusal B d w1 k" "charged d (Suc i) k w1 w'"
      using assms(5) by (auto simp: charge_result_def)
    have "\<forall>j. i \<le> j \<and> j < k \<longrightarrow> fits B d w j"
      using k(3) keep(1) assms(4) unfolding cover by blast
    moreover have "charged d i k w w'" using lift [OF k(6)] k(1) by simp
    ultimately show ?thesis
      using Inl k keep [OF k(1)] by (auto simp: charge_result_def intro!: exI [of _ k])
  next
    case (Inr ys)
    then have a: "\<forall>j. Suc i \<le> j \<and> j < 6 \<longrightarrow> fits B d w1 j" "charged d (Suc i) 5 w1 w'"
      using assms(5) by (auto simp: charge_result_def)
    have "\<forall>j. i \<le> j \<and> j < 6 \<longrightarrow> fits B d w j"
      using a(1) keep(1) assms(4) unfolding cover by blast
    then show ?thesis
      using Inr lift [OF a(2)] assms(3) by (simp add: charge_result_def)
  qed
qed

lemma charges_run:
  assumes "i \<le> 6" and "counters_wf w" and "forR (charge B d) [i..<6] w = (r, w')"
  shows "charge_result B d i w r w'"
  using assms
proof (induction i arbitrary: w r rule: inc_induct)
  case base
  then show ?case
    by (auto simp: charge_result_def charged_def)
next
  case (step i)
  obtain q w1 where c: "charge B d i w = (q, w1)" by (cases "charge B d i w")
  note exact = charge_exact [OF c step.prems(1) step.hyps(2)]
  have wf: "counters_wf w1" using charge_frame(2) [OF c] step.prems(1) by simp
  have run: "forR (charge B d) [i..<6] w =
      bindR (charge B d i) (\<lambda>y. bindR (forR (charge B d) [Suc i..<6]) (\<lambda>ys. retR (y # ys))) w"
    using step.hyps(2) by (simp add: upt_conv_Cons)
  show ?case
  proof (cases "fits B d w i")
    case False
    then have "r = Inl (refusal B d w i)" "w' = w1"
      using step.prems(2) exact(1) unfolding run by (simp_all add: bindR_def c)
    moreover have "charged d i i w w1"
      using exact(2) charge_frame [OF c] wf by (auto simp: charged_def)
    ultimately show ?thesis
      using False step.hyps(2) by (auto simp: charge_result_def)
  next
    case True
    obtain q2 where tail: "forR (charge B d) [Suc i..<6] w1 = (q2, w')"
      and r: "r = (case q2 of Inl e \<Rightarrow> Inl e | Inr ys \<Rightarrow> Inr (() # ys))"
      using step.prems(2) exact(1) True unfolding run
      by (auto simp: bindR_def c split: prod.splits sum.splits)
    show ?thesis
      unfolding r by (rule charge_result_step [OF c step.prems(1) step.hyps(2) True step.IH [OF wf tail]])
  qed
qed

section \<open>Consuming\<close>

definition running :: "service_budget \<Rightarrow> service_world \<Rightarrow> bool" where
  "running B w \<longleftrightarrow> \<not> budget_is_cancelled B w \<and> sv_now w \<le> sl_deadline (sb_limits B)"

lemma consume_result:
  assumes "counters_wf w" and "budget_consume B d w = (r, w')"
  shows "if running B w then charge_result B d 0 w r w' else r = Inl Cancelled \<and> w' = w"
proof -
  obtain q v where run: "forR (charge B d) [0..<6] w = (q, v)"
    by (cases "forR (charge B d) [0..<6] w")
  have "charge_result B d 0 w (map_sum id (\<lambda>_. ()) q) v"
    using charges_run [of 0 w B d q v] assms(1) run by (cases q) (simp_all add: charge_result_def)
  then show ?thesis
    using assms(2) run
    by (cases q) (auto simp: budget_consume_def running_def not_less bindR_def split: if_splits)
qed

lemma consume_granted:
  assumes "counters_wf w" and "budget_consume B d w = (Inr u, w')" and "i < 6"
  shows "counters_wf w'" and "sv_allocated w' = sv_allocated w"
    and "bound B i < 2 ^ 64 - 1 \<Longrightarrow> spent w' i = spent w i + amount d i \<and> spent w' i \<le> bound B i"
proof -
  have "fits B d w i" and c: "charged d 0 5 w w'"
    using consume_result [OF assms(1,2)] assms(3) by (auto simp: charge_result_def split: if_splits)
  then show "counters_wf w'" "sv_allocated w' = sv_allocated w"
    "bound B i < 2 ^ 64 - 1 \<Longrightarrow> spent w' i = spent w i + amount d i \<and> spent w' i \<le> bound B i"
    using assms(3) by (auto simp: charged_def fits_def spent_after_def)
qed

lemma consume_refused:
  assumes "counters_wf w" and "budget_consume B d w = (Inl e, w')"
  shows "counters_wf w'" and "sv_allocated w' = sv_allocated w"
  using consume_result [OF assms] assms(1) by (auto simp: charge_result_def charged_def split: if_splits)

section \<open>Allocation under a budget\<close>

text \<open>
  A host that meters the allocator: whether a request is granted may depend on anything, and a granted
  request adds its bytes to those handed out.
\<close>

definition metered_host ::
  "(rust_type \<Rightarrow> nat) \<Rightarrow> (rust_type \<Rightarrow> nat) \<Rightarrow> (nat \<Rightarrow> service_world \<Rightarrow> bool) \<Rightarrow> (rust_type \<Rightarrow> nat \<Rightarrow> nat) \<Rightarrow> service_world host" where
  "metered_host sz al grants cap =
     \<lparr>size_of = sz, align_of = al,
      heap_reserve = (\<lambda>n w. if grants n w then (True, w\<lparr>sv_allocated := sv_allocated w + n\<rparr>) else (False, w)),
      granted_capacity = cap,
      table_bytes = (\<lambda>KV n. if n = 0 then 0 else case hash_buckets n of None \<Rightarrow> 0
        | Some b \<Rightarrow> if b * sz KV + (al KV - 1) + b + 16 < usize_limit then b * sz KV + b + 16 else 0)\<rparr>"

text \<open>
  While the resident counter stays within its limit, the allocator hands out no more than the counter
  grows; a call that fails has allocated no more than what was left of the limit.
\<close>

definition within :: "service_budget \<Rightarrow> service_world \<Rightarrow> bool" where
  "within B w \<longleftrightarrow> counters_wf w \<and> bound B 5 < 2 ^ 64 - 1 \<and> spent w 5 \<le> bound B 5"

definition paid :: "service_budget \<Rightarrow> service_world \<Rightarrow> service_world \<Rightarrow> bool" where
  "paid B w w' \<longleftrightarrow> (within B w \<longrightarrow> within B w' \<and> sv_allocated w' + spent w 5 \<le> sv_allocated w + spent w' 5)"

definition covered :: "service_budget \<Rightarrow> service_world \<Rightarrow> service_world \<Rightarrow> bool" where
  "covered B w w' \<longleftrightarrow> (within B w \<longrightarrow> sv_allocated w' + spent w 5 \<le> sv_allocated w + bound B 5)"

lemma amount_resident: "amount d 5 = unat (wd_resident_bytes d)"
  by (simp add: delta_values_def)

lemma paid_allocation:
  assumes "budget_consume B d w = (Inr u, w1)" and "n \<le> unat (wd_resident_bytes d)"
    and "try_reserve (metered_host sz al grants cap) n w1 = (ok, w2)"
  shows "(if ok then paid B else covered B) w w2"
proof -
  have w2: "within B w2 = within B w1" "spent w2 5 = spent w1 5" "sv_allocated w2 \<le> sv_allocated w1 + n"
    using assms(3)
    by (auto simp: try_reserve_def metered_host_def within_def counters_wf_def spent_def split: if_splits)
  have "within B w1 \<and> sv_allocated w1 = sv_allocated w \<and> spent w1 5 = spent w 5 + unat (wd_resident_bytes d)"
    if "within B w"
    using that consume_granted [OF _ assms(1), of 5] by (simp add: within_def amount_resident)
  with w2 assms(2) show ?thesis
    by (auto simp: paid_def covered_def within_def)
qed

lemma table_layout_bytes:
  assumes "hash_table_layout_in H KV n ctx = Inr (b, sl)" and "n \<noteq> 0" and "hash_buckets n = Some k"
  shows "unat b = k * size_of H KV + (align_of H KV - 1) + k + 16"
proof -
  have b: "b = word_of_nat (k * size_of H KV + (align_of H KV - 1) + k + 16)"
    and lt: "k * size_of H KV + (align_of H KV - 1) + k + 16 < 2 ^ 64"
    using assms
    by (auto simp: hash_table_layout_in_def checked_mul_usize_def checked_add_usize_def Let_def usize_limit_eq
        simp del: of_nat_add of_nat_mult split: if_splits option.splits bind_splits)
  then show ?thesis by (simp add: unat_of_nat del: of_nat_add of_nat_mult)
qed

interpretation budget: guarded_world "paid B" "covered B" "metered_host sz al grants cap" "budget_guard B"
  for B sz al grants cap
proof unfold_locales
  fix s t u :: service_world
  show "paid B s s" by (simp add: paid_def)
  show "covered B s s" by (simp add: covered_def within_def)
  show "paid B s t \<Longrightarrow> paid B t u \<Longrightarrow> paid B s u" by (auto simp: paid_def)
  show "paid B s t \<Longrightarrow> covered B t u \<Longrightarrow> covered B s u" by (auto simp: paid_def covered_def)
next
  fix d
  have "paid B w w'" if "budget_consume B d w = (Inr x, w')" for w x w'
    using paid_allocation [OF that le0, of sz al grants cap True w'] by (simp add: try_reserve_def)
  moreover have "covered B w w'" if "budget_consume B d w = (Inl e, w')" for w e w'
    using consume_refused [OF _ that] by (auto simp: covered_def within_def)
  ultimately show "stepR (paid B) (covered B) (wg_consume (budget_guard B) d)"
    by (intro stepRI) (simp_all add: budget_guard_def default_guard_def)
next
  fix d s w a w'
  assume "wg_begin_allocation_scope (budget_guard B) d s w = (Inl a, w')"
  then show "covered B w w'"
    using consume_refused [of w B d a w'] by (auto simp: budget_guard_def default_guard_def covered_def within_def)
next
  fix d s w u w' n ok w''
  assume "wg_begin_allocation_scope (budget_guard B) d s w = (Inr u, w')" and "n \<le> unat (wd_resident_bytes d)"
    and "try_reserve (metered_host sz al grants cap) n w' = (ok, w'')"
  then show "(if ok then paid B else covered B) w (wg_end_allocation_scope (budget_guard B) w'')"
    using paid_allocation [of B d w u w' n sz al grants cap ok w''] by (simp add: budget_guard_def default_guard_def)
next
  fix KV n ctx b sl w u w' ok w''
  let ?H = "metered_host sz al grants cap"
  assume l: "hash_table_layout_in ?H KV n ctx = Inr (b, sl)"
    and "wg_begin_allocation_scope (budget_guard B) (work_default\<lparr>wd_resident_bytes := b\<rparr>) sl w = (Inr u, w')"
    and "try_reserve ?H (table_bytes ?H KV n) w' = (ok, w'')"
  moreover have "table_bytes ?H KV n \<le> unat b"
    using table_layout_bytes [OF l] by (cases "hash_buckets n") (auto simp: metered_host_def)
  ultimately show "(if ok then paid B else covered B) w (wg_end_allocation_scope (budget_guard B) w'')"
    using paid_allocation [of B "work_default\<lparr>wd_resident_bytes := b\<rparr>" w u w' "table_bytes ?H KV n" sz al grants cap ok w'']
    by (simp add: budget_guard_def default_guard_def)
qed

section \<open>Properties\<close>

text \<open>
  C16. What one call of \<open>consume\<close> decides: it is cancelled exactly when a cancellation flag is set or the
  deadline has passed, and then nothing is charged. Otherwise it is granted exactly when every dimension
  fits its limit; if not, the error names the first dimension that does not fit, with its limit and the
  saturated total. In both cases the heap is untouched.
\<close>

theorem budget_consume_exact:
  assumes "counters_wf w" and "budget_consume B d w = (r, w')"
  shows "(r = Inl Cancelled \<longleftrightarrow> \<not> running B w) \<and> (\<not> running B w \<longrightarrow> w' = w) \<and>
    (r = Inr () \<longleftrightarrow> running B w \<and> (\<forall>i < 6. fits B d w i)) \<and>
    (\<forall>k < 6. running B w \<and> (\<forall>j < k. fits B d w j) \<and> \<not> fits B d w k \<longrightarrow> r = Inl (refusal B d w k)) \<and>
    sv_allocated w' = sv_allocated w"
proof (cases "running B w")
  case False
  then show ?thesis using consume_result [OF assms] by auto
next
  case True
  then have c: "charge_result B d 0 w r w'" using consume_result [OF assms] by simp
  show ?thesis
  proof (cases r)
    case (Inr u)
    then show ?thesis using c True by (auto simp: charge_result_def charged_def)
  next
    case (Inl e)
    then obtain k where k: "k < 6" "\<forall>j < k. fits B d w j" "\<not> fits B d w k" "e = refusal B d w k" "charged d 0 k w w'"
      using c by (auto simp: charge_result_def)
    have "i = k" if "\<forall>j < i. fits B d w j" and "\<not> fits B d w i" for i
      using that k(2,3) by (metis linorder_neqE_nat)
    then have "\<forall>i < 6. running B w \<and> (\<forall>j < i. fits B d w j) \<and> \<not> fits B d w i \<longrightarrow> r = Inl (refusal B d w i)"
      using Inl k(4) by metis
    moreover have "r \<noteq> Inl Cancelled" and "r \<noteq> Inr ()" using Inl k(4) by (simp_all add: refusal_def)
    moreover have "\<not> (\<forall>i < 6. fits B d w i)" using k(1,3) by blast
    moreover have "sv_allocated w' = sv_allocated w" using k(5) by (simp add: charged_def)
    ultimately show ?thesis using True by (intro conjI) simp_all
  qed
qed

definition sample_budget :: service_budget where
  "sample_budget = \<lparr>sb_limits = \<lparr>sl_deadline = 100, sl_input_bytes = - 1, sl_decompressed_bytes = - 1,
     sl_events = - 1, sl_nodes = 10, sl_rows = 10, sl_resident_bytes = 100\<rparr>, sb_external_cancel = Some 1,
     sb_validation_workers = 1\<rparr>"

definition sample_world :: service_world where
  "sample_world = \<lparr>sv_now = 5, sv_cancelled = False, sv_flags = (\<lambda>_. False), sv_used = replicate 6 0, sv_allocated = 0\<rparr>"

theorem budget_consume_exact_witness:
  "\<exists>r w'. counters_wf sample_world \<and>
     budget_consume sample_budget (work_default\<lparr>wd_nodes := 11, wd_rows := 12\<rparr>) sample_world = (r, w') \<and>
     r = Inl (BudgetExceeded Nodes 10 11)"
proof -
  let ?d = "work_default\<lparr>wd_nodes := 11, wd_rows := 12\<rparr>"
  obtain r w' where c: "budget_consume sample_budget ?d sample_world = (r, w')"
    by (cases "budget_consume sample_budget ?d sample_world")
  have wf: "counters_wf sample_world" by (simp add: counters_wf_def sample_world_def)
  have run: "running sample_budget sample_world"
    by (simp add: running_def budget_is_cancelled_def job_is_cancelled_def sample_budget_def sample_world_def)
  have max: "unat (- 1 :: u64) = 2 ^ 64 - 1"
    by (simp add: unsigned_minus_1_eq_mask mask_eq_exp_minus_1)
  have fit: "\<forall>j < 3. fits sample_budget ?d sample_world j"
    by (simp add: less_Suc_eq numeral_3_eq_3 fits_def limit_values_def sample_budget_def max)
  moreover have "\<not> fits sample_budget ?d sample_world 3"
    by (simp add: fits_def spent_def limit_values_def delta_values_def sample_budget_def sample_world_def
        numeral_3_eq_3)
  ultimately have "r = Inl (refusal sample_budget ?d sample_world 3)"
    using budget_consume_exact [OF wf c] run by simp
  then show ?thesis
    using wf c by (simp add: refusal_def limit_dimensions_def limit_values_def delta_values_def sample_budget_def
        sample_world_def saturating_add_def numeral_3_eq_3)
qed

text \<open>
  C18. A budget is never overspent by calls that succeed: after any number of granted calls on fresh
  counters, each counter with a limit below \<open>u64::MAX\<close> holds the exact sum of the work, and that sum is
  within the limit.
\<close>

theorem budget_granted_total:
  assumes "forR (budget_consume B) ds (budget_reset w) = (Inr us, w')" and "i < 6" and "bound B i < 2 ^ 64 - 1"
  shows "spent w' i = (\<Sum>d\<leftarrow>ds. amount d i) \<and> (\<Sum>d\<leftarrow>ds. amount d i) \<le> bound B i"
proof -
  have "counters_wf v \<Longrightarrow> spent v i \<le> bound B i \<Longrightarrow> forR (budget_consume B) ds v = (Inr us, w') \<Longrightarrow>
      spent w' i = spent v i + (\<Sum>d\<leftarrow>ds. amount d i) \<and> spent w' i \<le> bound B i" for v us
  proof (induction ds arbitrary: v us)
    case (Cons d ds)
    then obtain u v1 us' where "budget_consume B d v = (Inr u, v1)" and "forR (budget_consume B) ds v1 = (Inr us', w')"
      by (auto simp: bindR_Inr)
    then show ?case
      using Cons.IH [of v1 us'] consume_granted [OF Cons.prems(1), of B d u v1 i] assms(2,3) by auto
  qed simp
  moreover have "counters_wf (budget_reset w)" "spent (budget_reset w) i = 0"
    using assms(2) by (simp_all add: counters_wf_def budget_reset_def spent_def)
  ultimately show ?thesis using assms(1) by fastforce
qed

theorem budget_granted_total_witness:
  "\<exists>us w'. forR (budget_consume sample_budget) [work_default\<lparr>wd_resident_bytes := 40\<rparr>, work_default\<lparr>wd_resident_bytes := 40\<rparr>]
       (budget_reset sample_world) = (Inr us, w') \<and> bound sample_budget 5 < 2 ^ 64 - 1 \<and> spent w' 5 = 80"
proof -
  let ?d = "work_default\<lparr>wd_resident_bytes := 40\<rparr>"
  have "case forR (budget_consume sample_budget) [?d, ?d] (budget_reset sample_world) of
      (Inr us, w') \<Rightarrow> True | (Inl e, w') \<Rightarrow> False"
    by code_simp
  then obtain us w' where r: "forR (budget_consume sample_budget) [?d, ?d] (budget_reset sample_world) = (Inr us, w')"
    by (auto split: prod.splits sum.splits)
  have b: "bound sample_budget 5 < 2 ^ 64 - 1"
    by (simp add: sample_budget_def limit_values_def)
  show ?thesis
    using budget_granted_total [OF r _ b] r b by (simp add: delta_values_def)
qed

text \<open>
  Several threads share one budget, and their loops interleave at the atomic \<open>fetch_add\<close>. An execution
  is a sequence of charges, each of one dimension of some delta; a thread whose charge is refused stops,
  so every interleaving of calls of \<open>consume\<close> is such a sequence.
\<close>

fun atomic_charges :: "service_budget \<Rightarrow> (work_delta \<times> nat) list \<Rightarrow> service_world \<Rightarrow> bool list \<times> service_world" where
  "atomic_charges B [] w = ([], w)"
| "atomic_charges B ((d, i) # cs) w =
     (case charge B d i w of (r, w1) \<Rightarrow> (case atomic_charges B cs w1 of (bs, w2) \<Rightarrow> ((\<not> isl r) # bs, w2)))"

fun attempted :: "nat \<Rightarrow> (work_delta \<times> nat) list \<Rightarrow> nat" where
  "attempted i [] = 0"
| "attempted i ((d, j) # cs) = (if j = i then amount d i else 0) + attempted i cs"

fun granted :: "nat \<Rightarrow> (work_delta \<times> nat) list \<Rightarrow> bool list \<Rightarrow> nat" where
  "granted i ((d, j) # cs) (b # bs) = (if j = i \<and> b then amount d i else 0) + granted i cs bs"
| "granted i _ _ = 0"

lemma atomic_charges_run:
  assumes "atomic_charges B cs v = (bs, w')" and "counters_wf v" and "i < 6" and "\<forall>(d, j) \<in> set cs. j < 6"
    and "spent v i + attempted i cs < 2 ^ 64" and "bound B i < 2 ^ 64 - 1"
  shows "spent w' i = spent v i + attempted i cs \<and> (granted i cs bs = 0 \<or> spent v i + granted i cs bs \<le> bound B i)"
  using assms
proof (induction B cs v arbitrary: bs rule: atomic_charges.induct)
  case (2 B d j cs w)
  obtain r w1 where c: "charge B d j w = (r, w1)" by (cases "charge B d j w")
  obtain bs' where t: "atomic_charges B cs w1 = (bs', w')" and bs: "bs = (\<not> isl r) # bs'"
    using "2.prems"(1) by (auto simp: c split: prod.splits)
  have j: "j < 6" using "2.prems"(4) by simp
  note exact = charge_exact [OF c "2.prems"(2) j]
  have wf: "counters_wf w1" using charge_frame(2) [OF c] "2.prems"(2) by simp
  have s1: "spent w1 i = spent w i + (if j = i then amount d i else 0)"
    using exact(2) charge_frame(3) [OF c, of i] "2.prems"(5) by (auto simp: spent_after_def)
  have IH: "spent w' i = spent w1 i + attempted i cs \<and> (granted i cs bs' = 0 \<or> spent w1 i + granted i cs bs' \<le> bound B i)"
    using "2.IH" [OF c [symmetric] t wf "2.prems"(3)] "2.prems"(4,5,6) s1 by simp
  have "\<not> isl r \<Longrightarrow> j = i \<Longrightarrow> spent w i + amount d i \<le> bound B i"
    using exact(1) "2.prems"(6) by (auto simp: fits_def split: if_splits)
  with IH s1 show ?case by (auto simp: bs)
qed simp

text \<open>
  C17. The limits hold under concurrency: in every interleaving of the atomic charges of any number of
  threads on a fresh budget, the work granted in a dimension is within its limit and the counter is
  the exact total of what was attempted, provided that total does not reach \<open>2^64\<close>.
\<close>

theorem interleaved_charges_bounded:
  assumes "atomic_charges B cs (budget_reset w) = (bs, w')" and "\<forall>(d, j) \<in> set cs. j < 6" and "i < 6"
    and "bound B i < 2 ^ 64 - 1" and "attempted i cs < 2 ^ 64"
  shows "granted i cs bs \<le> bound B i \<and> spent w' i = attempted i cs"
proof -
  have "counters_wf (budget_reset w)" "spent (budget_reset w) i = 0"
    using assms(3) by (simp_all add: counters_wf_def budget_reset_def spent_def)
  then show ?thesis
    using atomic_charges_run [OF assms(1) _ assms(3,2)] assms(4,5) by auto
qed

theorem interleaved_charges_bounded_witness:
  "\<exists>bs w'. atomic_charges sample_budget
      (replicate 3 (work_default\<lparr>wd_resident_bytes := 40\<rparr>, 5)) (budget_reset sample_world) = (bs, w') \<and>
     granted 5 (replicate 3 (work_default\<lparr>wd_resident_bytes := 40\<rparr>, 5)) bs \<le> 100 \<and> spent w' 5 = 120"
proof -
  let ?cs = "replicate 3 (work_default\<lparr>wd_resident_bytes := 40\<rparr>, 5 :: nat)"
  obtain bs w' where r: "atomic_charges sample_budget ?cs (budget_reset sample_world) = (bs, w')"
    by (cases "atomic_charges sample_budget ?cs (budget_reset sample_world)")
  have a: "attempted 5 ?cs = 120" by (simp add: numeral_3_eq_3 delta_values_def)
  have b: "bound sample_budget 5 = 100" by (simp add: sample_budget_def limit_values_def)
  show ?thesis
    using interleaved_charges_bounded [OF r, of 5] r a b by simp
qed

text \<open>
  The proviso is needed: \<open>fetch_add\<close> wraps although the total that is compared saturates. Three calls
  that ask for \<open>2^64 - 1\<close>, 50 and 40 resident bytes of a limit of 100 are refused, refused and granted.
\<close>

lemma budget_counter_wraps:
  "map isl (fst (let (a, w1) = budget_consume sample_budget (work_default\<lparr>wd_resident_bytes := - 1\<rparr>) sample_world;
        (b, w2) = budget_consume sample_budget (work_default\<lparr>wd_resident_bytes := 50\<rparr>) w1;
        (c, w3) = budget_consume sample_budget (work_default\<lparr>wd_resident_bytes := 40\<rparr>) w2
      in ([a, b, c], w3))) = [True, True, False]"
  by code_simp

end
