(* ===== verification/Qtrb_Budget.thy ===== *)
theory Qtrb_Budget
  imports Qtrb_Properties Qtrb_Steps Service_Budget
begin

text \<open>
  The cursor and its clients: the discipline of repeated calls, and the memory a request may use when the
  cursor runs under a service budget.
\<close>

section \<open>The laws of the cursor, for the guards and sources of the program\<close>

text \<open>Nothing asked of the worlds: what holds of every guard, allocator and source.\<close>

interpretation every_call: cursor_world "\<lambda>_ _. True" "\<lambda>_ _. True" H G S for H G S
  by unfold_locales (auto simp: stepR_def split: sum.split)

text \<open>A service budget over an in-memory source.\<close>

interpretation metered: cursor_world "paid B" "covered B" "metered_host sz al grants cap" "budget_guard B"
  "byte_source_ops s" for B sz al grants cap s
  by unfold_locales
    (rule stepRI; auto simp: byte_source_ops_def intro: budget.ok_refl budget.stop_refl)

section \<open>Repeated calls\<close>

fun call_all ::
  "'w host \<Rightarrow> 'w work_guard list \<Rightarrow> 'w qtrb_cursor \<times> 'w \<Rightarrow>
   (provider_error + event_record option) list \<times> ('w qtrb_cursor \<times> 'w)" where
  "call_all H [] s = ([], s)"
| "call_all H (G # Gs) s = (case next_event H G s of (r, t) \<Rightarrow> (case call_all H Gs t of (rs, u) \<Rightarrow> (r # rs, u)))"

definition cursor_failed :: provider_error where
  "cursor_failed = provider_error_new ''source.cursor_failed'' ''qtrb.cursor'' None False
     ''QTRB cursor cannot continue after a prior failure''"

lemma drained_calls:
  "qc_drained self \<Longrightarrow> call_all H Gs (self, w) = (replicate (length Gs) (Inr None), (self, w))"
  by (induction Gs) (simp_all add: next_event_def)

lemma failed_calls:
  "\<not> qc_drained self \<Longrightarrow> qc_poisoned self \<Longrightarrow>
    call_all H Gs (self, w) = (replicate (length Gs) (Inl cursor_failed), (self, w))"
  by (induction Gs) (simp_all add: next_event_def cursor_failed_def)

lemma finished_flags: "finished self recs evs \<Longrightarrow> qc_drained self \<and> \<not> qc_poisoned self"
proof -
  assume "finished self recs evs"
  then obtain b where t: "tracks b recs evs []"
    and b: "self = b\<lparr>qc_completeness := qc_completeness self, qc_drained := True\<rparr>"
    unfolding finished_def by (elim conjE exE)
  have "qc_drained self" and "qc_poisoned self = qc_poisoned b" by (subst b, simp)+
  then show ?thesis using t by (simp add: tracks_def)
qed

definition call_outcome :: "(provider_error + event_record option) list \<Rightarrow> event_record list \<Rightarrow> bool \<Rightarrow> bool" where
  "call_outcome rs evs finished_ok \<longleftrightarrow> (\<exists>tail k. rs = map (\<lambda>e. Inr (Some e)) evs @ tail \<and>
     (tail = replicate k (Inr None) \<and> (finished_ok \<longleftrightarrow> 0 < k) \<or>
      \<not> finished_ok \<and> (\<exists>e. tail = Inl e # replicate k (Inl cursor_failed))))"

lemma call_outcome_Cons: "call_outcome rs evs b \<Longrightarrow> call_outcome (Inr (Some e) # rs) (e # evs) b"
  by (auto simp: call_outcome_def)

lemma live_calls:
  assumes "tracks self recs evs frs" and "call_all H Gs (self, w) = (rs, (self', w'))"
  shows "\<exists>evs'. call_outcome rs evs' (qc_drained self' \<and> \<not> qc_poisoned self')"
  using assms
proof (induction Gs arbitrary: self w recs evs frs rs)
  case Nil
  then show ?case
    by (intro exI [of _ "[]"]) (auto simp: call_outcome_def tracks_def intro!: exI [of _ 0])
next
  case (Cons G Gs)
  obtain r self1 w1 where n: "next_event H G (self, w) = (r, (self1, w1))" by (metis prod.collapse)
  obtain rs1 where c: "call_all H Gs (self1, w1) = (rs1, (self', w'))" and rs: "rs = r # rs1"
    using Cons.prems(2) by (auto simp: n split: prod.splits)
  show ?case
  proof (cases r)
    case (Inl e)
    then have "\<not> qc_drained self1" "qc_poisoned self1"
      using every_call.call_result [OF n] by simp_all
    then have "rs1 = replicate (length Gs) (Inl cursor_failed)" "self' = self1"
      using c failed_calls by fastforce+
    then show ?thesis
      using Inl rs \<open>\<not> qc_drained self1\<close> by (intro exI [of _ "[]"]) (auto simp: call_outcome_def)
  next
    case (Inr v)
    show ?thesis
    proof (cases v)
      case None
      then obtain recs' where "finished self1 recs' evs"
        using next_event_tracks [OF Cons.prems(1)] n Inr by (fastforce simp: returns_def)
      then have d: "qc_drained self1" "\<not> qc_poisoned self1" using finished_flags by blast+
      then have "rs1 = replicate (length Gs) (Inr None)" "self' = self1"
        using c drained_calls by fastforce+
      then show ?thesis
        using Inr None rs d
        by (intro exI [of _ "[]"]) (auto simp: call_outcome_def intro!: exI [of _ "Suc (length Gs)"])
    next
      case (Some ev)
      then obtain recs' frs' where "tracks self1 recs' (evs @ [ev]) frs'"
        using next_event_tracks [OF Cons.prems(1)] n Inr by (fastforce simp: returns_def)
      from Cons.IH [OF this c] show ?thesis
        using call_outcome_Cons Inr Some rs by blast
    qed
  qed
qed

text \<open>
  C19. The discipline of the cursor: however often it is called after opening, and with whatever guards,
  the results are events, followed either by \<open>Ok(None)\<close> for good or by one error and then
  \<open>source.cursor_failed\<close> for good. \<open>finish\<close> refuses with \<open>source.stream_not_drained\<close> unless \<open>Ok(None)\<close> was
  reached.
\<close>

theorem call_discipline:
  assumes "qtrb_open H G S identity mode w = (Inr p, w')"
    and "call_all H Gs (into_cursor p, w1) = (rs, (self, w2))"
  shows "\<exists>evs tail. rs = map (\<lambda>e. Inr (Some e)) evs @ tail \<and>
    ((\<exists>k. tail = replicate k (Inr None)) \<or> (\<exists>e k. tail = Inl e # replicate k (Inl cursor_failed))) \<and>
    (Inr None \<notin> set rs \<longrightarrow> qtrb_finish self w3 = (Inl stream_not_drained, w3))"
proof -
  obtain evs where "call_outcome rs evs (qc_drained self \<and> \<not> qc_poisoned self)"
    using live_calls [OF opened_tracks [OF assms(1)] assms(2)] by blast
  then obtain tail k where t: "rs = map (\<lambda>e. Inr (Some e)) evs @ tail"
    "tail = replicate k (Inr None) \<and> ((qc_drained self \<and> \<not> qc_poisoned self) \<longleftrightarrow> 0 < k) \<or>
      \<not> (qc_drained self \<and> \<not> qc_poisoned self) \<and> (\<exists>e. tail = Inl e # replicate k (Inl cursor_failed))"
    by (auto simp: call_outcome_def)
  have "qtrb_finish self w3 = (Inl stream_not_drained, w3)" if "Inr None \<notin> set rs"
    using that t by (auto simp: qtrb_finish_def)
  with t show ?thesis by (intro exI [of _ evs] exI [of _ tail]) blast
qed

theorem call_discipline_witness:
  "\<exists>p w rs self w2. qtrb_open unbounded_host allow_state_work sample_source sample_identity Sealed () = (Inr p, w) \<and>
     call_all unbounded_host (replicate 9 allow_state_work) (into_cursor p, ()) = (rs, (self, w2)) \<and>
     (\<exists>evs tail. rs = map (\<lambda>e. Inr (Some e)) evs @ tail \<and>
       ((\<exists>k. tail = replicate k (Inr None)) \<or> (\<exists>e k. tail = Inl e # replicate k (Inl cursor_failed))) \<and>
       (Inr None \<notin> set rs \<longrightarrow> qtrb_finish self () = (Inl stream_not_drained, ())))"
proof -
  obtain p w evs self0 where o: "qtrb_open unbounded_host allow_state_work sample_source sample_identity Sealed () = (Inr p, w)"
    and "emits unbounded_host (into_cursor p) evs self0" and "map event_record_kind evs =
      [K_Begin, K_ModuleDefinition, K_InstructionDefinition, K_Instruction, K_SemanticCall, K_Termination]"
    by (rule sample_run)
  obtain rs self w2 where c: "call_all unbounded_host (replicate 9 allow_state_work) (into_cursor p, ()) = (rs, (self, w2))"
    by (metis prod.collapse)
  show ?thesis
    using o c call_discipline [OF o c, of "()"] by blast
qed

section \<open>Memory under a budget\<close>

lemma pull_paid:
  assumes "pull n (metered_host sz al grants cap) (budget_guard B) (self, w) = Some (evs, (self', w'))"
    and "qc_source self = byte_source_ops s"
  shows "paid B w w' \<and> qc_source self' = byte_source_ops s"
  using assms
proof (induction n arbitrary: self w evs)
  case 0
  then show ?case by (auto simp: budget.ok_refl)
next
  case (Suc n)
  obtain ev self1 w1 evs1 where n: "next_event (metered_host sz al grants cap) (budget_guard B) (self, w) = (Inr (Some ev), (self1, w1))"
    and p: "pull n (metered_host sz al grants cap) (budget_guard B) (self1, w1) = Some (evs1, (self', w'))"
    using Suc.prems(1) by (auto split: prod.splits sum.splits option.splits)
  have "qc_source self1 = byte_source_ops s" "paid B w w1"
    using metered.call_result [OF n, of s] Suc.prems(2) by simp_all
  then show ?case using Suc.IH [OF p] budget.ok_trans by blast
qed


lemma metered_open_evaluated:
  "case qtrb_open (metered_host sample_size sample_align (\<lambda>_ _. True) granted_exact) (budget_guard sample_budget)
     (byte_source_ops \<lparr>bs_bytes = sample_bytes\<rparr>) sample_identity Sealed (budget_reset sample_world) of
     (Inr p, w) \<Rightarrow> True | (Inl e, w) \<Rightarrow> False"
  by code_simp


end
