(* ===== verification/Service_Ids.thy ===== *)
theory Service_Ids
  imports Provider_Control
begin

text \<open>
  Numbers as the service sends them to the user interface (\<open>qtrace-service/src/dto.rs\<close>): 64-bit values
  travel as decimal or hexadecimal text, because JavaScript numbers cannot hold them, and are only
  accepted back in the canonical form they were sent in.
\<close>

section \<open>Parsing\<close>

text \<open>\<open>u64::from_str_radix\<close>: an optional plus sign and at least one digit, every step checked.\<close>

definition digit_value :: "char \<Rightarrow> nat option" where
  "digit_value c = (let n = (of_char c :: nat) in
     if 48 \<le> n \<and> n \<le> 57 then Some (n - 48)
     else if 97 \<le> n \<and> n \<le> 102 then Some (n - 87)
     else if 65 \<le> n \<and> n \<le> 70 then Some (n - 55)
     else None)"

fun parse_digits :: "nat \<Rightarrow> nat \<Rightarrow> string \<Rightarrow> nat option" where
  "parse_digits radix acc [] = Some acc"
| "parse_digits radix acc (c # cs) = (case digit_value c of
       None \<Rightarrow> None
     | Some d \<Rightarrow> if d < radix \<and> acc * radix + d < 2 ^ 64 then parse_digits radix (acc * radix + d) cs else None)"

definition from_str_radix :: "string \<Rightarrow> nat \<Rightarrow> u64 option" where
  "from_str_radix text radix =
     (let digits = (case text of c # cs \<Rightarrow> if c = CHR ''+'' then cs else text | [] \<Rightarrow> [])
      in if digits = [] then None else map_option word_of_nat (parse_digits radix 0 digits))"

definition parse_u64 :: "string \<Rightarrow> u64 option" where
  "parse_u64 text = from_str_radix text 10"

section \<open>The transfer types\<close>

definition MAX_IDENTIFIER_BYTES :: nat where
  "MAX_IDENTIFIER_BYTES = 256"

definition deserialize_identifier :: "string \<Rightarrow> string option" where
  "deserialize_identifier text = (if length text \<le> MAX_IDENTIFIER_BYTES then Some text else None)"

definition id_from_u64 :: "u64 \<Rightarrow> string" where
  "id_from_u64 v = decimal (unat v)"

definition decimal_u64_new :: "u64 \<Rightarrow> string" where
  "decimal_u64_new v = decimal (unat v)"

definition decimal_u64_value :: "string \<Rightarrow> u64" where
  "decimal_u64_value text = the (parse_u64 text)"

definition decimal_u64_deserialize :: "string \<Rightarrow> string option" where
  "decimal_u64_deserialize raw =
     Option.bind (deserialize_identifier raw) (\<lambda>text.
     Option.bind (parse_u64 text) (\<lambda>v.
     if decimal (unat v) \<noteq> text then None else Some text))"

definition hex_u64_new :: "u64 \<Rightarrow> string" where
  "hex_u64_new v = hex_alternate (unat v)"

definition hex_u64_value :: "string \<Rightarrow> u64" where
  "hex_u64_value text = the (from_str_radix (drop 2 text) 16)"

definition strip_prefix :: "string \<Rightarrow> string \<Rightarrow> string option" where
  "strip_prefix p text = (if take (length p) text = p then Some (drop (length p) text) else None)"

definition hex_u64_deserialize :: "string \<Rightarrow> string option" where
  "hex_u64_deserialize raw =
     Option.bind (deserialize_identifier raw) (\<lambda>text.
     Option.bind (strip_prefix ''0x'' text) (\<lambda>digits.
     Option.bind (from_str_radix digits 16) (\<lambda>v.
     if hex_alternate (unat v) \<noteq> text then None else Some text)))"

section \<open>Round trips\<close>

lemma parse_digits_append:
  "parse_digits radix acc (xs @ ys) = Option.bind (parse_digits radix acc xs) (\<lambda>a. parse_digits radix a ys)"
  by (induction xs arbitrary: acc) (auto split: option.split)

lemma digit_of: "k < 10 \<Longrightarrow> digit_value (char_of (48 + k :: nat)) = Some k"
  by (simp add: digit_value_def)

lemma hex_digit_of: "10 \<le> k \<Longrightarrow> k < 16 \<Longrightarrow> digit_value (char_of (87 + k :: nat)) = Some k"
  by (simp add: digit_value_def)

lemma parse_decimal: "n < 2 ^ 64 \<Longrightarrow> parse_digits 10 0 (decimal n) = Some n"
proof (induction n rule: decimal.induct)
  case (1 n)
  show ?case
  proof (cases "n < 10")
    case True
    then show ?thesis by (simp add: decimal.simps [of n] digit_of)
  next
    case False
    then have "parse_digits 10 0 (decimal (n div 10)) = Some (n div 10)"
      using 1 by simp
    then show ?thesis
      using False "1.prems" by (simp add: decimal.simps [of n] parse_digits_append digit_of)
  qed
qed

lemma parse_hex: "n < 2 ^ 64 \<Longrightarrow> parse_digits 16 0 (hex_digits n) = Some n"
proof (induction n rule: hex_digits.induct)
  case (1 n)
  let ?d = "\<lambda>k :: nat. if k < 10 then char_of (48 + k) else (char_of (87 + k) :: char)"
  have d: "k < 16 \<Longrightarrow> digit_value (?d k) = Some k" for k
    by (simp add: digit_of hex_digit_of)
  show ?case
  proof (cases "n < 16")
    case True
    then show ?thesis using d [of n] by (simp add: hex_digits.simps [of n] Let_def)
  next
    case False
    then have "parse_digits 16 0 (hex_digits (n div 16)) = Some (n div 16)"
      using 1 by (simp add: Let_def)
    then show ?thesis
      using False "1.prems" d [of "n mod 16"] by (simp add: hex_digits.simps [of n] parse_digits_append Let_def)
  qed
qed

lemma decimal_ne: "decimal n \<noteq> []"
  by (simp add: decimal.simps [of n])

lemma hex_ne: "hex_digits n \<noteq> []"
  by (simp add: hex_digits.simps [of n] Let_def)

lemma decimal_digits: "c \<in> set (decimal n) \<Longrightarrow> \<exists>k :: nat. k < 10 \<and> c = char_of (48 + k)"
proof (induction n rule: decimal.induct)
  case (1 n)
  have "set (decimal n) = (if n < 10 then {char_of (48 + n)} else insert (char_of (48 + n mod 10)) (set (decimal (n div 10))))"
    by (simp add: decimal.simps [of n])
  then consider "n < 10" "c = char_of (48 + n)" | "c = char_of (48 + n mod 10)" | "\<not> n < 10" "c \<in> set (decimal (n div 10))"
    using "1.prems" by (auto split: if_splits)
  then show ?case
  proof cases
    case 2
    then show ?thesis by (intro exI [of _ "n mod 10"]) simp
  qed (use "1.IH" in blast)+
qed

definition hex_char :: "nat \<Rightarrow> char" where
  "hex_char k = (if k < 10 then char_of (48 + k) else char_of (87 + k))"

lemma hex_digits_set: "c \<in> set (hex_digits n) \<Longrightarrow> \<exists>k < 16. c = hex_char k"
proof (induction n rule: hex_digits.induct)
  case (1 n)
  have "set (hex_digits n) = (if n < 16 then {hex_char n} else insert (hex_char (n mod 16)) (set (hex_digits (n div 16))))"
    by (simp add: hex_digits.simps [of n] Let_def hex_char_def)
  then consider "n < 16" "c = hex_char n" | "c = hex_char (n mod 16)" | "\<not> n < 16" "c \<in> set (hex_digits (n div 16))"
    using "1.prems" by (auto split: if_splits)
  then show ?case
  proof cases
    case 2
    then show ?thesis by (intro exI [of _ "n mod 16"]) simp
  next
    case 3
    then show ?thesis using "1.IH" by (simp add: Let_def)
  qed blast
qed

lemma hex_char_not_plus: "k < 16 \<Longrightarrow> hex_char k \<noteq> CHR ''+''"
proof
  assume k: "k < 16" and "hex_char k = CHR ''+''"
  then have "(of_char (hex_char k) :: nat) = of_char CHR ''+''" by simp
  then show False using k by (simp add: hex_char_def split: if_splits)
qed

lemma from_str_radix_plain:
  assumes "text \<noteq> []" and "hd text \<noteq> CHR ''+''"
  shows "from_str_radix text radix = map_option word_of_nat (parse_digits radix 0 text)"
  using assms by (cases "text") (simp_all add: from_str_radix_def)

lemma parse_u64_decimal [simp]: "parse_u64 (decimal (unat v)) = Some v"
proof -
  have "hd (decimal (unat v)) \<noteq> CHR ''+''"
  proof -
    obtain k :: nat where "k < 10" and "hd (decimal (unat v)) = char_of (48 + k)"
      using decimal_digits [OF hd_in_set [OF decimal_ne], of "unat v"] by blast
    then show ?thesis using hex_char_not_plus [of k] by (simp add: hex_char_def)
  qed
  then show ?thesis
    using parse_decimal [of "unat v"] unat_less_2p [of v]
    by (simp add: parse_u64_def from_str_radix_plain decimal_ne)
qed

lemma from_str_radix_hex [simp]: "from_str_radix (hex_digits (unat v)) 16 = Some (v :: u64)"
proof -
  have "hd (hex_digits (unat v)) \<noteq> CHR ''+''"
    using hex_digits_set [OF hd_in_set [OF hex_ne]] hex_char_not_plus by metis
  then show ?thesis
    using parse_hex [of "unat v"] unat_less_2p [of v] by (simp add: from_str_radix_plain hex_ne)
qed

lemma length_decimal: "n < 10 ^ Suc k \<Longrightarrow> length (decimal n) \<le> Suc k"
proof (induction k arbitrary: n)
  case 0
  then show ?case by (simp add: decimal.simps [of n])
next
  case (Suc k)
  then show ?case
    by (cases "n < 10") (auto simp: decimal.simps [of n] less_mult_imp_div_less mult.commute)
qed

lemma length_hex: "n < 16 ^ Suc k \<Longrightarrow> length (hex_digits n) \<le> Suc k"
proof (induction k arbitrary: n)
  case 0
  then show ?case by (simp add: hex_digits.simps [of n] Let_def)
next
  case (Suc k)
  then show ?case
    by (cases "n < 16") (auto simp: hex_digits.simps [of n] Let_def less_mult_imp_div_less mult.commute)
qed

lemma length_decimal_u64: "length (decimal (unat (v :: u64))) \<le> 256"
  using length_decimal [of "unat v" 19] unat_less_2p [of v] by simp

lemma length_hex_u64: "length (hex_digits (unat (v :: u64))) \<le> 254"
  using length_hex [of "unat v" 15] unat_less_2p [of v] by simp

text \<open>Ids made from different numbers differ, and the number can be read back.\<close>

lemma id_from_u64_inject [simp]: "id_from_u64 a = id_from_u64 b \<longleftrightarrow> a = b"
  by (metis id_from_u64_def option.inject parse_u64_decimal)

text \<open>
  C25. The transfer types are canonical: exactly the texts \<open>new\<close> produces are accepted back, and the value
  of an accepted text is the number it was made from, for decimal and for hexadecimal values.
\<close>

theorem transfer_numbers_canonical:
  "(decimal_u64_deserialize text = Some d \<longleftrightarrow> d = text \<and> (\<exists>v. text = decimal_u64_new v)) \<and>
   decimal_u64_value (decimal_u64_new v) = v \<and>
   (hex_u64_deserialize text = Some d \<longleftrightarrow> d = text \<and> (\<exists>v. text = hex_u64_new v)) \<and>
   hex_u64_value (hex_u64_new v) = v"
proof (intro conjI iffI)
  show "decimal_u64_value (decimal_u64_new v) = v"
    by (simp add: decimal_u64_value_def decimal_u64_new_def)
  show "hex_u64_value (hex_u64_new v) = v"
    by (simp add: hex_u64_value_def hex_u64_new_def hex_alternate_def)
next
  assume "decimal_u64_deserialize text = Some d"
  then show "d = text" "\<exists>v. text = decimal_u64_new v"
    by (auto simp: decimal_u64_deserialize_def deserialize_identifier_def decimal_u64_new_def
        split: if_splits bind_splits)
next
  assume "hex_u64_deserialize text = Some d"
  then show "d = text" "\<exists>v. text = hex_u64_new v"
    by (auto simp: hex_u64_deserialize_def deserialize_identifier_def hex_u64_new_def
        split: if_splits bind_splits)
next
  assume "d = text \<and> (\<exists>v. text = decimal_u64_new v)"
  then show "decimal_u64_deserialize text = Some d"
    using length_decimal_u64
    by (auto simp: decimal_u64_deserialize_def deserialize_identifier_def decimal_u64_new_def MAX_IDENTIFIER_BYTES_def)
next
  assume "d = text \<and> (\<exists>v. text = hex_u64_new v)"
  then show "hex_u64_deserialize text = Some d"
    using length_hex_u64
    by (auto simp: hex_u64_deserialize_def deserialize_identifier_def hex_u64_new_def hex_alternate_def strip_prefix_def
        MAX_IDENTIFIER_BYTES_def)
qed

end
