(* ===== verification/Service_Error.thy ===== *)
theory Service_Error
  imports Service_Ids
begin

text \<open>
  Errors as the service reports them to the user interface (\<open>qtrace-service/src/error.rs\<close>): a code, a
  stage, a source coordinate in transfer form and one bounded line of detail, and the conversions from
  the errors of the provider and from aborted work. A \<open>str\<close> is its UTF-8 bytes, as in the provider.
\<close>

section \<open>The error type\<close>

record source_coordinate_dto =
  scd_offset :: string
  scd_record_ordinal :: "string option"

record app_error =
  ae_code :: string
  ae_stage :: string
  ae_source :: "source_coordinate_dto option"
  ae_retryable :: bool
  ae_detail :: string

text \<open>The loop of \<open>bounded\<close>: whole characters while they fit, line breaks as spaces.\<close>

function service_bounded_from :: "nat \<Rightarrow> string \<Rightarrow> string" where
  "service_bounded_from n [] = []"
| "service_bounded_from n (c # cs) =
     (if n + utf8_width c > 512 then []
      else (if c = CHR 0x0D \<or> c = CHR 0x0A then CHR '' '' else c) #
           take (utf8_width c - 1) cs @
           service_bounded_from (n + utf8_width c) (drop (utf8_width c - 1) cs))"
  by pat_completeness auto
termination
  by (relation "measure (\<lambda>(n, cs). length cs)") auto

definition service_bounded :: "string \<Rightarrow> string" where
  "service_bounded v = service_bounded_from 0 v"

definition app_error_new :: "string \<Rightarrow> string \<Rightarrow> string \<Rightarrow> app_error" where
  "app_error_new code stage detail = \<lparr>ae_code = code, ae_stage = stage, ae_source = None, ae_retryable = False,
     ae_detail = service_bounded detail\<rparr>"

definition app_cancelled :: app_error where
  "app_cancelled = app_error_new ''job.cancelled'' ''control'' ''operation cancelled''"

definition worker_failed :: app_error where
  "worker_failed = app_error_new ''internal.worker_failed'' ''worker'' ''background worker failed''"

definition stale_workspace :: app_error where
  "stale_workspace = app_error_new ''workspace.stale'' ''workspace'' ''workspace is closed or stale''"

section \<open>Conversions\<close>

definition from_provider_error :: "provider_error \<Rightarrow> app_error" where
  "from_provider_error e =
     (if pe_code e = ''control.cancelled'' then app_cancelled
      else \<lparr>ae_code = pe_code e, ae_stage = pe_stage e,
        ae_source = map_option (\<lambda>s. \<lparr>scd_offset = decimal_u64_new (sc_offset s),
          scd_record_ordinal = map_option decimal_u64_new (sc_record_ordinal s)\<rparr>) (pe_source e),
        ae_retryable = pe_retryable e, ae_detail = service_bounded (error_detail e)\<rparr>)"

definition from_operation_abort :: "operation_abort \<Rightarrow> app_error" where
  "from_operation_abort e = (case e of
       Cancelled \<Rightarrow> app_cancelled
     | BudgetExceeded _ _ _ \<Rightarrow> app_error_new ''control.budget_exceeded'' ''control'' (display_abort e))"

section \<open>Bounded details\<close>

text \<open>The service has a copy of the loop the provider uses for its own details.\<close>

lemma service_bounded_from_eq: "service_bounded_from n cs = bounded_single_line_from n cs"
  by (induction n cs rule: service_bounded_from.induct) (simp_all add: MAX_DETAIL_BYTES_def)

lemma service_bounded_eq: "service_bounded v = bounded_single_line v"
  by (simp add: service_bounded_def bounded_single_line_def service_bounded_from_eq)

text \<open>The leading byte of a character is not one of its continuation bytes; those are above ASCII.\<close>

fun chars_wf :: "string \<Rightarrow> bool" where
  "chars_wf s \<longleftrightarrow> (case s of [] \<Rightarrow> True | c # cs \<Rightarrow>
     utf8_width c - 1 \<le> length cs \<and> (\<forall>b \<in> set (take (utf8_width c - 1) cs). (of_char b :: nat) \<ge> 0x80) \<and>
     chars_wf (drop (utf8_width c - 1) cs))"

declare chars_wf.simps [simp del]

definition single_line :: "char \<Rightarrow> char" where
  "single_line c = (if c = CHR 0x0D \<or> c = CHR 0x0A then CHR '' '' else c)"

lemma single_line_high: "(of_char c :: nat) \<ge> 0x80 \<Longrightarrow> single_line c = c"
  by (auto simp: single_line_def)

lemma utf8_width_le: "utf8_width c \<le> 4"
  by (simp add: utf8_width_def Let_def)

text \<open>The loop keeps a prefix that ends between characters and stops at most three bytes early.\<close>

lemma bounded_from_prefix:
  assumes "chars_wf cs" and "n \<le> 512"
  shows "\<exists>k. service_bounded_from n cs = map single_line (take k cs) \<and> k \<le> length cs \<and> n + k \<le> 512 \<and>
    chars_wf (drop k cs) \<and> (k < length cs \<longrightarrow> 508 < n + k)"
  using assms
proof (induction n cs rule: service_bounded_from.induct)
  case (2 n c cs)
  let ?w = "utf8_width c"
  obtain v where w: "?w = Suc v" using utf8_width_pos [of c] by (cases ?w) auto
  show ?case
  proof (cases "n + ?w > 512")
    case True
    then show ?thesis using "2.prems" utf8_width_le [of c] by (intro exI [of _ 0]) auto
  next
    case False
    have wf: "v \<le> length cs" "\<forall>b \<in> set (take v cs). (of_char b :: nat) \<ge> 0x80" "chars_wf (drop v cs)"
      using "2.prems"(1) w by (simp_all add: chars_wf.simps [of "c # cs"])
    then obtain k where k: "service_bounded_from (n + ?w) (drop v cs) = map single_line (take k (drop v cs))"
      "k \<le> length (drop v cs)" "n + ?w + k \<le> 512" "chars_wf (drop k (drop v cs))"
      "k < length (drop v cs) \<longrightarrow> 508 < n + ?w + k"
      using "2.IH" False w by auto
    have tl: "map single_line (take v cs) = take v cs"
      using wf(2) by (intro map_idI single_line_high) blast
    have "service_bounded_from n (c # cs) = single_line c # take v cs @ map single_line (take k (drop v cs))"
      using False k(1) w by (simp add: single_line_def)
    also have "\<dots> = map single_line (take (?w + k) (c # cs))"
      unfolding w using tl by (simp add: take_add)
    finally show ?thesis
      using k w wf(1) by (intro exI [of _ "?w + k"]) (auto simp: add.commute)
  qed
qed (simp add: chars_wf.simps)

lemma map_single_line_clean: "set (map single_line s) \<inter> {CHR 0x0D, CHR 0x0A} = {}"
  by (auto simp: single_line_def)

section \<open>Properties\<close>

text \<open>
  C24. What the user interface is told of a provider error: a cancelled operation is always reported as
  \<open>job.cancelled\<close>; every other error keeps its code, its stage and whether it can be retried, the numbers
  of its coordinate are read back exactly, and its detail is the longest prefix of whole characters that
  fits in 512 bytes, up to three bytes, on a single line.
\<close>

theorem provider_error_reported:
  assumes "chars_wf (error_detail e)" and "a = from_provider_error e"
  shows "if pe_code e = ''control.cancelled'' then a = app_cancelled
    else ae_code a = pe_code e \<and> ae_stage a = pe_stage e \<and> ae_retryable a = pe_retryable e \<and>
      map_option (\<lambda>s. (decimal_u64_value (scd_offset s), map_option decimal_u64_value (scd_record_ordinal s)))
        (ae_source a) = map_option (\<lambda>s. (sc_offset s, sc_record_ordinal s)) (pe_source e) \<and>
      (\<exists>k \<le> length (error_detail e). ae_detail a = map single_line (take k (error_detail e)) \<and> k \<le> 512 \<and>
         chars_wf (drop k (error_detail e)) \<and> (k < length (error_detail e) \<longrightarrow> 508 < k) \<and>
         set (ae_detail a) \<inter> {CHR 0x0D, CHR 0x0A} = {})"
proof -
  have num: "decimal_u64_value (decimal_u64_new v) = v" for v
    by (simp add: decimal_u64_value_def decimal_u64_new_def)
  have "map_option (\<lambda>s. (decimal_u64_value (decimal_u64_new (sc_offset s)),
      map_option decimal_u64_value (map_option decimal_u64_new (sc_record_ordinal s)))) (pe_source e) =
    map_option (\<lambda>s. (sc_offset s, sc_record_ordinal s)) (pe_source e)"
    by (simp add: num option.map_comp comp_def option.map_ident)
  then show ?thesis
    using bounded_from_prefix [OF assms(1), of 0] map_single_line_clean
    by (auto simp: assms(2) from_provider_error_def service_bounded_def option.map_comp comp_def num option.map_ident)
qed

theorem provider_error_reported_witness:
  "chars_wf (error_detail stream_not_drained) \<and>
   ae_code (from_provider_error stream_not_drained) = ''source.stream_not_drained''"
proof -
  have "chars_wf (error_detail stream_not_drained)" by code_simp
  moreover from provider_error_reported [OF this refl]
  have "ae_code (from_provider_error stream_not_drained) = ''source.stream_not_drained''"
    by (simp add: stream_not_drained_def)
  ultimately show ?thesis by blast
qed

end
