(* ===== verification/Service_Jobs.thy ===== *)
theory Service_Jobs
  imports Service_Error
begin

text \<open>
  The registry of background jobs (\<open>qtrace-service/src/jobs.rs\<close>). The jobs are a hash map from ids to
  entries: an association list with distinct keys, whose order stands for the unspecified iteration
  order of the map. A cancellation token is a shared flag, named by a number; the registry's state
  holds the flags as well, since its operations set and read them. What an operation does under the lock
  of the registry is one step; \<open>begin\<close> and \<open>record_completed\<close> take the lock several times, so histories
  contain their parts as steps of their own, too.
\<close>

section \<open>Jobs\<close>

type_synonym job_id = string
type_synonym workspace_id = string

definition job_stale :: app_error where
  "job_stale = app_error_new ''job.stale'' ''job'' ''job not found''"

datatype job_state = Queued | Running | Completed | JobCancelled | Failed

datatype open_stage =
    StageVerifySource | StageOpenCache | StageBuildIndex | StagePublishCache | StageReopenCache
  | StagePrepareAnalysis | StagePublishWorkspace

record job_progress_detail =
  jpd_stage :: open_stage
  jpd_artifact :: "string option"
  jpd_processed_bytes :: string
  jpd_processed_events :: string
  jpd_processed_rows :: string

record job_progress =
  jp_completed :: string
  jp_total :: "string option"
  jp_detail :: "job_progress_detail option"

record job_dto =
  jd_id :: job_id
  jd_workspace_id :: workspace_id
  jd_kind :: string
  jd_state :: job_state
  jd_progress :: job_progress
  jd_error :: "app_error option"

record job_entry =
  je_dto :: job_dto
  je_cancel :: nat

type_synonym job_map = "(job_id \<times> job_entry) list"

record job_registry =
  jr_next :: u64
  jr_jobs :: job_map
  jr_flags :: "nat \<Rightarrow> bool"
  jr_fresh :: nat

definition registry_default :: job_registry where
  "registry_default = \<lparr>jr_next = 0, jr_jobs = [], jr_flags = (\<lambda>_. False), jr_fresh = 0\<rparr>"

section \<open>Hash-map operations\<close>

definition job_insert :: "job_id \<Rightarrow> job_entry \<Rightarrow> job_map \<Rightarrow> job_map" where
  "job_insert jid e jobs = (jid, e) # filter (\<lambda>p. fst p \<noteq> jid) jobs"

definition job_remove :: "job_id \<Rightarrow> job_map \<Rightarrow> job_map" where
  "job_remove jid jobs = filter (\<lambda>p. fst p \<noteq> jid) jobs"

definition job_update :: "job_id \<Rightarrow> (job_entry \<Rightarrow> job_entry) \<Rightarrow> job_map \<Rightarrow> job_map" where
  "job_update jid f jobs = map (\<lambda>p. if fst p = jid then (fst p, f (snd p)) else p) jobs"

text \<open>\<open>Iterator::min_by_key\<close>: the first of the least elements.\<close>

fun min_by_key :: "('a \<Rightarrow> 'k::linorder) \<Rightarrow> 'a list \<Rightarrow> 'a option" where
  "min_by_key key [] = None"
| "min_by_key key (x # xs) = (case min_by_key key xs of
     None \<Rightarrow> Some x | Some y \<Rightarrow> if key y < key x then Some y else Some x)"

section \<open>Operations\<close>

definition job_active :: "job_entry \<Rightarrow> bool" where
  "job_active e \<longleftrightarrow> jd_state (je_dto e) = Queued \<or> jd_state (je_dto e) = Running"

definition job_terminal :: "job_entry \<Rightarrow> bool" where
  "job_terminal e \<longleftrightarrow> jd_state (je_dto e) \<in> {Completed, JobCancelled, Failed}"

definition job_key :: "job_id \<Rightarrow> u64" where
  "job_key jid = (case parse_u64 jid of Some v \<Rightarrow> v | None \<Rightarrow> - 1)"

definition MAX_ACTIVE :: nat where "MAX_ACTIVE = 8"
definition MAX_RETAINED :: nat where "MAX_RETAINED = 512"

definition too_many_jobs :: app_error where
  "too_many_jobs = app_error_new ''control.too_many_jobs'' ''control''
     ''at most 8 open/projection jobs may run concurrently''"

definition registry_full :: app_error where
  "registry_full = app_error_new ''control.too_many_jobs'' ''control'' ''job registry is full''"

definition oldest_inactive :: "job_map \<Rightarrow> job_id option" where
  "oldest_inactive jobs = map_option fst (min_by_key (job_key \<circ> fst) (filter (\<lambda>p. \<not> job_active (snd p)) jobs))"

lemma min_by_key_in: "min_by_key key xs = Some x \<Longrightarrow> x \<in> set xs"
  by (induction xs arbitrary: x) (auto split: option.splits if_splits)

lemma min_by_key_None [simp]: "min_by_key key xs = None \<longleftrightarrow> xs = []"
  by (cases xs) (auto split: option.split)

lemma min_by_key_least: "min_by_key key xs = Some x \<Longrightarrow> y \<in> set xs \<Longrightarrow> key x \<le> key y"
  by (induction xs arbitrary: x) (force split: option.splits if_splits)+

lemma oldest_inactive_in: "oldest_inactive jobs = Some jid \<Longrightarrow> \<exists>e. (jid, e) \<in> set jobs \<and> \<not> job_active e"
  by (auto simp: oldest_inactive_def dest!: min_by_key_in)

lemma length_job_remove: "jid \<in> fst ` set jobs \<Longrightarrow> length (job_remove jid jobs) < length jobs"
  unfolding job_remove_def by (auto intro: length_filter_less)

text \<open>\<open>while jobs.len() >= MAX_RETAINED\<close>.\<close>

function trim_retained :: "job_map \<Rightarrow> app_error option \<times> job_map" where
  "trim_retained jobs =
     (if length jobs \<ge> MAX_RETAINED then
        (case oldest_inactive jobs of
           None \<Rightarrow> (Some registry_full, jobs)
         | Some oldest \<Rightarrow> trim_retained (job_remove oldest jobs))
      else (None, jobs))"
  by pat_completeness auto
termination
  by (relation "measure length") (auto dest!: oldest_inactive_in intro!: length_job_remove simp: rev_image_eqI)

declare trim_retained.simps [simp del]

definition job_new :: "workspace_id \<Rightarrow> string \<Rightarrow> job_state \<Rightarrow> job_id \<Rightarrow> nat \<Rightarrow> job_entry" where
  "job_new workspace kind state jid cancel =
     \<lparr>je_dto = \<lparr>jd_id = jid, jd_workspace_id = workspace, jd_kind = kind, jd_state = state,
        jd_progress = \<lparr>jp_completed = decimal_u64_new 0, jp_total = None, jp_detail = None\<rparr>, jd_error = None\<rparr>,
      je_cancel = cancel\<rparr>"

text \<open>\<open>next.fetch_add(1) + 1\<close>, a new token, and the insertion of the entry.\<close>

definition register_job :: "workspace_id \<Rightarrow> string \<Rightarrow> job_state \<Rightarrow> job_registry \<Rightarrow> (job_id \<times> nat) \<times> job_registry" where
  "register_job workspace kind state r =
     (let jid = id_from_u64 (jr_next r + 1); cancel = jr_fresh r in
      ((jid, cancel), r\<lparr>jr_next := jr_next r + 1, jr_fresh := Suc cancel, jr_flags := (jr_flags r)(cancel := False),
         jr_jobs := job_insert jid (job_new workspace kind state jid cancel) (jr_jobs r)\<rparr>))"

definition begin_bounded ::
  "workspace_id \<Rightarrow> string \<Rightarrow> job_registry \<Rightarrow> (app_error + job_id \<times> nat) \<times> job_registry" where
  "begin_bounded workspace kind r =
     (if length (filter (\<lambda>p. job_active (snd p)) (jr_jobs r)) \<ge> MAX_ACTIVE then (Inl too_many_jobs, r)
      else case trim_retained (jr_jobs r) of
        (Some e, jobs) \<Rightarrow> (Inl e, r\<lparr>jr_jobs := jobs\<rparr>)
      | (None, jobs) \<Rightarrow> (case register_job workspace kind Running (r\<lparr>jr_jobs := jobs\<rparr>) of (x, r') \<Rightarrow> (Inr x, r')))"

definition set_job_state :: "job_id \<Rightarrow> job_state \<Rightarrow> app_error option \<Rightarrow> job_registry \<Rightarrow> job_registry" where
  "set_job_state jid state error r = r\<lparr>jr_jobs := job_update jid (\<lambda>e.
     let dto = (je_dto e)\<lparr>jd_state := state\<rparr>;
         dto = (if state = Completed then
             let bound = (case jp_total (jd_progress dto) of Some t \<Rightarrow> t | None \<Rightarrow> decimal_u64_new 1)
             in dto\<lparr>jd_progress := (jd_progress dto)\<lparr>jp_completed := bound, jp_total := Some bound\<rparr>\<rparr>
           else dto)
     in e\<lparr>je_dto := dto\<lparr>jd_error := error\<rparr>\<rparr>) (jr_jobs r)\<rparr>"

definition begin_job :: "workspace_id \<Rightarrow> string \<Rightarrow> job_registry \<Rightarrow> (job_id \<times> nat) \<times> job_registry" where
  "begin_job workspace kind r = (case register_job workspace kind Queued r of
     ((jid, cancel), r') \<Rightarrow> ((jid, cancel), set_job_state jid Running None r'))"

definition job_outcome :: "app_error + unit \<Rightarrow> bool \<Rightarrow> job_state \<times> app_error option" where
  "job_outcome result cancelled = (case result of
       Inr _ \<Rightarrow> if cancelled then (JobCancelled, None) else (Completed, None)
     | Inl e \<Rightarrow> if ae_code e = ''job.cancelled'' then (JobCancelled, Some e) else (Failed, Some e))"

definition finish_job :: "job_id \<Rightarrow> app_error + unit \<Rightarrow> bool \<Rightarrow> job_registry \<Rightarrow> job_registry" where
  "finish_job jid result cancelled r =
     (case job_outcome result cancelled of (state, error) \<Rightarrow> set_job_state jid state error r)"

definition record_completed :: "workspace_id \<Rightarrow> string \<Rightarrow> job_registry \<Rightarrow> job_id \<times> job_registry" where
  "record_completed workspace kind r = (case begin_job workspace kind r of
     ((jid, cancel), r') \<Rightarrow> (jid, finish_job jid (Inr ()) (jr_flags r' cancel) r'))"

text \<open>
  \<open>spawn\<close> registers the job as queued; the runtime later starts the task and, when it has ended,
  records how: with a result of its own, or because it panicked.
\<close>

definition spawn_job :: "workspace_id \<Rightarrow> string \<Rightarrow> job_registry \<Rightarrow> job_id \<times> job_registry" where
  "spawn_job workspace kind r = (case register_job workspace kind Queued r of ((jid, cancel), r') \<Rightarrow> (jid, r'))"

definition task_started :: "job_id \<Rightarrow> job_registry \<Rightarrow> job_registry" where
  "task_started jid r = set_job_state jid Running None r"

definition task_ended :: "job_id \<Rightarrow> nat \<Rightarrow> (app_error + unit) option \<Rightarrow> job_registry \<Rightarrow> job_registry" where
  "task_ended jid cancel joined r = (case joined of
       Some result \<Rightarrow> finish_job jid result (jr_flags r cancel) r
     | None \<Rightarrow> set_job_state jid Failed (Some worker_failed) r)"

definition cancel_tokens :: "(job_entry \<Rightarrow> bool) \<Rightarrow> job_registry \<Rightarrow> job_registry" where
  "cancel_tokens chosen r = r\<lparr>jr_flags := (\<lambda>c. jr_flags r c \<or> (\<exists>p \<in> set (jr_jobs r). chosen (snd p) \<and> je_cancel (snd p) = c))\<rparr>"

definition cancel_workspace :: "workspace_id \<Rightarrow> job_registry \<Rightarrow> job_registry" where
  "cancel_workspace w r = cancel_tokens (\<lambda>e. jd_workspace_id (je_dto e) = w) r"

definition cancel_all :: "job_registry \<Rightarrow> job_registry" where
  "cancel_all r = cancel_tokens (\<lambda>e. True) r"

definition remove_workspace :: "workspace_id \<Rightarrow> job_registry \<Rightarrow> job_registry" where
  "remove_workspace w r = r\<lparr>jr_jobs := filter (\<lambda>p. jd_workspace_id (je_dto (snd p)) \<noteq> w) (jr_jobs r)\<rparr>"

definition prune_jobs :: "(job_entry \<Rightarrow> bool) \<Rightarrow> nat \<Rightarrow> job_registry \<Rightarrow> job_registry" where
  "prune_jobs chosen keep r =
     (let finals = sort_key job_key (map fst (filter (\<lambda>p. chosen (snd p)) (jr_jobs r)));
          count = length finals - keep
      in r\<lparr>jr_jobs := fold job_remove (take count finals) (jr_jobs r)\<rparr>)"

definition prune_workspace :: "workspace_id \<Rightarrow> nat \<Rightarrow> job_registry \<Rightarrow> job_registry" where
  "prune_workspace w keep r = prune_jobs (\<lambda>e. jd_workspace_id (je_dto e) = w \<and> job_terminal e) keep r"

definition prune_terminal :: "nat \<Rightarrow> job_registry \<Rightarrow> job_registry" where
  "prune_terminal keep r = prune_jobs job_terminal keep r"

definition get_job :: "job_id \<Rightarrow> job_registry \<Rightarrow> job_dto option" where
  "get_job jid r = map_option je_dto (map_of (jr_jobs r) jid)"

definition list_jobs :: "job_registry \<Rightarrow> job_dto list" where
  "list_jobs r = map (je_dto \<circ> snd) (jr_jobs r)"

definition cancel_job :: "job_id \<Rightarrow> job_registry \<Rightarrow> (app_error + unit) \<times> job_registry" where
  "cancel_job jid r = (case map_of (jr_jobs r) jid of
       None \<Rightarrow> (Inl job_stale, r)
     | Some e \<Rightarrow> (Inr (), r\<lparr>jr_flags := (jr_flags r)(je_cancel e := True)\<rparr>))"

definition set_progress :: "job_id \<Rightarrow> u64 \<Rightarrow> u64 option \<Rightarrow> job_registry \<Rightarrow> (app_error + unit) \<times> job_registry" where
  "set_progress jid completed bound r = (case map_of (jr_jobs r) jid of
       None \<Rightarrow> (Inl job_stale, r)
     | Some e \<Rightarrow>
         (let bounded = (case bound of None \<Rightarrow> completed | Some v \<Rightarrow> min completed v) in
          (Inr (), r\<lparr>jr_jobs := job_update jid (\<lambda>e. e\<lparr>je_dto := (je_dto e)\<lparr>jd_progress := (jd_progress (je_dto e))
             \<lparr>jp_completed := decimal_u64_new bounded, jp_total := map_option decimal_u64_new bound\<rparr>\<rparr>\<rparr>) (jr_jobs r)\<rparr>)))"

definition set_open_progress :: "job_id \<Rightarrow> job_progress_detail \<Rightarrow> job_registry \<Rightarrow> job_registry" where
  "set_open_progress jid detail r = r\<lparr>jr_jobs := job_update jid (\<lambda>e. if job_active e
     then e\<lparr>je_dto := (je_dto e)\<lparr>jd_progress := (jd_progress (je_dto e))\<lparr>jp_detail := Some detail\<rparr>\<rparr>\<rparr> else e) (jr_jobs r)\<rparr>"

text \<open>One round of \<open>wait\<close>: done, not done yet, or the job is gone.\<close>

definition wait_poll :: "job_id \<Rightarrow> job_registry \<Rightarrow> app_error + bool" where
  "wait_poll jid r = (case get_job jid r of
     None \<Rightarrow> Inl job_stale | Some dto \<Rightarrow> Inr (jd_state dto \<in> {Completed, JobCancelled, Failed}))"

section \<open>Histories\<close>

text \<open>
  A step is one operation of some caller or of the runtime, or the part of one that runs under the lock. The counter of ids is 64 bits wide; a
  registry is only described before \<open>2^64 - 1\<close> jobs have been registered.
\<close>

inductive job_step :: "job_registry \<Rightarrow> job_registry \<Rightarrow> bool" where
  step_begin_bounded: "jr_next r < - 1 \<Longrightarrow> begin_bounded w kind r = (x, r') \<Longrightarrow> job_step r r'"
| step_begin: "jr_next r < - 1 \<Longrightarrow> begin_job w kind r = (y, r') \<Longrightarrow> job_step r r'"
| step_record: "jr_next r < - 1 \<Longrightarrow> record_completed w kind r = (jid, r') \<Longrightarrow> job_step r r'"
| step_spawn: "jr_next r < - 1 \<Longrightarrow> spawn_job w kind r = (jid, r') \<Longrightarrow> job_step r r'"
| step_register: "jr_next r < - 1 \<Longrightarrow> register_job w kind state r = (y, r') \<Longrightarrow> job_step r r'"
| step_state: "job_step r (set_job_state jid state error r)"
| step_started: "job_step r (task_started jid r)"
| step_ended: "job_step r (task_ended jid cancel joined r)"
| step_finish: "job_step r (finish_job jid result cancelled r)"
| step_cancel_workspace: "job_step r (cancel_workspace w r)"
| step_cancel_all: "job_step r (cancel_all r)"
| step_remove_workspace: "job_step r (remove_workspace w r)"
| step_prune_workspace: "job_step r (prune_workspace w keep r)"
| step_prune_terminal: "job_step r (prune_terminal keep r)"
| step_cancel: "cancel_job jid r = (u, r') \<Longrightarrow> job_step r r'"
| step_progress: "set_progress jid completed bound r = (u, r') \<Longrightarrow> job_step r r'"
| step_open_progress: "job_step r (set_open_progress jid detail r)"

inductive job_history :: "job_registry \<Rightarrow> bool" where
  history_start: "job_history registry_default"
| history_step: "job_history r \<Longrightarrow> job_step r r' \<Longrightarrow> job_history r'"

text \<open>What every registry satisfies.\<close>

definition progress_wf :: "job_progress \<Rightarrow> bool" where
  "progress_wf p \<longleftrightarrow> (\<exists>c. jp_completed p = decimal_u64_new c \<and>
     (case jp_total p of None \<Rightarrow> True | Some t \<Rightarrow> \<exists>b. t = decimal_u64_new b \<and> c \<le> b))"

definition entry_wf :: "u64 \<Rightarrow> nat \<Rightarrow> job_id \<times> job_entry \<Rightarrow> bool" where
  "entry_wf next fresh p \<longleftrightarrow> (\<exists>v. fst p = id_from_u64 v \<and> v \<le> next) \<and> jd_id (je_dto (snd p)) = fst p \<and>
     je_cancel (snd p) < fresh \<and> progress_wf (jd_progress (je_dto (snd p)))"

definition registry_wf :: "job_registry \<Rightarrow> bool" where
  "registry_wf r \<longleftrightarrow> distinct (map fst (jr_jobs r)) \<and> inj_on (je_cancel \<circ> snd) (set (jr_jobs r)) \<and>
     (\<forall>p \<in> set (jr_jobs r). entry_wf (jr_next r) (jr_fresh r) p)"

section \<open>The invariant\<close>

lemma wf_filter: "registry_wf r \<Longrightarrow> registry_wf (r\<lparr>jr_jobs := filter P (jr_jobs r)\<rparr>)"
  by (auto simp: registry_wf_def distinct_map_filter intro: inj_on_subset)

lemma wf_flags: "registry_wf (r\<lparr>jr_flags := f\<rparr>) = registry_wf r"
  by (simp add: registry_wf_def)

lemma keys_job_update [simp]: "map fst (job_update jid f jobs) = map fst jobs"
  by (simp add: job_update_def case_prod_unfold comp_def if_distrib cong: if_cong)

lemma wf_update:
  assumes "registry_wf r"
    and "\<And>e. je_cancel (f e) = je_cancel e" and "\<And>e. jd_id (je_dto (f e)) = jd_id (je_dto e)"
    and "\<And>e. progress_wf (jd_progress (je_dto e)) \<Longrightarrow> progress_wf (jd_progress (je_dto (f e)))"
  shows "registry_wf (r\<lparr>jr_jobs := job_update jid f (jr_jobs r)\<rparr>)"
proof -
  let ?u = "\<lambda>p. if fst p = jid then (fst p, f (snd p)) else p"
  have set: "set (job_update jid f (jr_jobs r)) = ?u ` set (jr_jobs r)" by (simp add: job_update_def)
  have "(je_cancel \<circ> snd) \<circ> ?u = je_cancel \<circ> snd" by (auto simp: fun_eq_iff assms(2))
  then have "inj_on (je_cancel \<circ> snd) (?u ` set (jr_jobs r))"
    using assms(1) by (intro inj_on_imageI) (simp add: registry_wf_def)
  moreover have "entry_wf n k (?u p)" if "entry_wf n k p" for n k p
    using that assms(2-4) by (auto simp: entry_wf_def)
  then have "\<forall>p \<in> ?u ` set (jr_jobs r). entry_wf (jr_next r) (jr_fresh r) p"
    using assms(1) unfolding registry_wf_def by blast
  moreover have "distinct (map fst (job_update jid f (jr_jobs r)))"
    using assms(1) by (simp add: registry_wf_def)
  ultimately show ?thesis
    unfolding set [symmetric] by (simp add: registry_wf_def)
qed

lemma progress_wf_full: "progress_wf (p\<lparr>jp_completed := decimal_u64_new b, jp_total := Some (decimal_u64_new b)\<rparr>)"
  by (auto simp: progress_wf_def)

lemma progress_wf_open: "progress_wf (p\<lparr>jp_completed := decimal_u64_new c, jp_total := None\<rparr>)"
  by (auto simp: progress_wf_def)

lemma progress_wf_min: "progress_wf (p\<lparr>jp_completed := decimal_u64_new (min c v), jp_total := Some (decimal_u64_new v)\<rparr>)"
  unfolding progress_wf_def by (rule exI [of _ "min c v"]) (auto intro!: exI [of _ v])

lemma progress_total: "progress_wf p \<Longrightarrow> jp_total p = Some t \<Longrightarrow> \<exists>b. t = decimal_u64_new b"
  by (auto simp: progress_wf_def)

lemma wf_set_job_state: "registry_wf r \<Longrightarrow> registry_wf (set_job_state jid state error r)"
  unfolding set_job_state_def
  by (rule wf_update) (auto simp: Let_def split: option.splits intro: progress_wf_full dest: progress_total)

lemma fold_job_remove: "fold job_remove xs jobs = filter (\<lambda>p. fst p \<notin> set xs) jobs"
  by (induction xs arbitrary: jobs) (auto simp: job_remove_def intro!: filter_cong)

text \<open>A new id is larger than every id in use, so registering never replaces a job.\<close>

lemma fresh_job:
  assumes "registry_wf r" and "jr_next r < - 1"
  shows "id_from_u64 (jr_next r + 1) \<notin> fst ` set (jr_jobs r)" and "jr_next r < jr_next r + 1"
proof -
  show lt: "jr_next r < jr_next r + 1"
  proof -
    have "unat (- 1 :: u64) = 2 ^ 64 - 1"
      by (simp add: unsigned_minus_1_eq_mask mask_eq_exp_minus_1)
    then have "unat (jr_next r) < 2 ^ 64 - 1" using assms(2) by (simp add: word_less_nat_alt)
    then show ?thesis by (simp add: word_less_nat_alt unat_word_ariths)
  qed
  show "id_from_u64 (jr_next r + 1) \<notin> fst ` set (jr_jobs r)"
  proof
    assume "id_from_u64 (jr_next r + 1) \<in> fst ` set (jr_jobs r)"
    then obtain p where "p \<in> set (jr_jobs r)" and "fst p = id_from_u64 (jr_next r + 1)" by auto
    then have "jr_next r + 1 \<le> jr_next r"
      using assms(1) by (auto simp: registry_wf_def entry_wf_def)
    then show False using lt by simp
  qed
qed

lemma register_job_jobs:
  assumes "registry_wf r" and "jr_next r < - 1" and "register_job w kind state r = ((jid, cancel), r')"
  shows "jr_jobs r' = (jid, job_new w kind state jid cancel) # jr_jobs r" and "jid \<notin> fst ` set (jr_jobs r)"
    and "\<not> jr_flags r' cancel" and "registry_wf r'"
proof -
  have r': "jid = id_from_u64 (jr_next r + 1)" "cancel = jr_fresh r"
    "r' = r\<lparr>jr_next := jr_next r + 1, jr_fresh := Suc cancel, jr_flags := (jr_flags r)(cancel := False),
      jr_jobs := job_insert jid (job_new w kind state jid cancel) (jr_jobs r)\<rparr>"
    using assms(3) by (auto simp: register_job_def Let_def)
  show new: "jid \<notin> fst ` set (jr_jobs r)" using fresh_job(1) [OF assms(1,2)] r'(1) by simp
  then have "filter (\<lambda>p. fst p \<noteq> jid) (jr_jobs r) = jr_jobs r" by (auto intro!: filter_True)
  then show jobs: "jr_jobs r' = (jid, job_new w kind state jid cancel) # jr_jobs r"
    by (simp add: r'(3) job_insert_def)
  show "\<not> jr_flags r' cancel" by (simp add: r'(3))
  have old: "entry_wf (jr_next r + 1) (Suc (jr_fresh r)) p" "je_cancel (snd p) \<noteq> jr_fresh r" if "p \<in> set (jr_jobs r)" for p
    using that assms(1) fresh_job(2) [OF assms(1,2)]
    by (auto simp: registry_wf_def entry_wf_def intro: order_trans less_imp_le less_SucI)
  have "entry_wf (jr_next r + 1) (Suc (jr_fresh r)) (jid, job_new w kind state jid cancel)"
    by (auto simp: entry_wf_def job_new_def r'(1,2) progress_wf_def)
  moreover have "jr_next r' = jr_next r + 1" "jr_fresh r' = Suc (jr_fresh r)" by (simp_all add: r'(2,3))
  moreover have "je_cancel (job_new w kind state jid cancel) = jr_fresh r" by (simp add: job_new_def r'(2))
  moreover have "inj_on (je_cancel \<circ> snd) (set (jr_jobs r'))"
  proof -
    have "jr_fresh r \<notin> (je_cancel \<circ> snd) ` set (jr_jobs r)" using old(2) by fastforce
    then show ?thesis
      using assms(1) by (auto simp: jobs job_new_def r'(2) registry_wf_def)
  qed
  ultimately show "registry_wf r'"
    using assms(1) old(1) new unfolding registry_wf_def jobs by auto
qed

lemma wf_register_job:
  "registry_wf r \<Longrightarrow> jr_next r < - 1 \<Longrightarrow> register_job w kind state r = (y, r') \<Longrightarrow> registry_wf r'"
  using register_job_jobs(4) by (cases y) simp

lemma wf_begin_job:
  assumes "registry_wf r" and "jr_next r < - 1" and "begin_job w kind r = (y, r')"
  shows "registry_wf r'"
proof -
  obtain jid cancel r1 where "register_job w kind Queued r = ((jid, cancel), r1)" and "r' = set_job_state jid Running None r1"
    using assms(3) by (auto simp: begin_job_def split: prod.splits)
  then show ?thesis using register_job_jobs(4) [OF assms(1,2)] wf_set_job_state by blast
qed

lemma wf_finish: "registry_wf r \<Longrightarrow> registry_wf (finish_job jid result cancelled r)"
  by (auto simp: finish_job_def split: prod.split intro: wf_set_job_state)

section \<open>Retention\<close>

lemma filter_active_remove:
  assumes "distinct (map fst jobs)" and "(jid, e) \<in> set jobs" and "\<not> job_active e"
  shows "filter (\<lambda>p. job_active (snd p)) (job_remove jid jobs) = filter (\<lambda>p. job_active (snd p)) jobs"
  unfolding job_remove_def filter_filter
  by (rule filter_cong) (use assms in \<open>auto dest: eq_key_imp_eq_value\<close>)

definition active_count :: "job_map \<Rightarrow> nat" where
  "active_count jobs = length (filter (\<lambda>p. job_active (snd p)) jobs)"

definition trimmed :: "job_map \<Rightarrow> job_map \<Rightarrow> bool" where
  "trimmed jobs jobs' \<longleftrightarrow> (\<exists>P. jobs' = filter P jobs) \<and> length jobs' < MAX_RETAINED \<and> active_count jobs' = active_count jobs \<and>
     (\<forall>p \<in> set jobs - set jobs'. \<not> job_active (snd p) \<and> MAX_RETAINED \<le> length jobs \<and>
        (\<forall>q \<in> set jobs'. \<not> job_active (snd q) \<longrightarrow> job_key (fst p) \<le> job_key (fst q)))"

lemma oldest_exists:
  assumes "MAX_RETAINED \<le> length jobs" and "active_count jobs < MAX_ACTIVE"
  obtains jid e where "oldest_inactive jobs = Some jid" and "(jid, e) \<in> set jobs" and "\<not> job_active e"
    and "\<forall>q \<in> set jobs. \<not> job_active (snd q) \<longrightarrow> job_key jid \<le> job_key (fst q)"
proof -
  have "filter (\<lambda>p. \<not> job_active (snd p)) jobs \<noteq> []"
  proof
    assume "filter (\<lambda>p. \<not> job_active (snd p)) jobs = []"
    then have "filter (\<lambda>p. job_active (snd p)) jobs = jobs" by (auto simp: filter_empty_conv intro!: filter_True)
    then show False using assms by (simp add: active_count_def MAX_RETAINED_def MAX_ACTIVE_def)
  qed
  then obtain p where p: "min_by_key (job_key \<circ> fst) (filter (\<lambda>p. \<not> job_active (snd p)) jobs) = Some p"
    by (meson min_by_key_None not_None_eq)
  then show thesis
    using that [of "fst p" "snd p"] min_by_key_in [OF p] min_by_key_least [OF p]
    by (auto simp: oldest_inactive_def)
qed

lemma trim_retained_ok:
  assumes "distinct (map fst jobs)" and "active_count jobs < MAX_ACTIVE"
  shows "\<exists>jobs'. trim_retained jobs = (None, jobs') \<and> trimmed jobs jobs'"
  using assms
proof (induction jobs rule: trim_retained.induct)
  case (1 jobs)
  show ?case
  proof (cases "MAX_RETAINED \<le> length jobs")
    case False
    then show ?thesis
      by (intro exI [of _ jobs]) (auto simp: trim_retained.simps [of jobs] trimmed_def intro!: exI [of _ "\<lambda>_. True"])
  next
    case True
    obtain jid e where o: "oldest_inactive jobs = Some jid" "(jid, e) \<in> set jobs" "\<not> job_active e"
      "\<forall>q \<in> set jobs. \<not> job_active (snd q) \<longrightarrow> job_key jid \<le> job_key (fst q)"
      by (rule oldest_exists [OF True "1.prems"(2)])
    let ?j = "job_remove jid jobs"
    have a: "active_count ?j = active_count jobs"
      using filter_active_remove [OF "1.prems"(1) o(2,3)] by (simp add: active_count_def)
    obtain jobs' where t: "trim_retained ?j = (None, jobs')" "trimmed ?j jobs'"
      using "1.IH" [OF True o(1)] "1.prems" a by (auto simp: job_remove_def distinct_map_filter)
    have "\<not> job_active (snd p) \<and> (\<forall>q \<in> set jobs'. \<not> job_active (snd q) \<longrightarrow> job_key (fst p) \<le> job_key (fst q))"
      if "p \<in> set jobs - set jobs'" for p
    proof (cases "fst p = jid")
      case True
      then have "snd p = e" using that o(2) "1.prems"(1) by (metis DiffE eq_key_imp_eq_value prod.collapse)
      moreover have "set jobs' \<subseteq> set jobs" using t(2) by (auto simp: trimmed_def job_remove_def)
      ultimately show ?thesis using o(3,4) True by auto
    next
      case False
      then have "p \<in> set ?j - set jobs'" using that by (simp add: job_remove_def)
      then show ?thesis using t(2) by (simp add: trimmed_def)
    qed
    then have "trimmed jobs jobs'"
      using t(2) a True unfolding trimmed_def job_remove_def by (auto simp: filter_filter)
    then show ?thesis
      using t(1) True o(1) by (intro exI [of _ jobs']) (simp add: trim_retained.simps [of jobs])
  qed
qed

lemma begin_bounded_cases:
  assumes "registry_wf r" and "jr_next r < - 1" and "begin_bounded w kind r = (x, r')"
  obtains "MAX_ACTIVE \<le> active_count (jr_jobs r)" and "x = Inl too_many_jobs" and "r' = r"
  | jid cancel jobs where "active_count (jr_jobs r) < MAX_ACTIVE" and "trimmed (jr_jobs r) jobs" and "x = Inr (jid, cancel)"
    and "registry_wf (r\<lparr>jr_jobs := jobs\<rparr>)"
    and "register_job w kind Running (r\<lparr>jr_jobs := jobs\<rparr>) = ((jid, cancel), r')"
proof (cases "MAX_ACTIVE \<le> active_count (jr_jobs r)")
  case True
  then show thesis using that(1) assms(3) by (simp add: begin_bounded_def active_count_def)
next
  case False
  obtain jobs where t: "trim_retained (jr_jobs r) = (None, jobs)" "trimmed (jr_jobs r) jobs"
    using trim_retained_ok [of "jr_jobs r"] False assms(1) by (auto simp: registry_wf_def)
  moreover have "registry_wf (r\<lparr>jr_jobs := jobs\<rparr>)"
    using t(2) wf_filter [OF assms(1)] by (auto simp: trimmed_def)
  ultimately show thesis
    using that(2) False assms(3) by (auto simp: begin_bounded_def active_count_def split: prod.splits)
qed

lemma wf_begin_bounded:
  assumes "registry_wf r" and "jr_next r < - 1" and "begin_bounded w kind r = (x, r')"
  shows "registry_wf r'"
  by (rule begin_bounded_cases [OF assms]) (use assms register_job_jobs(4) in auto)

lemma wf_set_progress:
  assumes "registry_wf r" and "set_progress jid completed limit r = (u, r')"
  shows "registry_wf r'"
proof (cases "map_of (jr_jobs r) jid")
  case None
  then show ?thesis using assms by (simp add: set_progress_def)
next
  case (Some e)
  then have "r' = r\<lparr>jr_jobs := job_update jid (\<lambda>e. e\<lparr>je_dto := (je_dto e)\<lparr>jd_progress := (jd_progress (je_dto e))
      \<lparr>jp_completed := decimal_u64_new (case limit of None \<Rightarrow> completed | Some v \<Rightarrow> min completed v),
       jp_total := map_option decimal_u64_new limit\<rparr>\<rparr>\<rparr>) (jr_jobs r)\<rparr>"
    using assms(2) by (simp add: set_progress_def Let_def)
  then show ?thesis
    using wf_update [OF assms(1)] by (simp add: progress_wf_open progress_wf_min split: option.split)
qed

lemma wf_open_progress: "registry_wf r \<Longrightarrow> registry_wf (set_open_progress jid detail r)"
  unfolding set_open_progress_def by (rule wf_update) (simp_all add: progress_wf_def)

lemma wf_task_ended: "registry_wf r \<Longrightarrow> registry_wf (task_ended jid cancel joined r)"
  by (cases joined) (simp_all add: task_ended_def wf_finish wf_set_job_state)

lemma wf_record_completed:
  assumes "registry_wf r" and "jr_next r < - 1" and "record_completed w kind r = (jid, r')"
  shows "registry_wf r'"
proof -
  obtain c r1 where "begin_job w kind r = ((jid, c), r1)" and "r' = finish_job jid (Inr ()) (jr_flags r1 c) r1"
    using assms(3) by (auto simp: record_completed_def split: prod.splits)
  then show ?thesis using wf_begin_job [OF assms(1,2)] wf_finish by blast
qed

lemma wf_spawn_job:
  assumes "registry_wf r" and "jr_next r < - 1" and "spawn_job w kind r = (jid, r')"
  shows "registry_wf r'"
  using assms(3) register_job_jobs(4) [OF assms(1,2)] by (auto simp: spawn_job_def split: prod.splits)

lemma wf_cancel_job: "registry_wf r \<Longrightarrow> cancel_job jid r = (u, r') \<Longrightarrow> registry_wf r'"
  by (auto simp: cancel_job_def wf_flags split: option.splits)

lemma wf_prune_jobs: "registry_wf r \<Longrightarrow> registry_wf (prune_jobs chosen keep r)"
  by (simp add: prune_jobs_def Let_def fold_job_remove wf_filter)

lemmas wf_operations = wf_register_job wf_begin_bounded wf_begin_job wf_record_completed wf_spawn_job wf_task_ended wf_finish
  wf_cancel_job wf_set_progress wf_open_progress wf_prune_jobs wf_set_job_state

lemma wf_cancel_tokens: "registry_wf r \<Longrightarrow> registry_wf (cancel_tokens chosen r)"
  by (simp add: cancel_tokens_def wf_flags)

lemma wf_simple_steps:
  assumes "registry_wf r"
  shows "registry_wf (task_started jid r)" "registry_wf (cancel_workspace w r)" "registry_wf (cancel_all r)"
    "registry_wf (remove_workspace w r)" "registry_wf (prune_workspace w keep r)" "registry_wf (prune_terminal keep r)"
  using assms
  by (simp_all add: task_started_def cancel_workspace_def cancel_all_def remove_workspace_def prune_workspace_def
      prune_terminal_def wf_set_job_state wf_cancel_tokens wf_filter wf_prune_jobs)

lemma wf_job_step: "job_step r r' \<Longrightarrow> registry_wf r \<Longrightarrow> registry_wf r'"
  by (erule job_step.cases) (blast intro: wf_operations wf_simple_steps)+

lemma history_registry_wf: "job_history r \<Longrightarrow> registry_wf r"
  by (induction rule: job_history.induct) (auto simp: registry_wf_def registry_default_def dest: wf_job_step)

section \<open>Properties\<close>

text \<open>
  C21. The registry stays well-formed: after any history of calls by any number of callers, job ids are
  distinct, were all handed out by the counter and name the job they are filed under, no two jobs share a
  cancellation token, and every job's progress is a canonical number not above its total.
\<close>

theorem job_history_wf:
  assumes "job_history r"
  shows "registry_wf r"
  using assms by (rule history_registry_wf)

theorem job_history_wf_witness:
  "job_history (snd (begin_job ''1'' ''open'' registry_default)) \<and>
   registry_wf (snd (begin_job ''1'' ''open'' registry_default)) \<and>
   length (jr_jobs (snd (begin_job ''1'' ''open'' registry_default))) = 1"
proof -
  have "job_step registry_default (snd (begin_job ''1'' ''open'' registry_default))"
    by (rule job_step.step_begin [of _ "''1''" "''open''" "fst (begin_job ''1'' ''open'' registry_default)"])
      (simp_all add: registry_default_def word_gt_0)
  then have "job_history (snd (begin_job ''1'' ''open'' registry_default))"
    by (rule history_step [OF history_start])
  moreover have "length (jr_jobs (snd (begin_job ''1'' ''open'' registry_default))) = 1"
    by (simp add: begin_job_def register_job_def registry_default_def set_job_state_def job_insert_def job_update_def Let_def)
  ultimately show ?thesis using job_history_wf by blast
qed

text \<open>
  C22. Admission: a bounded job is refused exactly when 8 jobs are queued or running. Otherwise it is
  registered under a new id with an unset token, at most 8 jobs are active and at most 512 are retained
  afterwards, and the jobs dropped to make room are inactive and not younger than any inactive job kept.
  In particular the \<open>job registry is full\<close> error never occurs.
\<close>

theorem bounded_admission:
  assumes "job_history r" and "jr_next r < - 1" and "begin_bounded w kind r = (x, r')"
  shows "if MAX_ACTIVE \<le> active_count (jr_jobs r) then x = Inl too_many_jobs \<and> r' = r
    else \<exists>jid cancel. x = Inr (jid, cancel) \<and> jid \<notin> fst ` set (jr_jobs r) \<and>
      (jid, job_new w kind Running jid cancel) \<in> set (jr_jobs r') \<and> \<not> jr_flags r' cancel \<and>
      active_count (jr_jobs r') = Suc (active_count (jr_jobs r)) \<and> active_count (jr_jobs r') \<le> 8 \<and>
      length (jr_jobs r') \<le> 512 \<and>
      (\<forall>p \<in> set (jr_jobs r) - set (jr_jobs r'). \<not> job_active (snd p) \<and> 512 \<le> length (jr_jobs r) \<and>
         (\<forall>q \<in> set (jr_jobs r'). \<not> job_active (snd q) \<longrightarrow> job_key (fst p) \<le> job_key (fst q)))"
proof -
  have "registry_wf r" using assms(1) by (rule history_registry_wf)
  from begin_bounded_cases [OF this assms(2,3)] show ?thesis
  proof cases
    case (2 jid cancel jobs)
    note reg = register_job_jobs [OF 2(4) _ 2(5)]
    have jobs: "jr_jobs r' = (jid, job_new w kind Running jid cancel) # jobs" "\<not> jr_flags r' cancel"
      using reg(1,3) assms(2) by simp_all
    have new: "job_active (job_new w kind Running jid cancel)" by (simp add: job_active_def job_new_def)
    have id: "jid = id_from_u64 (jr_next r + 1)"
      using 2(5) by (simp add: register_job_def Let_def)
    have "jid \<notin> fst ` set (jr_jobs r)" using fresh_job(1) [OF \<open>registry_wf r\<close> assms(2)] id by simp
    then show ?thesis
      using 2(1,2,3) jobs new
      by (auto simp: trimmed_def active_count_def MAX_ACTIVE_def MAX_RETAINED_def)
  qed simp
qed

theorem bounded_admission_witness:
  "\<exists>x r'. job_history registry_default \<and> jr_next registry_default < - 1 \<and>
     begin_bounded ''1'' ''open'' registry_default = (x, r') \<and>
     (\<exists>jid cancel. x = Inr (jid, cancel) \<and> active_count (jr_jobs r') = 1)"
proof -
  obtain x r' where b: "begin_bounded ''1'' ''open'' registry_default = (x, r')"
    by (cases "begin_bounded ''1'' ''open'' registry_default")
  have n: "jr_next registry_default < - 1" by (simp add: registry_default_def word_gt_0)
  have a: "active_count (jr_jobs registry_default) = 0" by (simp add: active_count_def registry_default_def)
  show ?thesis
    using bounded_admission [OF history_start n b] b n history_start a by (auto simp: MAX_ACTIVE_def)
qed

lemma filter_not_in_prefix: "distinct (as @ bs) \<Longrightarrow> filter (\<lambda>x. x \<notin> set as) (as @ bs) = bs"
  by (auto simp: filter_empty_conv intro!: filter_True)

lemma drop_sorted:
  assumes "distinct xs" and "finals = sort_key k xs"
  shows "filter (\<lambda>x. x \<notin> set (take n finals)) finals = drop n finals"
    and "x \<in> set (take n finals) \<Longrightarrow> y \<in> set (drop n finals) \<Longrightarrow> k x \<le> k y"
proof -
  show "filter (\<lambda>x. x \<notin> set (take n finals)) finals = drop n finals"
    using filter_not_in_prefix [of "take n finals" "drop n finals"] assms by simp
  have "sorted (map k (take n finals @ drop n finals))" using assms(2) by simp
  then show "x \<in> set (take n finals) \<Longrightarrow> y \<in> set (drop n finals) \<Longrightarrow> k x \<le> k y"
    unfolding map_append sorted_append by auto
qed

lemma prune_jobs_result:
  assumes "distinct (map fst (jr_jobs r))" and "jobs' = jr_jobs (prune_jobs chosen keep r)"
  shows "filter (\<lambda>p. \<not> chosen (snd p)) jobs' = filter (\<lambda>p. \<not> chosen (snd p)) (jr_jobs r) \<and>
    length (filter (\<lambda>p. chosen (snd p)) jobs') = min keep (length (filter (\<lambda>p. chosen (snd p)) (jr_jobs r))) \<and>
    (\<forall>p \<in> set (jr_jobs r) - set jobs'. \<forall>q \<in> set jobs'. chosen (snd q) \<longrightarrow> job_key (fst p) \<le> job_key (fst q))"
proof -
  let ?c = "filter (\<lambda>p. chosen (snd p)) (jr_jobs r)"
  define finals where "finals = sort_key job_key (map fst ?c)"
  define n where "n = length finals - keep"
  have dist: "distinct (map fst ?c)" using assms(1) by (simp add: distinct_map_filter)
  note ds = drop_sorted [OF dist finals_def, where n = n]
  have jobs': "jobs' = filter (\<lambda>p. fst p \<notin> set (take n finals)) (jr_jobs r)"
    by (simp add: assms(2) prune_jobs_def Let_def fold_job_remove finals_def n_def)
  have fin: "set finals = fst ` set ?c" by (simp add: finals_def)
  have tk: "fst p \<in> set (take n finals) \<Longrightarrow> p \<in> set (jr_jobs r) \<Longrightarrow> chosen (snd p)" for p
    using in_set_takeD [of "fst p" n finals] fin assms(1) by (cases p) (auto dest: eq_key_imp_eq_value)
  have "map fst (filter (\<lambda>p. chosen (snd p)) jobs') = filter (\<lambda>x. x \<notin> set (take n finals)) (map fst ?c)"
    by (simp add: jobs' filter_map comp_def conj_commute)
  then have "length (filter (\<lambda>p. chosen (snd p)) jobs') = length (filter (\<lambda>x. x \<notin> set (take n finals)) finals)"
    by (metis finals_def filter_sort length_map length_sort)
  then have "length (filter (\<lambda>p. chosen (snd p)) jobs') = min keep (length ?c)"
    unfolding ds(1) by (simp add: n_def finals_def)
  moreover have "filter (\<lambda>p. \<not> chosen (snd p)) jobs' = filter (\<lambda>p. \<not> chosen (snd p)) (jr_jobs r)"
    unfolding jobs' filter_filter by (rule filter_cong) (use tk in auto)
  moreover have "job_key (fst p) \<le> job_key (fst q)"
    if "p \<in> set (jr_jobs r) - set jobs'" and "q \<in> set jobs'" and "chosen (snd q)" for p q
  proof (rule ds(2))
    show "fst p \<in> set (take n finals)" using that(1) by (simp add: jobs')
    have "fst q \<in> set finals" "fst q \<notin> set (take n finals)" using that(2,3) by (auto simp: fin jobs')
    then show "fst q \<in> set (drop n finals)" by (metis UnE append_take_drop_id set_append)
  qed
  ultimately show ?thesis by blast
qed

text \<open>
  C23. Pruning keeps the newest: after \<open>prune_terminal\<close> exactly the requested number of finished jobs is
  left, or all of them if there were fewer, no removed job is younger than a finished one that was kept,
  and jobs that are queued or running are untouched.
\<close>

theorem prune_keeps_newest:
  assumes "job_history r" and "r' = prune_terminal keep r"
  shows "filter (\<lambda>p. job_active (snd p)) (jr_jobs r') = filter (\<lambda>p. job_active (snd p)) (jr_jobs r) \<and>
    length (filter (\<lambda>p. job_terminal (snd p)) (jr_jobs r')) =
      min keep (length (filter (\<lambda>p. job_terminal (snd p)) (jr_jobs r))) \<and>
    (\<forall>p \<in> set (jr_jobs r) - set (jr_jobs r'). \<forall>q \<in> set (jr_jobs r').
       job_terminal (snd q) \<longrightarrow> job_key (fst p) \<le> job_key (fst q))"
proof -
  have "registry_wf r" using assms(1) by (rule history_registry_wf)
  then have "distinct (map fst (jr_jobs r))" by (simp add: registry_wf_def)
  moreover have "\<not> job_terminal e \<longleftrightarrow> job_active e" for e
    by (cases "jd_state (je_dto e)") (simp_all add: job_terminal_def job_active_def)
  ultimately show ?thesis
    using prune_jobs_result [of r "jr_jobs r'" job_terminal keep] assms(2) by (simp add: prune_terminal_def)
qed

theorem prune_keeps_newest_witness:
  "\<exists>r. job_history r \<and> length (filter (\<lambda>p. job_terminal (snd p)) (jr_jobs (prune_terminal 0 r))) = 0 \<and>
     length (jr_jobs r) = 1"
proof -
  let ?r = "snd (record_completed ''1'' ''open'' registry_default)"
  have "job_step registry_default ?r"
    by (rule job_step.step_record [of _ "''1''" "''open''" "fst (record_completed ''1'' ''open'' registry_default)"])
      (simp_all add: registry_default_def word_gt_0)
  then have h: "job_history ?r" by (rule history_step [OF history_start])
  moreover have "length (jr_jobs ?r) = 1"
    by (simp add: record_completed_def begin_job_def register_job_def registry_default_def finish_job_def job_outcome_def
        set_job_state_def job_insert_def job_update_def Let_def)
  moreover have "length (filter (\<lambda>p. job_terminal (snd p)) (jr_jobs (prune_terminal 0 ?r))) = 0"
    using prune_keeps_newest [OF h refl, of 0] by simp
  ultimately show ?thesis by blast
qed

end
