(* ===== verification/Qtrace_Loops.thy ===== *)
theory Qtrace_Loops
  imports Provider_Allocation "HOL-Library.Multiset" "HOL-Library.Sublist"
begin

text \<open>
  Loops whose body may be refused by a work guard. The value such a loop computes does not depend on the
  guard: \<open>yieldsR m x\<close> says that \<open>m\<close> returns nothing but \<open>x\<close> when it returns, \<open>okR m\<close> that it always
  returns. The second part is the counting pass that the radix sorts of the provider and of the index
  share: count the keys, turn the counts into offsets, scatter.
\<close>

section \<open>Values of guarded computations\<close>

fun foldR :: "('x \<Rightarrow> 'a \<Rightarrow> ('s, 'e, 'a) rm) \<Rightarrow> 'x list \<Rightarrow> 'a \<Rightarrow> ('s, 'e, 'a) rm" where
  "foldR f [] a = retR a"
| "foldR f (x # xs) a = bindR (f x a) (foldR f xs)"

lemma foldR_Nil: "foldR f [] = retR"
  by (simp add: fun_eq_iff)

lemma foldR_Cons: "foldR f (x # xs) = (\<lambda>a. bindR (f x a) (foldR f xs))"
  by (simp add: fun_eq_iff)

lemma foldR_snoc: "foldR f (xs @ [x]) a = bindR (foldR f xs a) (f x)"
proof -
  have "foldR f (xs @ [x]) = (\<lambda>a. bindR (foldR f xs a) (f x))"
    by (induction xs) (simp_all add: foldR_Nil foldR_Cons bindR_assoc del: foldR.simps retR_apply)
  then show ?thesis by simp
qed

lemma foldR_append: "foldR f (xs @ ys) a = bindR (foldR f xs a) (foldR f ys)"
proof -
  have "foldR f (xs @ ys) = (\<lambda>a. bindR (foldR f xs a) (foldR f ys))"
    by (induction xs) (simp_all add: foldR_Nil foldR_Cons bindR_assoc del: foldR.simps retR_apply)
  then show ?thesis by simp
qed

lemma foldR_constant: "foldR (\<lambda>_. f d) xs = foldR f (replicate (length xs) d)"
  by (induction xs) (simp_all add: foldR_Nil foldR_Cons del: foldR.simps retR_apply)

definition yieldsR :: "('s, 'e, 'a) rm \<Rightarrow> 'a \<Rightarrow> bool" where
  "yieldsR m x \<longleftrightarrow> (\<forall>s y t. m s = (Inr y, t) \<longrightarrow> y = x)"

definition okR :: "('s, 'e, 'a) rm \<Rightarrow> bool" where
  "okR m \<longleftrightarrow> (\<forall>s. \<exists>y t. m s = (Inr y, t))"

lemma yieldsD: "yieldsR m x \<Longrightarrow> m s = (Inr y, t) \<Longrightarrow> y = x"
  unfolding yieldsR_def by blast

lemma okD: "okR m \<Longrightarrow> \<exists>y t. m s = (Inr y, t)"
  by (simp add: okR_def)

lemma total_value: "okR m \<Longrightarrow> yieldsR m x \<Longrightarrow> \<exists>t. m s = (Inr x, t)"
  unfolding okR_def yieldsR_def by metis

lemma yields_ret: "yieldsR (retR x) x"
  by (simp add: yieldsR_def)

lemma yields_throw: "yieldsR (throwR e) x"
  by (simp add: yieldsR_def)

lemma yields_bind: "yieldsR m x \<Longrightarrow> yieldsR (k x) y \<Longrightarrow> yieldsR (bindR m k) y"
  unfolding yieldsR_def bindR_Inr by blast

lemma yields_bind_any: "(\<And>x. yieldsR (k x) y) \<Longrightarrow> yieldsR (bindR m k) y"
  unfolding yieldsR_def bindR_Inr by blast

lemma yields_then: "yieldsR n y \<Longrightarrow> yieldsR (thenR m n) y"
  unfolding thenR_def by (rule yields_bind_any)

lemma yields_result: "(\<And>y. r = Inr y \<Longrightarrow> y = x) \<Longrightarrow> yieldsR (resultR r) x"
  by (simp add: yieldsR_def)

lemma yields_option: "(\<And>y. v = Some y \<Longrightarrow> y = x) \<Longrightarrow> yieldsR (optionR e v) x"
  by (simp add: yieldsR_def)

lemma yields_mapErr: "yieldsR m x \<Longrightarrow> yieldsR (mapErrR f m) x"
  by (simp add: yieldsR_def)

lemma yields_unit: "yieldsR m ()"
  by (simp add: yieldsR_def)

lemma yields_fold:
  assumes "\<And>x a. x \<in> set xs \<Longrightarrow> yieldsR (f x a) (g x a)"
  shows "yieldsR (foldR f xs a) (fold g xs a)"
  using assms
proof (induction xs arbitrary: a)
  case (Cons x xs)
  then have "yieldsR (bindR (f x a) (foldR f xs)) (fold g xs (g x a))"
    by (intro yields_bind [of _ "g x a"]) simp_all
  then show ?case by simp
qed (simp add: yields_ret)

lemma ok_ret: "okR (retR x)"
  by (simp add: okR_def)

lemma ok_bind: "okR m \<Longrightarrow> (\<And>x. okR (k x)) \<Longrightarrow> okR (bindR m k)"
  unfolding okR_def by (metis bindR_step)

lemma ok_bind_value: "okR m \<Longrightarrow> yieldsR m x \<Longrightarrow> okR (k x) \<Longrightarrow> okR (bindR m k)"
  unfolding okR_def yieldsR_def by (metis bindR_step)

lemma ok_then: "okR m \<Longrightarrow> okR n \<Longrightarrow> okR (thenR m n)"
  unfolding thenR_def by (rule ok_bind)

lemma ok_mapErr: "okR m \<Longrightarrow> okR (mapErrR f m)"
  by (simp add: okR_def)

lemma ok_result: "okR (resultR (Inr x))"
  by (simp add: okR_def)

lemma ok_option: "okR (optionR e (Some x))"
  by (simp add: okR_def)

lemma ok_fold: "(\<And>x a. x \<in> set xs \<Longrightarrow> okR (f x a)) \<Longrightarrow> okR (foldR f xs a)"
  by (induction xs arbitrary: a) (simp_all add: ok_ret ok_bind)

lemmas yields_rules = yields_ret yields_throw yields_unit yields_mapErr
lemmas ok_rules = ok_ret ok_bind ok_then ok_mapErr ok_result ok_option

section \<open>Chunks\<close>

text \<open>The chunks of a slice, as \<open>chunks\<close> of the standard library gives them.\<close>

fun chunks :: "nat \<Rightarrow> 'a list \<Rightarrow> 'a list list" where
  "chunks n xs = (if n = 0 \<or> xs = [] then [] else take n xs # chunks n (drop n xs))"

declare chunks.simps [simp del]

lemma concat_chunks: "0 < n \<Longrightarrow> concat (chunks n xs) = xs"
proof (induction n xs rule: chunks.induct)
  case (1 n xs)
  then show ?case by (subst chunks.simps) simp
qed

lemma fold_chunks: "0 < n \<Longrightarrow> fold (fold f) (chunks n xs) = fold f xs"
proof -
  have "fold (fold f) xss = fold f (concat xss)" for xss
    by (induction xss) (simp_all add: fun_eq_iff)
  then show "0 < n \<Longrightarrow> ?thesis" by (simp add: concat_chunks)
qed

section \<open>A counting pass\<close>

definition bucket_counts :: "('a \<Rightarrow> nat) \<Rightarrow> 'a list \<Rightarrow> nat list" where
  "bucket_counts k xs = fold (\<lambda>x counts. counts[k x := counts ! k x + 1]) xs (replicate 256 0)"

definition bucket_offsets :: "nat list \<Rightarrow> nat list" where
  "bucket_offsets counts = map (\<lambda>b. sum_list (take b counts)) [0..<length counts]"

definition scatter :: "('a \<Rightarrow> nat) \<Rightarrow> 'a list \<Rightarrow> 'a list \<times> nat list \<Rightarrow> 'a list \<times> nat list" where
  "scatter k xs = fold (\<lambda>x (scratch, positions).
     (scratch[positions ! k x := x], positions[k x := positions ! k x + 1])) xs"

definition buckets :: "('a \<Rightarrow> nat) \<Rightarrow> 'a list \<Rightarrow> 'a list list" where
  "buckets k xs = map (\<lambda>b. filter (\<lambda>x. k x = b) xs) [0..<256]"

lemma fold_counts:
  assumes "length counts = 256"
  shows "fold (\<lambda>x counts. counts[k x := counts ! k x + 1]) xs counts =
    map (\<lambda>b. counts ! b + length (filter (\<lambda>x. k x = b) xs)) [0..<256]"
  using assms
proof (induction xs arbitrary: counts)
  case Nil
  then show ?case by (intro nth_equalityI) simp_all
next
  case (Cons x xs)
  then show ?case by (auto simp: nth_list_update intro!: nth_equalityI)
qed

lemma bucket_counts_eq: "bucket_counts k xs = map length (buckets k xs)"
  unfolding bucket_counts_def buckets_def by (subst fold_counts) (simp_all add: comp_def)

text \<open>Writing at an offset plus a position writes into one bucket.\<close>

lemma concat_update:
  assumes "b < length segs" and "j < length (segs ! b)"
  shows "(concat segs)[sum_list (take b (map length segs)) + j := v] = concat (segs[b := (segs ! b)[j := v]])"
  using assms
proof (induction segs arbitrary: b)
  case (Cons s segs)
  then show ?case
    by (cases b) (simp_all add: list_update_append add.assoc)
qed simp

text \<open>
  After the elements \<open>ys\<close> have been scattered, each bucket holds those of them with its key, followed by
  what was there before.
\<close>

definition scattered :: "('a \<Rightarrow> nat) \<Rightarrow> nat list \<Rightarrow> 'a list \<Rightarrow> 'a list \<times> nat list \<Rightarrow> bool" where
  "scattered k counts ys st \<longleftrightarrow> (\<exists>segs. fst st = concat segs \<and> length segs = 256 \<and> map length segs = counts \<and>
     length (snd st) = 256 \<and> (\<forall>b < 256. prefix (buckets k ys ! b) (segs ! b) \<and>
       snd st ! b = sum_list (take b counts) + length (buckets k ys ! b)))"

lemma buckets_snoc:
  assumes "b < 256"
  shows "buckets k (ys @ [x]) ! b = buckets k ys ! b @ (if k x = b then [x] else [])"
  using assms by (simp add: buckets_def)

lemma prefix_update:
  assumes "prefix p s" and "length p < length s"
  shows "prefix (p @ [x]) (s[length p := x])"
proof -
  obtain y t where "s = p @ y # t" using assms by (auto simp: prefix_def neq_Nil_conv)
  then show ?thesis by simp
qed

lemma scattered_step:
  assumes "scattered k counts ys st" and "k x < 256" and "length (buckets k (ys @ [x]) ! k x) \<le> counts ! k x"
  shows "scattered k counts (ys @ [x]) ((fst st)[snd st ! k x := x], (snd st)[k x := snd st ! k x + 1])"
proof -
  obtain segs where s: "fst st = concat segs" "length segs = 256" "map length segs = counts" "length (snd st) = 256"
    "\<And>b. b < 256 \<Longrightarrow> prefix (buckets k ys ! b) (segs ! b)"
    "\<And>b. b < 256 \<Longrightarrow> snd st ! b = sum_list (take b counts) + length (buckets k ys ! b)"
    using assms(1) unfolding scattered_def by blast
  let ?j = "length (buckets k ys ! k x)"
  let ?segs = "segs[k x := (segs ! k x)[?j := x]]"
  have room: "?j < length (segs ! k x)"
    using assms(2,3) s(2) buckets_snoc [OF assms(2), of k ys x] by (simp flip: s(3))
  have "(fst st)[snd st ! k x := x] = concat ?segs"
    using concat_update [of "k x" segs ?j x] room assms(2) s(1-3) s(6) by simp
  moreover have "map length ?segs = counts"
    using assms(2) s(2) by (simp add: map_update flip: s(3)) (metis assms(2) length_map list_update_id nth_map s(2))
  moreover have "prefix (buckets k (ys @ [x]) ! b) (?segs ! b)" if "b < 256" for b
    using that prefix_update [OF s(5) [OF assms(2)] room, of x] s(2) s(5) [OF that] buckets_snoc [OF that, of k ys x]
    by (cases "b = k x") auto
  ultimately show ?thesis
    unfolding scattered_def
    by (intro exI [of _ ?segs]) (use assms(2) s in \<open>auto simp: nth_list_update buckets_snoc\<close>)
qed

lemma scattered_scatter:
  assumes "scattered k (map length (buckets k (ys @ xs))) ys st" and "\<And>x. x \<in> set xs \<Longrightarrow> k x < 256"
  shows "scattered k (map length (buckets k (ys @ xs))) (ys @ xs) (scatter k xs st)"
  using assms
proof (induction xs arbitrary: ys st)
  case (Cons x xs)
  let ?st = "((fst st)[snd st ! k x := x], (snd st)[k x := snd st ! k x + 1])"
  have kx: "k x < 256" using Cons.prems(2) by simp
  have "length (buckets k (ys @ [x]) ! k x) \<le> map length (buckets k (ys @ x # xs)) ! k x"
    using kx by (simp add: buckets_def)
  with Cons.prems(1) kx have "scattered k (map length (buckets k ((ys @ [x]) @ xs))) (ys @ [x]) ?st"
    using scattered_step by simp
  from Cons.IH [OF this] Cons.prems(2) show ?case
    by (simp add: scatter_def split_beta)
qed (simp add: scatter_def)

lemma sum_bucket_lengths:
  assumes "\<And>x. x \<in> set xs \<Longrightarrow> k x < 256"
  shows "sum_list (map length (buckets k xs)) = length xs"
proof -
  have "length (filter (\<lambda>x. k x < n) xs) = sum_list (map (\<lambda>b. length (filter (\<lambda>x. k x = b) xs)) [0..<n])" for n
  proof (induction n)
    case (Suc n)
    have "length (filter (\<lambda>x. k x < Suc n) xs) = length (filter (\<lambda>x. k x < n) xs) + length (filter (\<lambda>x. k x = n) xs)"
      by (induction xs) auto
    with Suc show ?case by simp
  qed simp
  from this [of 256] assms show ?thesis by (simp add: buckets_def comp_def)
qed

text \<open>Any scratch buffer of the right length can be cut into segments of given lengths.\<close>

lemma cut_segments:
  assumes "length s = sum_list counts"
  shows "\<exists>segs. concat segs = s \<and> map length segs = counts"
  using assms
proof (induction counts arbitrary: s)
  case Nil
  then show ?case by simp
next
  case (Cons c counts)
  then obtain segs where "concat segs = drop c s" "map length segs = counts"
    by (metis add_diff_cancel_left' length_drop sum_list.Cons)
  then show ?case using Cons.prems by (intro exI [of _ "take c s # segs"]) simp
qed

lemma scatter_buckets:
  assumes "\<And>x. x \<in> set xs \<Longrightarrow> k x < 256" and "length scratch = length xs"
  shows "fst (scatter k xs (scratch, bucket_offsets (bucket_counts k xs))) = concat (buckets k xs)"
proof -
  let ?c = "map length (buckets k xs)"
  have len: "length ?c = 256" by (simp add: buckets_def)
  obtain segs where segs: "concat segs = scratch" "map length segs = ?c"
    using cut_segments [of scratch ?c] sum_bucket_lengths [of xs k, OF assms(1)] assms(2) by metis
  have "scattered k ?c [] (scratch, bucket_offsets ?c)"
    unfolding scattered_def using segs len
    by (intro exI [of _ segs]) (auto simp: bucket_offsets_def buckets_def dest: map_eq_imp_length_eq)
  then have "scattered k ?c xs (scatter k xs (scratch, bucket_offsets ?c))"
    using scattered_scatter [of k "[]" xs] assms(1) by simp
  then obtain segs' where s: "fst (scatter k xs (scratch, bucket_offsets ?c)) = concat segs'" "map length segs' = ?c"
    "\<And>b. b < 256 \<Longrightarrow> prefix (buckets k xs ! b) (segs' ! b)"
    unfolding scattered_def by blast
  have "segs' = buckets k xs"
  proof (rule nth_equalityI)
    show l: "length segs' = length (buckets k xs)" using s(2) by (rule map_eq_imp_length_eq)
    fix b
    assume "b < length segs'"
    then have b: "b < 256" "b < length (buckets k xs)" using l by (simp_all add: buckets_def)
    then have "length (segs' ! b) = length (buckets k xs ! b)" using s(2) l by (metis nth_map)
    then show "segs' ! b = buckets k xs ! b" using s(3) [OF b(1)] by (auto simp: prefix_def)
  qed
  with s(1) show ?thesis by (simp add: bucket_counts_eq)
qed

section \<open>Stable sorting\<close>

lemma filter_concat_buckets:
  "filter (\<lambda>x. k x = b) (concat (map (\<lambda>b. filter (\<lambda>x. k x = b) xs) bs)) =
     concat (map (\<lambda>c. if c = b then filter (\<lambda>x. k x = b) xs else []) bs)"
  by (induction bs) (auto simp: filter_concat)

lemma concat_select: "concat (map (\<lambda>c. if c = b then ys else []) [0..<n]) = (if b < n then ys else [])"
  by (induction n) auto

lemma mset_concat_buckets:
  "mset (concat (map (\<lambda>b. filter (\<lambda>x. k x = b) xs) [0..<n])) = filter_mset (\<lambda>x. k x < n) (mset xs)"
proof (induction n)
  case (Suc n)
  have "filter_mset (\<lambda>x. k x < Suc n) M = filter_mset (\<lambda>x. k x < n) M + filter_mset (\<lambda>x. k x = n) M" for M
    by (induction M) auto
  with Suc show ?case by simp
qed simp

lemma sorted_constant: "(\<And>x. x \<in> set xs \<Longrightarrow> k x = c) \<Longrightarrow> sorted (map k xs)"
  by (induction xs) auto

lemma sorted_concat_buckets:
  "sorted (map k (concat (map (\<lambda>b. filter (\<lambda>x. k x = b) xs) [0..<n])))"
proof (induction n)
  case (Suc n)
  have "sorted (map k (filter (\<lambda>x. k x = n) xs))" by (rule sorted_constant [of _ _ n]) simp
  with Suc show ?case by (auto simp: sorted_append)
qed simp

lemma concat_buckets_sort:
  assumes "\<And>x. x \<in> set xs \<Longrightarrow> k x < 256"
  shows "concat (buckets k xs) = sort_key k xs"
  unfolding buckets_def
proof (rule properties_for_sort_key [symmetric])
  let ?ys = "concat (map (\<lambda>b. filter (\<lambda>x. k x = b) xs) [0..<256])"
  show "mset ?ys = mset xs"
    unfolding mset_concat_buckets by (rule multiset_eqI) (auto simp: count_eq_zero_iff dest: assms)
  show "sorted (map k ?ys)" by (rule sorted_concat_buckets)
  fix x
  assume "x \<in> set ?ys"
  then have "k x < 256" by auto
  then show "filter (\<lambda>y. k x = k y) ?ys = filter (\<lambda>y. k x = k y) xs"
    using filter_concat_buckets [of k "k x" xs "[0..<256]"] by (simp add: concat_select eq_commute)
qed

lemma scatter_sort:
  assumes "\<And>x. x \<in> set xs \<Longrightarrow> k x < 256" and "length scratch = length xs"
  shows "fst (scatter k xs (scratch, bucket_offsets (bucket_counts k xs))) = sort_key k xs"
  using scatter_buckets [OF assms] concat_buckets_sort [OF assms(1)] by simp

text \<open>Sorting stably by a digit what is sorted by the digits below it sorts by both.\<close>

lemma sorted_lex:
  fixes l d :: "'a \<Rightarrow> nat"
  assumes "sorted (map d zs)" and "\<And>c. sorted (map l (filter (\<lambda>x. d x = c) zs))" and "\<And>x. x \<in> set zs \<Longrightarrow> l x < B"
  shows "sorted (map (\<lambda>x. l x + B * d x) zs)"
  using assms
proof (induction zs)
  case (Cons z zs)
  have "sorted (map l (filter (\<lambda>x. d x = c) zs))" for c
    using Cons.prems(2) [of c] by (simp split: if_splits)
  then have "sorted (map (\<lambda>x. l x + B * d x) zs)" using Cons by simp
  moreover have "l z + B * d z \<le> l y + B * d y" if y: "y \<in> set zs" for y
  proof (cases "d z = d y")
    case True
    then show ?thesis using Cons.prems(2) [of "d z"] y by auto
  next
    case False
    then have "Suc (d z) \<le> d y" using Cons.prems(1) y by (auto simp: Suc_le_eq le_neq_implies_less)
    then have "B * Suc (d z) \<le> B * d y" by (rule mult_le_mono2)
    moreover have "l z < B" using Cons.prems(3) by simp
    ultimately show ?thesis by simp
  qed
  ultimately show ?case by simp
qed simp

lemma digits_unique:
  fixes a b B :: nat
  assumes "a < B" and "b < B" and "a + B * m = b + B * n"
  shows "m = n \<and> a = b"
proof -
  have "(a + B * m) div B = m" "(b + B * n) div B = n" using assms(1,2) by simp_all
  with assms(3) show ?thesis by simp
qed

lemma sort_key_digit:
  fixes l d :: "'a \<Rightarrow> nat"
  assumes "\<And>x. x \<in> set xs \<Longrightarrow> l x < B"
  shows "sort_key d (sort_key l xs) = sort_key (\<lambda>x. l x + B * d x) xs"
proof (rule properties_for_sort_key [symmetric])
  let ?zs = "sort_key d (sort_key l xs)"
  have stable: "filter (\<lambda>x. d x = c) ?zs = filter (\<lambda>x. d x = c) (sort_key l xs)" for c
    using sort_key_stable [of d c "sort_key l xs"] by (simp add: eq_commute)
  show "mset ?zs = mset xs" by simp
  show "sorted (map (\<lambda>x. l x + B * d x) ?zs)"
  proof (rule sorted_lex)
    show "sorted (map l (filter (\<lambda>x. d x = c) ?zs))" for c
      unfolding stable by (simp add: filter_sort)
  qed (use assms in simp_all)
  fix x
  assume "x \<in> set ?zs"
  then have x: "l x < B" using assms by simp
  have eq: "l x + B * d x = l y + B * d y \<longleftrightarrow> d x = d y \<and> l x = l y" if "y \<in> set xs" for y
    using digits_unique [OF x assms [OF that], of "d x" "d y"] by auto
  have "filter (\<lambda>y. l x + B * d x = l y + B * d y) ?zs = filter (\<lambda>y. l y = l x) (filter (\<lambda>y. d y = d x) ?zs)"
    unfolding filter_filter by (rule filter_cong) (auto simp: eq)
  also have "\<dots> = filter (\<lambda>y. d y = d x) (filter (\<lambda>y. l y = l x) (sort_key l xs))"
    unfolding stable filter_filter by (rule filter_cong) auto
  also have "\<dots> = filter (\<lambda>y. d y = d x) (filter (\<lambda>y. l y = l x) xs)"
    using sort_key_stable [of l "l x" xs] by (simp add: eq_commute)
  also have "\<dots> = filter (\<lambda>y. l x + B * d x = l y + B * d y) xs"
    unfolding filter_filter by (rule filter_cong) (auto simp: eq)
  finally show "filter (\<lambda>y. l x + B * d x = l y + B * d y) ?zs = filter (\<lambda>y. l x + B * d x = l y + B * d y) xs" .
qed

text \<open>Passes over the digits of a number, lowest first, sort by the number.\<close>

definition digit_sum :: "(nat \<Rightarrow> 'a \<Rightarrow> nat) \<Rightarrow> nat \<Rightarrow> 'a \<Rightarrow> nat" where
  "digit_sum d n x = (\<Sum>p<n. 256 ^ p * d p x)"

lemma digit_sum_Suc: "digit_sum d (Suc n) x = digit_sum d n x + 256 ^ n * d n x"
  by (simp add: digit_sum_def)

lemma digit_sum_less:
  assumes "\<And>p. d p x < 256"
  shows "digit_sum d n x < 256 ^ n"
proof (induction n)
  case (Suc n)
  have "256 ^ n * d n x \<le> 256 ^ n * 255" using assms [of n] by (intro mult_le_mono2) simp
  moreover have "(256 :: nat) ^ Suc n = 256 ^ n + 256 ^ n * 255" by simp
  ultimately show ?case using Suc by (simp only: digit_sum_Suc)
qed (simp add: digit_sum_def)

lemma digit_sum_bytes: "(\<And>p. p < length bs \<Longrightarrow> d p x = unat (bs ! p)) \<Longrightarrow> digit_sum d (length bs) x = le_nat bs"
proof -
  assume d: "\<And>p. p < length bs \<Longrightarrow> d p x = unat (bs ! p)"
  have "(\<Sum>p<length bs. 256 ^ p * unat (bs ! p)) = le_nat bs" for bs :: "u8 list"
    by (induction bs) (simp_all add: sum.lessThan_Suc_shift mult.assoc del: sum.lessThan_Suc flip: sum_distrib_left)
  with d show ?thesis by (simp add: digit_sum_def)
qed

lemma yields_radix:
  assumes pass: "\<And>p order scratch. length scratch = length order \<Longrightarrow> yieldsR (f p (order, scratch)) (sort_key (d p) order, order)"
    and digit: "\<And>p x. d p x < 256" and len: "length scratch = length xs"
  shows "yieldsR (foldR f [0..<n] (xs, scratch))
    (sort_key (digit_sum d n) xs, if n = 0 then scratch else sort_key (digit_sum d (n - 1)) xs)"
proof (induction n)
  case 0
  have "sort_key (\<lambda>x. 0 :: nat) ys = ys" for ys :: "'a list" by (induction ys) (simp_all add: insort_is_Cons)
  then have "sort_key (digit_sum d 0) xs = xs" by (simp add: digit_sum_def [abs_def])
  moreover have "[0..<0] = ([] :: nat list)" by simp
  ultimately show ?case by (simp only: foldR.simps yields_ret if_True refl)
next
  case (Suc p)
  have key: "sort_key (d p) (sort_key (digit_sum d p) xs) = sort_key (digit_sum d (Suc p)) xs"
    by (subst sort_key_digit [where B = "256 ^ p"]) (simp_all add: digit_sum_less digit digit_sum_Suc [abs_def])
  show ?case
    unfolding upt_Suc_append [OF le0] foldR_snoc
    by (rule yields_bind [OF Suc]) (use pass [of _ "sort_key (digit_sum d p) xs" p] len in \<open>auto simp: key\<close>)
qed

end
