(* ===== verification/Flight_Sort.thy ===== *)
theory Flight_Sort
  imports Qtrace_Loops
begin

text \<open>
  The sort of the flight recorder's recovery (\<open>qtrace-provider/src/flight/sort.rs\<close>): a radix sort of row
  numbers that asks the guard every 4096 steps, followed by an in-place permutation of the values along
  the cycles of the order. The inner loop of the permutation ends only because the order is a
  permutation, so it is a partial function, and that it returns is proved.
\<close>

section \<open>The sort\<close>

definition MAX_UNGUARDED_RECORDS :: nat where
  "MAX_UNGUARDED_RECORDS = 4096"

definition checkpoint :: "'w work_guard \<Rightarrow> usize \<Rightarrow> ('w, provider_error, unit) rm" where
  "checkpoint G index = (if index mod MAX_UNGUARDED_RECORDS = 0 then consume G work_default else retR ())"

definition initial_order :: "'w work_guard \<Rightarrow> usize \<Rightarrow> ('w, provider_error, usize list \<times> usize list) rm" where
  "initial_order G n = foldR (\<lambda>index (order, scratch).
     thenR (checkpoint G index) (retR (order @ [index], scratch @ [0]))) [0..<n] ([], [])"

definition radix_counts ::
  "'w work_guard \<Rightarrow> ('a \<Rightarrow> usize \<Rightarrow> provider_error + u8) \<Rightarrow> 'a list \<Rightarrow> usize \<Rightarrow> usize list \<Rightarrow> ('w, provider_error, usize list) rm" where
  "radix_counts G key_byte values pass order = foldR (\<lambda>(index, source) counts.
     thenR (checkpoint G index)
       (bindR (resultR (key_byte (values ! source) pass)) (\<lambda>b.
        retR (counts[unat b := counts ! unat b + 1])))) (enumerate 0 order) (replicate 256 0)"

definition radix_positions :: "usize list \<Rightarrow> usize list" where
  "radix_positions counts =
     fold (\<lambda>index positions. positions[index := positions ! (index - 1) + counts ! (index - 1)]) [1..<256] (replicate 256 0)"

definition radix_scatter ::
  "'w work_guard \<Rightarrow> ('a \<Rightarrow> usize \<Rightarrow> provider_error + u8) \<Rightarrow> 'a list \<Rightarrow> usize \<Rightarrow> usize list \<Rightarrow> usize list \<times> usize list \<Rightarrow>
   ('w, provider_error, usize list \<times> usize list) rm" where
  "radix_scatter G key_byte values pass order = foldR (\<lambda>(index, source) (scratch, positions).
     thenR (checkpoint G index)
       (bindR (resultR (key_byte (values ! source) pass)) (\<lambda>b.
        let bucket = unat b in
        retR (scratch[positions ! bucket := source], positions[bucket := positions ! bucket + 1])))) (enumerate 0 order)"

definition radix_pass ::
  "'w work_guard \<Rightarrow> ('a \<Rightarrow> usize \<Rightarrow> provider_error + u8) \<Rightarrow> 'a list \<Rightarrow> usize \<Rightarrow> usize list \<times> usize list \<Rightarrow>
   ('w, provider_error, usize list \<times> usize list) rm" where
  "radix_pass G key_byte values pass = (\<lambda>(order, scratch).
     bindR (radix_counts G key_byte values pass order) (\<lambda>counts.
     bindR (radix_scatter G key_byte values pass order (scratch, radix_positions counts)) (\<lambda>(scratch, positions).
     retR (scratch, order))))"

definition sort_order ::
  "'w host \<Rightarrow> 'w work_guard \<Rightarrow> ('a \<Rightarrow> usize \<Rightarrow> provider_error + u8) \<Rightarrow> usize \<Rightarrow> 'a list \<Rightarrow> ('w, provider_error, usize list) rm" where
  "sort_order H G key_byte passes values =
     bindR (try_vec_with_capacity_in H G T_usize (length values) ''Flight sort order allocation failed''
       FLIGHT_RECOVERY_ALLOCATION) (\<lambda>_.
     bindR (try_vec_with_capacity_in H G T_usize (length values) ''Flight sort scratch allocation failed''
       FLIGHT_RECOVERY_ALLOCATION) (\<lambda>_.
     bindR (initial_order G (length values)) (\<lambda>st.
     bindR (foldR (radix_pass G key_byte values) [0..<passes] st) (\<lambda>(order, scratch).
     retR order))))"

definition swap :: "'a list \<Rightarrow> usize \<Rightarrow> usize \<Rightarrow> 'a list" where
  "swap values i j = values[i := values ! j, j := values ! i]"

text \<open>
  The inner loop: put the identity at the current slot, and unless the slot's source is where the cycle
  started, exchange the two values and go on at the source. It runs for ever if the order is not a
  permutation.
\<close>

partial_function (option) follow_cycle ::
  "'w work_guard \<Rightarrow> usize \<Rightarrow> usize \<Rightarrow> usize list \<Rightarrow> 'a list \<Rightarrow> usize \<Rightarrow> 'w \<Rightarrow>
   ((provider_error + usize list \<times> 'a list \<times> usize) \<times> 'w) option" where
  "follow_cycle G start current order values work w =
     (if order ! current = start then Some (Inr (order[current := current], values, work), w)
      else case checkpoint G work w of
        (Inl e, w') \<Rightarrow> Some (Inl e, w')
      | (Inr _, w') \<Rightarrow> follow_cycle G start (order ! current) (order[current := current])
          (swap values current (order ! current)) (work + 1) w')"

fun apply_order ::
  "'w work_guard \<Rightarrow> usize list \<Rightarrow> usize list \<Rightarrow> 'a list \<Rightarrow> usize \<Rightarrow> 'w \<Rightarrow> ((provider_error + 'a list) \<times> 'w) option" where
  "apply_order G [] order values work w = Some (Inr values, w)"
| "apply_order G (start # starts) order values work w = (case checkpoint G work w of
       (Inl e, w') \<Rightarrow> Some (Inl e, w')
     | (Inr _, w') \<Rightarrow> Option.bind (follow_cycle G start start order values (work + 1) w') (\<lambda>(r, w'').
         case r of Inl e \<Rightarrow> Some (Inl e, w'')
         | Inr (order', values', work') \<Rightarrow> apply_order G starts order' values' work' w''))"

definition guarded_radix_sort ::
  "'w host \<Rightarrow> 'w work_guard \<Rightarrow> 'a list \<Rightarrow> usize \<Rightarrow> ('a \<Rightarrow> usize \<Rightarrow> provider_error + u8) \<Rightarrow> 'w \<Rightarrow>
   ((provider_error + 'a list) \<times> 'w) option" where
  "guarded_radix_sort H G values passes key_byte w = (case checkpoint G 0 w of
       (Inl e, w1) \<Rightarrow> Some (Inl e, w1)
     | (Inr _, w1) \<Rightarrow>
         if length values < 2 then Some (Inr values, w1)
         else (case sort_order H G key_byte passes values w1 of
             (Inl e, w2) \<Rightarrow> Some (Inl e, w2)
           | (Inr order, w2) \<Rightarrow> apply_order G [0..<length values] order values 0 w2))"

section \<open>The order\<close>

text \<open>The digit a pass sorts by, and the number all passes sort by.\<close>

definition key_digit :: "('a \<Rightarrow> usize \<Rightarrow> provider_error + u8) \<Rightarrow> usize \<Rightarrow> 'a \<Rightarrow> nat" where
  "key_digit key_byte pass v = (case key_byte v pass of Inr b \<Rightarrow> unat b | Inl _ \<Rightarrow> 0)"

definition radix_key :: "('a \<Rightarrow> usize \<Rightarrow> provider_error + u8) \<Rightarrow> usize \<Rightarrow> 'a \<Rightarrow> nat" where
  "radix_key key_byte passes v = (\<Sum>pass<passes. 256 ^ pass * key_digit key_byte pass v)"

lemma key_digit_less: "key_digit key_byte pass v < 256"
proof -
  have "unat (b :: u8) < 256" for b using unat_less_2p [of b] by simp
  then show ?thesis by (simp add: key_digit_def split: sum.split)
qed

lemma digit_sum_key: "digit_sum (\<lambda>pass i. key_digit key_byte pass (f i)) passes = (\<lambda>i. radix_key key_byte passes (f i))"
  by (simp add: digit_sum_def radix_key_def fun_eq_iff)

lemma fold_enumerate: "fold (\<lambda>(i, x). f x) (enumerate n xs) = fold f xs"
  by (induction xs arbitrary: n) (simp_all add: fun_eq_iff)

lemma yields_key:
  assumes "\<And>b. yieldsR (k b) (f (unat b))"
  shows "yieldsR (bindR (resultR (key_byte v pass)) k) (f (key_digit key_byte pass v))"
proof (cases "key_byte v pass")
  case (Inl e)
  then show ?thesis by (simp add: yieldsR_def bindR_Inr)
next
  case (Inr b)
  then show ?thesis
    using yields_bind [OF yields_result, of "Inr b" b k "f (unat b)"] assms by (simp add: key_digit_def)
qed

lemma yields_counts:
  "yieldsR (radix_counts G key_byte values pass order) (bucket_counts (\<lambda>i. key_digit key_byte pass (values ! i)) order)"
proof -
  let ?g = "\<lambda>source counts. counts[key_digit key_byte pass (values ! source) := counts ! key_digit key_byte pass (values ! source) + 1]"
  have "yieldsR (radix_counts G key_byte values pass order)
    (fold (\<lambda>(index, source). ?g source) (enumerate 0 order) (replicate 256 0))"
    unfolding radix_counts_def
  proof (rule yields_fold)
    fix x :: "nat \<times> nat" and counts :: "nat list"
    show "yieldsR ((\<lambda>(index, source) counts. thenR (checkpoint G index)
       (bindR (resultR (key_byte (values ! source) pass)) (\<lambda>b.
        retR (counts[unat b := counts ! unat b + 1])))) x counts) ((\<lambda>(index, source). ?g source) x counts)"
      unfolding split_beta
      by (intro yields_then yields_key [where f = "\<lambda>d. counts[d := counts ! d + 1]"] yields_ret)
  qed
  then show ?thesis by (simp add: fold_enumerate bucket_counts_def)
qed

lemma yields_scatter:
  "yieldsR (radix_scatter G key_byte values pass order st) (scatter (\<lambda>i. key_digit key_byte pass (values ! i)) order st)"
proof -
  let ?g = "\<lambda>source (scratch, positions). let bucket = key_digit key_byte pass (values ! source) in
    (scratch[positions ! bucket := source], positions[bucket := positions ! bucket + 1])"
  have "yieldsR (radix_scatter G key_byte values pass order st) (fold (\<lambda>(index, source). ?g source) (enumerate 0 order) st)"
    unfolding radix_scatter_def
  proof (rule yields_fold)
    fix x :: "nat \<times> nat" and a :: "nat list \<times> nat list"
    obtain i source s p where [simp]: "x = (i, source)" "a = (s, p)" by (metis prod.exhaust)
    show "yieldsR ((\<lambda>(index, source) (scratch, positions). thenR (checkpoint G index)
       (bindR (resultR (key_byte (values ! source) pass)) (\<lambda>b. let bucket = unat b in
        retR (scratch[positions ! bucket := source], positions[bucket := positions ! bucket + 1])))) x a)
      ((\<lambda>(index, source). ?g source) x a)"
      unfolding Let_def \<open>x = _\<close> \<open>a = _\<close> prod.case
      by (intro yields_then yields_key [where f = "\<lambda>d. (s[p ! d := source], p[d := p ! d + 1])"] yields_ret)
  qed
  then show ?thesis by (simp add: fold_enumerate scatter_def Let_def)
qed

lemma positions_prefix:
  assumes "length counts = 256" and "n < 256"
  shows "fold (\<lambda>i p. p[i := p ! (i - 1) + counts ! (i - 1)]) [1..<Suc n] (replicate 256 0) =
    map (\<lambda>b. if b \<le> n then sum_list (take b counts) else 0) [0..<256]"
  using assms(2)
proof (induction n)
  case 0
  show ?case by (intro nth_equalityI) auto
next
  case (Suc n)
  have "sum_list (take (Suc n) counts) = sum_list (take n counts) + counts ! n"
    using Suc.prems assms(1) by (simp add: take_Suc_conv_app_nth)
  with Suc show ?case
    by (intro nth_equalityI) (auto simp: nth_list_update)
qed

lemma radix_positions_eq: "length counts = 256 \<Longrightarrow> radix_positions counts = bucket_offsets counts"
  using positions_prefix [of counts 255] by (simp add: radix_positions_def bucket_offsets_def)

lemma yields_pass:
  assumes "length scratch = length order"
  shows "yieldsR (radix_pass G key_byte values pass (order, scratch))
    (sort_key (\<lambda>i. key_digit key_byte pass (values ! i)) order, order)"
proof -
  let ?k = "\<lambda>i. key_digit key_byte pass (values ! i)"
  have len: "length (bucket_counts ?k order) = 256" by (simp add: bucket_counts_eq buckets_def)
  have "fst (scatter ?k order (scratch, radix_positions (bucket_counts ?k order))) = sort_key ?k order"
    unfolding radix_positions_eq [OF len] by (rule scatter_sort) (simp_all add: key_digit_less assms)
  then show ?thesis
    unfolding radix_pass_def
    by (auto intro!: yields_bind [OF yields_counts] yields_bind [OF yields_scatter] simp: split_beta yields_ret)
qed

lemma yields_passes:
  assumes "length scratch = n"
  shows "yieldsR (foldR (radix_pass G key_byte values) [0..<passes] ([0..<n], scratch))
    (sort_key (\<lambda>i. radix_key key_byte passes (values ! i)) [0..<n],
     if passes = 0 then scratch else sort_key (\<lambda>i. radix_key key_byte (passes - 1) (values ! i)) [0..<n])"
  using yields_radix [where f = "radix_pass G key_byte values" and d = "\<lambda>pass i. key_digit key_byte pass (values ! i)"
      and xs = "[0..<n]" and scratch = scratch and n = passes, OF yields_pass key_digit_less] assms
  by (simp only: digit_sum_key length_upt diff_zero)

section \<open>The permutation\<close>

definition flip :: "nat \<Rightarrow> nat \<Rightarrow> nat \<Rightarrow> nat" where
  "flip a b i = (if i = a then b else if i = b then a else i)"

definition permutes_below :: "nat \<Rightarrow> nat list \<Rightarrow> bool" where
  "permutes_below n V \<longleftrightarrow> distinct V \<and> set V = {..<n}"

lemma permutes_length: "permutes_below n V \<Longrightarrow> length V = n"
  by (metis permutes_below_def distinct_card card_lessThan)

lemma permutes_nth: "permutes_below n V \<Longrightarrow> i < n \<Longrightarrow> V ! i < n"
  by (metis permutes_below_def permutes_length lessThan_iff nth_mem)

lemma permutes_inject: "permutes_below n V \<Longrightarrow> i < n \<Longrightarrow> j < n \<Longrightarrow> V ! i = V ! j \<longleftrightarrow> i = j"
  using permutes_length [of n V] by (auto simp: permutes_below_def nth_eq_iff_index_eq)

lemma flip_flip: "flip a b (flip a b i) = i"
  by (simp add: flip_def)

lemma permutes_flip:
  assumes "permutes_below n V" and "a < n" and "b < n"
  shows "permutes_below n (map (flip a b) V)"
proof -
  have "inj (flip a b)" by (metis flip_flip injI)
  moreover have "flip a b ` {..<n} = {..<n}"
  proof (intro equalityI subsetI)
    fix i assume "i \<in> {..<n}"
    then show "i \<in> flip a b ` {..<n}"
      using assms(2,3) by (intro image_eqI [of _ _ "flip a b i"]) (auto simp: flip_def)
  qed (use assms(2,3) in \<open>auto simp: flip_def\<close>)
  ultimately show ?thesis
    using assms(1) by (auto simp: permutes_below_def distinct_map intro: inj_on_subset)
qed

lemma swap_nth:
  assumes "i < length values" and "j < length values" and "k < length values"
  shows "swap values i j ! flip i j k = values ! k"
  using assms by (auto simp: swap_def flip_def nth_list_update)

lemma map_swap:
  assumes "permutes_below (length values) V" and "i < length values" and "j < length values"
  shows "map ((!) (swap values i j)) (map (flip i j) V) = map ((!) values) V"
  using assms swap_nth [OF assms(2,3)] by (auto simp: permutes_below_def)

text \<open>
  Inside a cycle the order still holds \<open>start\<close> where the value that was at the start is wanted, although
  that value has moved to the current slot. \<open>V\<close> is the order with this entry corrected.
\<close>

definition cycle_state :: "nat \<Rightarrow> usize \<Rightarrow> usize \<Rightarrow> nat list \<Rightarrow> usize list \<Rightarrow> bool" where
  "cycle_state n start current V order \<longleftrightarrow> permutes_below n V \<and> start < n \<and> current < n \<and>
     (current = start \<or> V ! start = start) \<and> order = map (\<lambda>s. if s = current then start else s) V"

definition moved :: "nat list \<Rightarrow> nat set" where
  "moved V = {i. i < length V \<and> V ! i \<noteq> i}"

lemma cycle_end:
  assumes "cycle_state n start current V order" and "order ! current = start"
  shows "V ! current = current" and "order[current := current] = V" and "V ! start = start"
proof -
  have p: "permutes_below n V" "start < n" "current < n" "current = start \<or> V ! start = start"
    and order: "order = map (\<lambda>s. if s = current then start else s) V" and n: "length V = n"
    using assms(1) permutes_length by (auto simp: cycle_state_def)
  show c: "V ! current = current"
    using assms(2) p n permutes_inject [OF p(1), of current start] by (auto simp: order split: if_splits)
  show "V ! start = start" using c p(4) by auto
  show "order[current := current] = V"
    using p(3) n permutes_inject [OF p(1) _ p(3)]
    by (intro nth_equalityI) (auto simp: order nth_list_update c)
qed

lemma cycle_step:
  assumes "cycle_state n start current V order" and "order ! current \<noteq> start"
  defines "source \<equiv> order ! current" and "V' \<equiv> map (flip current (order ! current)) V"
  shows "cycle_state n start source V' (order[current := current])" and "source < n" and "moved V' \<subset> moved V"
proof -
  have p: "permutes_below n V" "start < n" "current < n" "current = start \<or> V ! start = start"
    and order: "order = map (\<lambda>s. if s = current then start else s) V" and n: "length V = n"
    using assms(1) permutes_length by (auto simp: cycle_state_def)
  have src: "source = V ! current" "V ! current \<noteq> current"
    using assms(2) p(3) n by (auto simp: source_def order split: if_splits)
  show lt: "source < n" unfolding src(1) by (rule permutes_nth [OF p(1,3)])
  have V': "permutes_below n V'" "length V' = n"
    using permutes_flip [OF p(1,3) lt] n by (simp_all add: V'_def source_def)
  have nth: "V' ! i = flip current source (V ! i)" if "i < n" for i
    using that n by (simp add: V'_def source_def)
  have inj: "V ! i = source \<longleftrightarrow> i = current" if "i < n" for i
    unfolding src(1) by (rule permutes_inject [OF p(1) that p(3)])
  have "V' ! start = start"
    using p inj [OF p(2)] src by (cases "start = current") (auto simp: nth flip_def)
  moreover have "order[current := current] = map (\<lambda>s. if s = source then start else s) V'"
  proof (rule nth_equalityI)
    fix i
    assume "i < length (order[current := current])"
    then have i: "i < n" by (simp add: order n)
    show "order[current := current] ! i = map (\<lambda>s. if s = source then start else s) V' ! i"
    proof (cases "i = current")
      case True
      then show ?thesis using i n V'(2) src by (simp add: order nth flip_def)
    next
      case False
      then show ?thesis using i n V'(2) inj [OF i] by (simp add: order nth flip_def)
    qed
  qed (simp add: order n V'(2))
  ultimately show "cycle_state n start source V' (order[current := current])"
    using V'(1) p(2) lt by (simp add: cycle_state_def)
  have fixed: "V' ! i = i" if "i < n" "V ! i = i" for i
  proof -
    have "i \<noteq> current" "V ! i \<noteq> source" using that src inj [OF that(1)] by auto
    then show ?thesis using that by (simp add: nth flip_def)
  qed
  have "V' ! current = current" using p(3) src by (simp add: nth flip_def)
  then have "current \<in> moved V - moved V'" using p(3) n src(2) by (simp add: moved_def)
  moreover have "moved V' \<subseteq> moved V" using fixed V'(2) n by (auto simp: moved_def)
  ultimately show "moved V' \<subset> moved V" by blast
qed

text \<open>The permutation fails only where the guard refuses.\<close>

definition refused_by :: "'w work_guard \<Rightarrow> provider_error \<Rightarrow> bool" where
  "refused_by G e \<longleftrightarrow> (\<exists>index w w'. checkpoint G index w = (Inl e, w'))"

definition cycle_done :: "nat \<Rightarrow> usize \<Rightarrow> nat list \<Rightarrow> 'a list \<Rightarrow> usize list \<Rightarrow> 'a list \<Rightarrow> bool" where
  "cycle_done n start V values order' values' \<longleftrightarrow> permutes_below n order' \<and> length values' = n \<and>
     map ((!) values') order' = map ((!) values) V \<and> order' ! start = start \<and> (\<forall>i < n. V ! i = i \<longrightarrow> order' ! i = i)"

lemma follow_cycle_returns:
  assumes "cycle_state n start current V order" and "length values = n"
  shows "\<exists>r w'. follow_cycle G start current order values work w = Some (r, w') \<and> (\<forall>e. r = Inl e \<longrightarrow> refused_by G e) \<and>
    (\<forall>order' values' work'. r = Inr (order', values', work') \<longrightarrow> cycle_done n start V values order' values')"
  using assms
proof (induction "card (moved V)" arbitrary: current V order "values" work w rule: less_induct)
  case less
  have V: "permutes_below n V" "current < n" using less.prems(1) by (simp_all add: cycle_state_def)
  show ?case
  proof (cases "order ! current = start")
    case True
    then show ?thesis
      using cycle_end [OF less.prems(1) True] V(1) less.prems(2)
      by (subst follow_cycle.simps) (simp add: cycle_done_def)
  next
    case False
    let ?s = "order ! current" and ?V = "map (flip current (order ! current)) V"
    note step = cycle_step [OF less.prems(1) False]
    obtain c w1 where c: "checkpoint G work w = (c, w1)" by (cases "checkpoint G work w")
    show ?thesis
    proof (cases c)
      case (Inl e)
      then show ?thesis using False c by (subst follow_cycle.simps) (auto simp: refused_by_def)
    next
      case (Inr u)
      have "card (moved ?V) < card (moved V)"
        by (rule psubset_card_mono [OF _ step(3)]) (simp add: moved_def)
      then obtain r w' where r: "follow_cycle G start ?s (order[current := current]) (swap values current ?s) (work + 1) w1 = Some (r, w')"
        "\<forall>e. r = Inl e \<longrightarrow> refused_by G e"
        "\<forall>order' values' work'. r = Inr (order', values', work') \<longrightarrow> cycle_done n start ?V (swap values current ?s) order' values'"
        using less.hyps [OF _ step(1), of "swap values current ?s" "work + 1" w1] less.prems(2)
        by (auto simp: swap_def)
      have "map ((!) (swap values current ?s)) ?V = map ((!) values) V"
        using map_swap [of "values" V current ?s] V step(2) less.prems(2) by simp
      moreover have "?V ! i = i" if "i < n" "V ! i = i" for i
        using that step(3) permutes_length [OF V(1)] by (auto simp: moved_def)
      ultimately have "cycle_done n start ?V (swap values current ?s) o' v' \<Longrightarrow> cycle_done n start V values o' v'" for o' v'
        unfolding cycle_done_def by simp
      with r show ?thesis
        using False c Inr by (subst follow_cycle.simps) auto
    qed
  qed
qed

lemma apply_order_returns:
  assumes "permutes_below n order" and "length values = n" and "\<forall>i < n. i \<notin> set starts \<longrightarrow> order ! i = i" and "set starts \<subseteq> {..<n}"
  shows "\<exists>r w'. apply_order G starts order values work w = Some (r, w') \<and> (\<forall>e. r = Inl e \<longrightarrow> refused_by G e) \<and>
    (\<forall>values'. r = Inr values' \<longrightarrow> values' = map ((!) values) order)"
  using assms
proof (induction starts arbitrary: order "values" work w)
  case Nil
  have "order = [0..<n]"
    using Nil(1,3) permutes_length [OF Nil(1)] by (intro nth_equalityI) simp_all
  then show ?case using Nil(2) map_nth [of "values"] by simp
next
  case (Cons start starts)
  obtain c w1 where c: "checkpoint G work w = (c, w1)" by (cases "checkpoint G work w")
  show ?case
  proof (cases c)
    case (Inl e)
    then show ?thesis using c by (auto simp: refused_by_def)
  next
    case (Inr u)
    have "cycle_state n start start order order"
      using Cons.prems by (simp add: cycle_state_def map_idI)
    from follow_cycle_returns [OF this Cons.prems(2), of G "work + 1" w1]
    obtain r w2 where r: "follow_cycle G start start order values (work + 1) w1 = Some (r, w2)"
      "\<And>o' v' k. r = Inr (o', v', k) \<Longrightarrow> cycle_done n start order values o' v'" "\<And>e. r = Inl e \<Longrightarrow> refused_by G e" by blast
    show ?thesis
    proof (cases r)
      case (Inl e)
      then show ?thesis using c Inr r(1,3) by simp
    next
      case ok: (Inr t)
      obtain o' v' k where t: "t = (o', v', k)" by (cases t)
      have d: "permutes_below n o'" "length v' = n" "map ((!) v') o' = map ((!) values) order" "o' ! start = start"
        "\<And>i. i < n \<Longrightarrow> order ! i = i \<Longrightarrow> o' ! i = i"
        using r(2) ok t by (auto simp: cycle_done_def)
      have "\<forall>i < n. i \<notin> set starts \<longrightarrow> o' ! i = i"
        using d(4,5) Cons.prems(3) by auto
      then show ?thesis
        using Cons.IH [OF d(1,2), of k w2] Cons.prems(4) c Inr r(1) ok t d(3) by simp
    qed
  qed
qed

section \<open>The result\<close>

lemma insort_key_map: "insort_key k (f x) (map f xs) = map f (insort_key (\<lambda>i. k (f i)) x xs)"
  by (induction xs) simp_all

lemma sort_key_map: "sort_key k (map f xs) = map f (sort_key (\<lambda>i. k (f i)) xs)"
  by (induction xs) (simp_all add: insort_key_map)

lemma yields_initial: "yieldsR (initial_order G n) ([0..<n], replicate n 0)"
proof -
  have "yieldsR (initial_order G n) (fold (\<lambda>i (order, scratch). (order @ [i], scratch @ [0])) [0..<n] ([], []))"
    unfolding initial_order_def
    by (rule yields_fold) (auto intro!: yields_then yields_ret split: prod.split)
  moreover have "fold (\<lambda>i (order, scratch). (order @ [i], scratch @ [0])) [0..<n] ([], []) = ([0..<n], replicate n (0 :: nat))"
    by (induction n) (simp_all add: replicate_append_same)
  ultimately show ?thesis by simp
qed

lemma yields_sort_order:
  "yieldsR (sort_order H G key_byte passes values) (sort_key (\<lambda>i. radix_key key_byte passes (values ! i)) [0..<length values])"
  unfolding sort_order_def
  by (intro yields_bind_any yields_bind [OF yields_initial] yields_bind [OF yields_passes]) (simp_all add: yields_ret)

lemma sorted_rows: "map ((!) values) (sort_key (\<lambda>i. k (values ! i)) [0..<length values]) = sort_key k values"
  using sort_key_map [of k "(!) values" "[0..<length values]"] by (simp add: map_nth)

lemma sort_key_short: "length xs < 2 \<Longrightarrow> sort_key k xs = xs"
  by (cases xs rule: remdups_adj.cases) simp_all

lemma sorted_order_permutes: "permutes_below n (sort_key k [0..<n])"
  by (auto simp: permutes_below_def)

lemma apply_sorted_order:
  assumes "order = sort_key (\<lambda>i. k (values ! i)) [0..<length values]"
  shows "\<exists>r w'. apply_order G [0..<length values] order values 0 w = Some (r, w') \<and> (\<forall>e. r = Inl e \<longrightarrow> refused_by G e) \<and>
    (\<forall>values'. r = Inr values' \<longrightarrow> values' = sort_key k values)"
proof -
  have "permutes_below (length values) order" unfolding assms by (rule sorted_order_permutes)
  from apply_order_returns [OF this refl, of "[0..<length values]" G 0 w]
  show ?thesis
    unfolding sorted_rows [of "values" k, folded assms] by (simp add: atLeast0LessThan)
qed

section \<open>Runs that are not refused\<close>

context permissive_guard
begin

lemma ok_checkpoint: "okR (checkpoint G index)"
  using ok_consume by (simp add: checkpoint_def okR_def)

lemma not_refused: "\<not> refused_by G e"
  using okD [OF ok_checkpoint] unfolding refused_by_def by (metis Inl_Inr_False prod.inject)

lemma ok_pass:
  assumes "\<And>v. v \<in> set values \<Longrightarrow> \<exists>b. key_byte v pass = Inr b" and "set order \<subseteq> {..<length values}"
  shows "okR (radix_pass G key_byte values pass (order, scratch))"
proof -
  have key: "okR (bindR (resultR (key_byte (values ! source) pass)) k)"
    if "(index, source) \<in> set (enumerate 0 order)" and "\<And>b. okR (k b)"
    for index source and k :: "u8 \<Rightarrow> ('w, provider_error, 'd) rm"
  proof -
    have "source \<in> set order" using that(1) by (metis enumerate_eq_zip in_set_zipE)
    then obtain b where "key_byte (values ! source) pass = Inr b" using assms by (meson lessThan_iff nth_mem subsetD)
    then show ?thesis using ok_bind [OF ok_result that(2)] by simp
  qed
  have "okR (radix_counts G key_byte values pass order)"
    unfolding radix_counts_def
    by (rule ok_fold) (auto intro!: ok_then ok_checkpoint key ok_ret simp del: retR_apply)
  moreover have "okR (radix_scatter G key_byte values pass order st)" for st
    unfolding radix_scatter_def
    by (rule ok_fold) (auto intro!: ok_then ok_checkpoint key ok_ret simp: Let_def simp del: retR_apply split: prod.split)
  ultimately show ?thesis
    unfolding radix_pass_def by (auto intro!: ok_bind ok_ret simp del: retR_apply split: prod.split)
qed

lemma ok_passes:
  assumes "\<And>v pass. v \<in> set values \<Longrightarrow> pass < passes \<Longrightarrow> \<exists>b. key_byte v pass = Inr b" and "length scratch = length values"
  shows "okR (foldR (radix_pass G key_byte values) [0..<passes] ([0..<length values], scratch))"
  using assms(1)
proof (induction passes)
  case 0
  show ?case by (simp add: foldR_Nil ok_ret del: foldR.simps retR_apply)
next
  case (Suc p)
  then have IH: "okR (foldR (radix_pass G key_byte values) [0..<p] ([0..<length values], scratch))" by simp
  show ?case
    unfolding upt_Suc_append [OF le0] foldR_snoc
    by (rule ok_bind_value [OF IH yields_passes [OF assms(2)]], rule ok_pass) (use Suc.prems in auto)
qed

lemma ok_sort_order:
  assumes "\<And>v pass. v \<in> set values \<Longrightarrow> pass < passes \<Longrightarrow> \<exists>b. key_byte v pass = Inr b"
    and "roomy H" and "length values < 2 ^ 50"
  shows "okR (sort_order H G key_byte passes values)"
proof -
  have vec: "okR (try_vec_with_capacity_in H G T_usize (length values) detail ctx)" for detail ctx
    using ok_reserve_vec_in [OF assms(2,3)] by (simp add: okR_def try_vec_with_capacity_in_def)
  have init: "okR (initial_order G n)" for n
    unfolding initial_order_def
    by (rule ok_fold) (auto intro!: ok_then ok_checkpoint ok_ret simp del: retR_apply split: prod.split)
  show ?thesis
    unfolding sort_order_def
    by (intro ok_bind [OF vec] ok_bind_value [OF init yields_initial] ok_bind [OF ok_passes])
      (use assms(1) in \<open>auto intro: ok_ret simp del: retR_apply\<close>)
qed

lemma ok_radix_sort:
  assumes "\<And>v pass. v \<in> set values \<Longrightarrow> pass < passes \<Longrightarrow> \<exists>b. key_byte v pass = Inr b"
    and "roomy H" and "length values < 2 ^ 50"
  shows "\<exists>w'. guarded_radix_sort H G values passes key_byte w = Some (Inr (sort_key (radix_key key_byte passes) values), w')"
proof -
  obtain w1 where w1: "checkpoint G 0 w = (Inr (), w1)"
    using okD [OF ok_checkpoint] by (metis (full_types) unit.exhaust)
  obtain order w2 where w2: "sort_order H G key_byte passes values w1 = (Inr order, w2)"
    using okD [OF ok_sort_order [of "values" passes key_byte H, OF assms]] by blast
  have "order = sort_key (\<lambda>i. radix_key key_byte passes (values ! i)) [0..<length values]"
    using yieldsD [OF yields_sort_order w2] .
  from apply_sorted_order [OF this, of G w2] obtain w3 where
    "apply_order G [0..<length values] order values 0 w2 = Some (Inr (sort_key (radix_key key_byte passes) values), w3)"
    using not_refused by (metis sum.exhaust)
  then show ?thesis using w1 w2 by (simp add: guarded_radix_sort_def sort_key_short)
qed

end

section \<open>Properties\<close>

text \<open>
  C27. The sort always returns, in particular the loop that permutes the values in place ends, for every
  guard, allocator and key function. When it succeeds, the result is the stable sort of the values by
  the number whose little-endian base-256 digits the key function gives.
\<close>

theorem radix_sort_returns:
  "\<exists>r w'. guarded_radix_sort H G values passes key_byte w = Some (r, w') \<and>
     (\<forall>values'. r = Inr values' \<longrightarrow> values' = sort_key (radix_key key_byte passes) values)"
proof -
  obtain c w1 where c: "checkpoint G 0 w = (c, w1)" by (cases "checkpoint G 0 w")
  obtain x w2 where x: "sort_order H G key_byte passes values w1 = (x, w2)"
    by (cases "sort_order H G key_byte passes values w1")
  consider (refused) e where "c = Inl e" | (short) u where "c = Inr u" "length values < 2"
    | (failed) u e where "c = Inr u" "\<not> length values < 2" "x = Inl e"
    | (sorted) u order where "c = Inr u" "\<not> length values < 2" "x = Inr order"
    by (cases c; cases x; cases "length values < 2") auto
  then show ?thesis
  proof cases
    case sorted
    have "order = sort_key (\<lambda>i. radix_key key_byte passes (values ! i)) [0..<length values]"
      by (rule yieldsD [OF yields_sort_order x [unfolded sorted(3)]])
    from apply_sorted_order [OF this, of G w2] show ?thesis
      by (elim exE conjE) (simp add: guarded_radix_sort_def c x sorted)
  qed (simp_all add: guarded_radix_sort_def c x sort_key_short)
qed

theorem radix_sort_returns_witness:
  "\<exists>r w'. guarded_radix_sort unbounded_host allow_state_work [3 :: u8, 1, 2] 1 (\<lambda>v pass. Inr v) () = Some (r, w') \<and>
     r = Inr [1, 2, 3]"
proof -
  let ?key = "\<lambda>v pass. Inr v :: provider_error + u8"
  have key: "radix_key ?key 1 = unat" by (simp add: radix_key_def key_digit_def fun_eq_iff)
  obtain r w' where r: "guarded_radix_sort unbounded_host allow_state_work [3 :: u8, 1, 2] 1 ?key () = Some (r, w')"
    "\<forall>values'. r = Inr values' \<longrightarrow> values' = sort_key unat [3 :: u8, 1, 2]"
    using radix_sort_returns [of unbounded_host allow_state_work "[3 :: u8, 1, 2]" 1 ?key "()"] unfolding key by blast
  have "\<exists>w'. guarded_radix_sort unbounded_host allow_state_work [3 :: u8, 1, 2] 1 ?key () =
      Some (Inr (sort_key (radix_key ?key 1) [3, 1, 2]), w')"
    by (rule allow_all.ok_radix_sort) (simp_all add: roomy_unbounded_host)
  with r show ?thesis by (auto simp: key)
qed

text \<open>
  C26. Where the guard refuses nothing, the allocator has memory and the keys can be read, the sort
  succeeds: by eight bytes of a 64-bit key it computes the stable sort by that key.
\<close>

theorem radix_sort_by_key:
  fixes key :: "'a \<Rightarrow> u64"
  assumes "permissive_guard G" and "roomy H" and "length values < 2 ^ 50"
  shows "\<exists>w'. guarded_radix_sort H G values 8 (\<lambda>v pass. Inr (to_le_bytes 8 (key v) ! pass)) w =
    Some (Inr (sort_key (\<lambda>v. unat (key v)) values), w')"
proof -
  let ?key = "\<lambda>v pass. Inr (to_le_bytes 8 (key v) ! pass) :: provider_error + u8"
  have "radix_key ?key 8 v = unat (key v)" for v
  proof -
    have "radix_key ?key 8 v = digit_sum (\<lambda>p _. unat (to_le_bytes 8 (key v) ! p)) (length (to_le_bytes 8 (key v))) ()"
      by (simp add: radix_key_def digit_sum_def key_digit_def)
    also have "\<dots> = le_nat (to_le_bytes 8 (key v))" by (rule digit_sum_bytes) simp
    also have "\<dots> = unat (key v)"
      using unat_less_2p [of "key v"] by (simp add: to_le_bytes_def le_nat_le_bytes_nat)
    finally show ?thesis .
  qed
  then have "radix_key ?key 8 = (\<lambda>v. unat (key v))" by blast
  then show ?thesis
    using permissive_guard.ok_radix_sort [OF assms(1) _ assms(2,3), of 8 ?key w] by simp
qed

theorem radix_sort_by_key_witness:
  "\<exists>w'. guarded_radix_sort unbounded_host allow_state_work [3 :: u64, 1, 2] 8 (\<lambda>v pass. Inr (to_le_bytes 8 v ! pass)) () =
     Some (Inr [1, 2, 3], w')"
proof -
  have "sort_key unat [3 :: u64, 1, 2] = [1, 2, 3]" by simp
  then show ?thesis
    using radix_sort_by_key [OF allow_all.permissive_guard_axioms roomy_unbounded_host, of "[3 :: u64, 1, 2]" "\<lambda>v. v" "()"]
    by simp
qed

end
