(* ===== verification/Store_Error.thy ===== *)
theory Store_Error
  imports Qtrace_Loops
begin

text \<open>
  Errors and guarded allocation of the store (\<open>qtrace-store/src/index/mod.rs\<close>, \<open>cache/mod.rs\<close> and
  \<open>allocation.rs\<close>). The store has allocation helpers of its own, with their own error type, on the same
  guard and the same host as those of the provider.
\<close>

section \<open>Errors\<close>

datatype publication_state = NoVisibleFinal | VisibleDurabilityUncertain

datatype cache_error_detail = CacheMessage string | CacheAbort operation_abort

record cache_error =
  ce_code :: string
  ce_detail :: cache_error_detail
  ce_publication_state :: publication_state

datatype index_error =
    IndexMessage (ix_code: string) (ix_detail: string)
  | IndexProvider provider_error
  | IndexCache cache_error
  | IndexAbort operation_abort

definition cache_operation_abort :: "cache_error \<Rightarrow> operation_abort option" where
  "cache_operation_abort e = (case ce_detail e of CacheAbort abort \<Rightarrow> Some abort | CacheMessage _ \<Rightarrow> None)"

definition index_code :: "index_error \<Rightarrow> string" where
  "index_code e = (case e of
       IndexMessage code _ \<Rightarrow> code
     | IndexProvider error \<Rightarrow> if pe_code error = ''control.cancelled'' then ''job.cancelled'' else pe_code error
     | IndexCache error \<Rightarrow> ce_code error
     | IndexAbort Cancelled \<Rightarrow> ''job.cancelled''
     | IndexAbort (BudgetExceeded _ _ _) \<Rightarrow> ''control.budget_exceeded'')"

definition index_operation_abort :: "index_error \<Rightarrow> operation_abort option" where
  "index_operation_abort e = (case e of
       IndexAbort abort \<Rightarrow> Some abort
     | IndexCache error \<Rightarrow> cache_operation_abort error
     | IndexProvider error \<Rightarrow> error_operation_abort error
     | IndexMessage _ _ \<Rightarrow> None)"

definition index_invalid :: "string \<Rightarrow> index_error" where
  "index_invalid detail = IndexMessage ''index.invalid'' detail"

definition index_corrupt :: "string \<Rightarrow> index_error" where
  "index_corrupt detail = IndexMessage ''cache.normalized_corrupt'' detail"

definition index_resource :: "string \<Rightarrow> index_error" where
  "index_resource detail = IndexMessage ''control.resource_exhausted'' detail"

definition index_duplicate_key :: "string \<Rightarrow> index_error" where
  "index_duplicate_key detail = IndexMessage ''index.duplicate_source_key'' detail"

section \<open>Allocation\<close>

datatype allocation_failure = AllocationAborted operation_abort | AllocationOverflow string | AllocationFailed string

definition index_of_failure :: "allocation_failure \<Rightarrow> index_error" where
  "index_of_failure e = (case e of
       AllocationAborted abort \<Rightarrow> IndexAbort abort
     | AllocationOverflow detail \<Rightarrow> index_resource detail
     | AllocationFailed detail \<Rightarrow> index_resource detail)"

definition store_array_bytes :: "'w host \<Rightarrow> rust_type \<Rightarrow> usize \<Rightarrow> allocation_failure + u64" where
  "store_array_bytes H T n = (case checked_mul_usize n (size_of H T) of
       Some bytes \<Rightarrow> Inr (word_of_nat bytes) | None \<Rightarrow> Inl (AllocationOverflow ''allocation byte count''))"

definition store_geometric_capacity :: "usize \<Rightarrow> usize \<Rightarrow> usize \<Rightarrow> string \<Rightarrow> allocation_failure + usize" where
  "store_geometric_capacity current required minimum label = (case checked_mul_usize current 2 of
       Some doubled \<Rightarrow> Inr (max required (max minimum doubled)) | None \<Rightarrow> Inl (AllocationOverflow label))"

definition store_scope ::
  "'w work_guard \<Rightarrow> u64 \<Rightarrow> u64 \<Rightarrow> ('w, allocation_failure, 'a) rm \<Rightarrow> ('w, allocation_failure, 'a) rm" where
  "store_scope G resident_bytes allowed_slack body =
     bindR (mapErrR AllocationAborted (allocation_scope_begin G resident_bytes allowed_slack))
       (\<lambda>_ w. case body w of (r, w') \<Rightarrow> (r, allocation_scope_drop G w'))"

text \<open>The length and the capacity of the vector go in, its new capacity comes out.\<close>

definition store_reserve_vec ::
  "'w host \<Rightarrow> 'w work_guard \<Rightarrow> rust_type \<Rightarrow> usize \<Rightarrow> usize \<Rightarrow> usize \<Rightarrow> string \<Rightarrow> ('w, allocation_failure, usize) rm" where
  "store_reserve_vec H G T len cap additional label =
     bindR (optionR (AllocationOverflow label) (checked_add_usize len additional)) (\<lambda>required.
     if required \<le> cap then retR cap
     else
       bindR (resultR (store_geometric_capacity cap required 4 label)) (\<lambda>new_capacity.
       bindR (resultR (store_array_bytes H T new_capacity)) (\<lambda>bytes.
       store_scope G bytes 0
         (\<lambda>w. case try_reserve H (new_capacity * size_of H T) w of
            (ok, w') \<Rightarrow> (if ok then Inr (granted_capacity H T new_capacity) else Inl (AllocationFailed label), w')))))"

text \<open>The same, where the caller returns \<open>IndexError\<close>.\<close>

definition index_reserve ::
  "'w host \<Rightarrow> 'w work_guard \<Rightarrow> rust_type \<Rightarrow> usize \<Rightarrow> usize \<Rightarrow> usize \<Rightarrow> string \<Rightarrow> ('w, index_error, usize) rm" where
  "index_reserve H G T len cap additional label = mapErrR index_of_failure (store_reserve_vec H G T len cap additional label)"

definition index_consume :: "'w work_guard \<Rightarrow> work_delta \<Rightarrow> ('w, index_error, unit) rm" where
  "index_consume G delta = mapErrR IndexAbort (wg_consume G delta)"

definition consume_row_work :: "'w work_guard \<Rightarrow> usize \<Rightarrow> ('w, index_error, unit) rm" where
  "consume_row_work G rows =
     index_consume G (work_default\<lparr>wd_rows := (case u64_try_from rows of Some n \<Rightarrow> n | None \<Rightarrow> u64_max)\<rparr>)"

text \<open>Loops ask the guard at every 4096th index.\<close>

definition index_checkpoint :: "'w work_guard \<Rightarrow> usize \<Rightarrow> ('w, index_error, unit) rm" where
  "index_checkpoint G index = (if index mod 4096 = 0 then index_consume G work_default else retR ())"

section \<open>Guards that never refuse\<close>

text \<open>A vector grown by \<open>try_reserve_exact\<close> gets the capacity it asks for.\<close>

definition exact_capacity :: "'w host \<Rightarrow> bool" where
  "exact_capacity H \<longleftrightarrow> (\<forall>T n. granted_capacity H T n = n)"

lemma exact_unbounded_host: "exact_capacity unbounded_host"
  by (simp add: exact_capacity_def unbounded_host_def)

context permissive_guard
begin

lemma ok_index_consume: "okR (index_consume G d)"
proof -
  have "\<exists>w'. wg_consume G d w = (Inr (), w')" for w by (metis consume_ok prod.collapse)
  then show ?thesis by (simp add: index_consume_def okR_def)
qed

lemma ok_row_work: "okR (consume_row_work G n)"
  unfolding consume_row_work_def by (rule ok_index_consume)

lemma ok_index_checkpoint: "okR (index_checkpoint G i)"
  unfolding index_checkpoint_def using ok_index_consume ok_ret by (auto simp del: retR_apply)

lemma ok_store_scope:
  assumes "\<And>w. \<exists>x w'. body w = (Inr x, w')"
  shows "okR (store_scope G b sl body)"
  unfolding okR_def
proof
  fix w
  obtain w1 where w1: "wg_begin_allocation_scope G (work_default\<lparr>wd_resident_bytes := b\<rparr>) sl w = (Inr (), w1)"
    by (metis scope_ok prod.collapse)
  obtain x w2 where "body w1 = (Inr x, w2)" using assms by blast
  then show "\<exists>y t. store_scope G b sl body w = (Inr y, t)"
    by (simp add: store_scope_def allocation_scope_begin_def allocation_scope_begin_with_delta_def mapErrR_def bindR_def w1)
qed

lemma ok_store_reserve:
  assumes "roomy H" and "cap < 2 ^ 49" and "len + additional < 2 ^ 50"
  shows "okR (store_reserve_vec H G T len cap additional label)"
proof -
  let ?n = "max (len + additional) (max 4 (cap * 2))"
  have "?n * size_of H T \<le> ?n * 4096" using assms(1) by (simp add: roomy_def)
  also have "\<dots> < usize_limit" using assms by (simp add: usize_limit_def)
  finally obtain b where bytes: "store_array_bytes H T ?n = Inr b"
    by (simp add: store_array_bytes_def checked_mul_usize_def)
  have capacity: "store_geometric_capacity cap (len + additional) 4 label = Inr ?n"
    using assms(2) by (simp add: store_geometric_capacity_def checked_mul_usize_def usize_limit_def)
  have required: "checked_add_usize len additional = Some (len + additional)"
    using assms(3) by (simp add: usize_limit_def)
  have "\<exists>x w'. (case try_reserve H k w of
      (ok, w') \<Rightarrow> (if ok then Inr (c :: nat) else Inl (AllocationFailed label), w')) = (Inr x, w')" for k w c
    using assms(1) by (auto simp: try_reserve_def roomy_def split: prod.split) (metis fst_conv)
  then have "okR (if len + additional \<le> cap then retR cap
      else bindR (resultR (store_geometric_capacity cap (len + additional) 4 label)) (\<lambda>n.
        bindR (resultR (store_array_bytes H T n)) (\<lambda>bytes. store_scope G bytes 0 (\<lambda>w. case try_reserve H (n * size_of H T) w of
          (ok, w') \<Rightarrow> (if ok then Inr (granted_capacity H T n) else Inl (AllocationFailed label), w')))))"
    unfolding capacity
    by (auto simp: bytes simp del: retR_apply intro!: ok_ret ok_store_scope ok_bind_value [OF ok_result yields_result])
  then show ?thesis
    by (simp add: store_reserve_vec_def required optionR_def del: retR_apply)
qed

lemma ok_index_reserve:
  assumes "roomy H" and "cap < 2 ^ 49" and "len + additional < 2 ^ 50"
  shows "okR (index_reserve H G T len cap additional label)"
  unfolding index_reserve_def by (intro ok_mapErr ok_store_reserve assms)

end

lemma store_scope_Inr: "store_scope G b sl body w = (Inr x, w') \<Longrightarrow> \<exists>w1 w2. body w1 = (Inr x, w2)"
  unfolding store_scope_def bindR_Inr by (metis (no_types, lifting) prod.case prod.collapse prod.inject)

lemma store_reserve_capacity:
  assumes "store_reserve_vec H G T len cap additional label w = (Inr c, w')" and "exact_capacity H"
  shows "c = (if len + additional \<le> cap then cap else max (len + additional) (max 4 (cap * 2)))"
  using assms
  by (auto simp: store_reserve_vec_def bindR_Inr exact_capacity_def store_geometric_capacity_def store_array_bytes_def
      dest!: store_scope_Inr split: if_splits option.splits prod.splits)

end
