(* ===== verification/Store_Postings.thy ===== *)
theory Store_Postings
  imports Store_Error
begin

text \<open>
  Posting lists of the index (\<open>qtrace-store/src/index/postings.rs\<close>): increasing row numbers as runs of
  equal distances, and the set operations on decoded rows.
\<close>

section \<open>Posting lists\<close>

record delta_run =
  dr_delta :: u64
  dr_count :: u64

record posting_list =
  pl_runs :: "delta_run rust_vec"
  pl_row_count :: usize

definition posting_default :: posting_list where
  "posting_default = \<lparr>pl_runs = \<lparr>rv_items = [], rv_capacity = 0\<rparr>, pl_row_count = 0\<rparr>"

text \<open>The loop of \<open>from_runs\<close> with the distance of the run before.\<close>

fun from_runs_loop :: "u64 option \<Rightarrow> usize \<Rightarrow> delta_run list \<Rightarrow> index_error + usize" where
  "from_runs_loop previous row_count [] = Inr row_count"
| "from_runs_loop previous row_count (run # runs) =
     (if dr_delta run = 0 \<or> dr_count run = 0 then Inl (index_corrupt ''posting run contains zero'')
      else if previous = Some (dr_delta run) then Inl (index_corrupt ''posting runs are not canonical'')
      else case checked_add_usize row_count (unat (dr_count run)) of
        None \<Rightarrow> Inl (index_corrupt ''posting row count overflow'')
      | Some n \<Rightarrow> from_runs_loop (Some (dr_delta run)) n runs)"

definition from_runs :: "delta_run rust_vec \<Rightarrow> index_error + posting_list" where
  "from_runs runs = (case from_runs_loop None 0 (rv_items runs) of
     Inl e \<Rightarrow> Inl e | Inr row_count \<Rightarrow> Inr \<lparr>pl_runs = runs, pl_row_count = row_count\<rparr>)"

definition posting_delta :: "u64 \<Rightarrow> u64 option \<Rightarrow> index_error + u64" where
  "posting_delta row previous = (case previous of
       None \<Rightarrow> (case checked_add row 1 of None \<Rightarrow> Inl (index_invalid ''first posting delta overflow'') | Some d \<Rightarrow> Inr d)
     | Some last_row \<Rightarrow> if last_row < row then Inr (row - last_row)
         else Inl (index_invalid ''posting rows must be strictly increasing''))"

definition push_delta :: "'w host \<Rightarrow> 'w work_guard \<Rightarrow> delta_run rust_vec \<Rightarrow> u64 \<Rightarrow> ('w, index_error, delta_run rust_vec) rm" where
  "push_delta H G runs delta =
     (if rv_items runs \<noteq> [] \<and> dr_delta (last (rv_items runs)) = delta
      then bindR (optionR (index_resource ''posting run overflow'') (checked_add (dr_count (last (rv_items runs))) 1)) (\<lambda>n.
           retR (runs\<lparr>rv_items := butlast (rv_items runs) @ [(last (rv_items runs))\<lparr>dr_count := n\<rparr>]\<rparr>))
      else bindR (index_reserve H G T_DeltaRun (length (rv_items runs)) (rv_capacity runs) 1 ''posting-run allocation'') (\<lambda>cap.
           retR \<lparr>rv_items = rv_items runs @ [\<lparr>dr_delta = delta, dr_count = 1\<rparr>], rv_capacity = cap\<rparr>))"

definition push_row ::
  "'w host \<Rightarrow> 'w work_guard \<Rightarrow> usize \<Rightarrow> posting_list \<times> u64 option \<Rightarrow> ('w, index_error, posting_list \<times> u64 option) rm" where
  "push_row H G row = (\<lambda>(posting, previous).
     bindR (optionR (index_invalid ''posting row does not fit u64'') (u64_try_from row)) (\<lambda>row.
     bindR (resultR (posting_delta row previous)) (\<lambda>delta.
     bindR (optionR (index_resource ''posting row count overflow'') (checked_add_usize (pl_row_count posting) 1)) (\<lambda>n.
     bindR (push_delta H G (pl_runs posting) delta) (\<lambda>runs.
     retR (\<lparr>pl_runs = runs, pl_row_count = n\<rparr>, Some row))))))"

definition from_rows :: "'w host \<Rightarrow> 'w work_guard \<Rightarrow> usize list \<Rightarrow> ('w, index_error, posting_list) rm" where
  "from_rows H G rows =
     bindR (foldR (\<lambda>(index, row) st. thenR (index_checkpoint G index) (push_row H G row st))
       (enumerate 0 rows) (posting_default, None)) (\<lambda>(posting, previous). retR posting)"

definition visit_deltas :: "posting_list \<Rightarrow> (u64 \<Rightarrow> 'a \<Rightarrow> ('s, 'e, 'a) rm) \<Rightarrow> 'a \<Rightarrow> ('s, 'e, 'a) rm" where
  "visit_deltas posting visit =
     foldR (\<lambda>run. foldR (\<lambda>_. visit (dr_delta run)) [0..<unat (dr_count run)]) (rv_items (pl_runs posting))"

definition decode_delta :: "u64 \<Rightarrow> usize list \<Rightarrow> ('w, index_error, usize list) rm" where
  "decode_delta delta rows =
     bindR (if rows = []
        then optionR (index_corrupt ''first posting delta underflow'') (if 1 \<le> delta then Some (delta - 1) else None)
        else optionR (index_corrupt ''posting delta overflow'') (checked_add (word_of_nat (last rows)) delta)) (\<lambda>row.
     retR (rows @ [unat row]))"

definition posting_rows :: "'w host \<Rightarrow> posting_list \<Rightarrow> ('w, index_error, usize list) rm" where
  "posting_rows H posting =
     bindR (\<lambda>w. case try_reserve H (pl_row_count posting * size_of H T_usize) w of
        (ok, w') \<Rightarrow> (if ok then Inr () else Inl (index_resource ''posting decode allocation failed''), w')) (\<lambda>_.
     visit_deltas posting decode_delta [])"

section \<open>Rows\<close>

definition union_rows :: "usize list list \<Rightarrow> usize list" where
  "union_rows inputs = remdups_adj (sort (concat inputs))"

function intersect_loop :: "usize list \<Rightarrow> usize list \<Rightarrow> usize \<Rightarrow> usize \<Rightarrow> usize list \<Rightarrow> usize list" where
  "intersect_loop left right left_index right_index output =
     (if left_index < length left \<and> right_index < length right
      then if left ! left_index < right ! right_index then intersect_loop left right (left_index + 1) right_index output
        else if right ! right_index < left ! left_index then intersect_loop left right left_index (right_index + 1) output
        else intersect_loop left right (left_index + 1) (right_index + 1) (output @ [left ! left_index])
      else output)"
  by pat_completeness auto
termination
  by (relation "measure (\<lambda>(left, right, i, j, output). (length left - i) + (length right - j))") auto

declare intersect_loop.simps [simp del]

definition intersect_rows :: "usize list \<Rightarrow> usize list \<Rightarrow> usize list" where
  "intersect_rows left right = intersect_loop left right 0 0 []"

section \<open>What the runs stand for\<close>

text \<open>The distances of a list of rows, measured from \<open>base\<close>: one more than the row before, or zero.\<close>

fun gaps :: "nat \<Rightarrow> usize list \<Rightarrow> nat list" where
  "gaps base [] = []"
| "gaps base (row # rows) = (Suc row - base) # gaps (Suc row) rows"

definition expand :: "delta_run list \<Rightarrow> u64 list" where
  "expand runs = concat (map (\<lambda>run. replicate (unat (dr_count run)) (dr_delta run)) runs)"

definition base_of :: "u64 option \<Rightarrow> nat" where
  "base_of previous = (case previous of None \<Rightarrow> 0 | Some row \<Rightarrow> Suc (unat row))"

fun canonical_runs :: "delta_run list \<Rightarrow> bool" where
  "canonical_runs [] \<longleftrightarrow> True"
| "canonical_runs [run] \<longleftrightarrow> dr_delta run \<noteq> 0 \<and> dr_count run \<noteq> 0"
| "canonical_runs (run # next_run # runs) \<longleftrightarrow> dr_delta run \<noteq> 0 \<and> dr_count run \<noteq> 0 \<and> dr_delta run \<noteq> dr_delta next_run \<and>
     canonical_runs (next_run # runs)"

lemma gaps_append: "gaps base (xs @ [y]) = gaps base xs @ [Suc y - (if xs = [] then base else Suc (last xs))]"
  by (induction xs arbitrary: base) auto

lemma expand_snoc: "expand (runs @ [run]) = expand runs @ replicate (unat (dr_count run)) (dr_delta run)"
  by (simp add: expand_def)

lemma canonical_snoc:
  "canonical_runs (runs @ [run]) \<longleftrightarrow> canonical_runs runs \<and> dr_delta run \<noteq> 0 \<and> dr_count run \<noteq> 0 \<and>
     (runs \<noteq> [] \<longrightarrow> dr_delta (last runs) \<noteq> dr_delta run)"
  by (induction runs rule: canonical_runs.induct) auto

lemma from_runs_loop_ok:
  assumes "canonical_runs runs" and "previous \<noteq> None \<longrightarrow> runs \<noteq> [] \<longrightarrow> previous \<noteq> Some (dr_delta (hd runs))"
    and "n + length (expand runs) < usize_limit"
  shows "from_runs_loop previous n runs = Inr (n + length (expand runs))"
  using assms
proof (induction runs arbitrary: previous n rule: canonical_runs.induct)
  case (3 run next_run runs)
  have "n + unat (dr_count run) < usize_limit" using "3.prems"(3) by (simp add: expand_def)
  moreover have "from_runs_loop (Some (dr_delta run)) (n + unat (dr_count run)) (next_run # runs) =
      Inr (n + unat (dr_count run) + length (expand (next_run # runs)))"
    by (rule "3.IH") (use "3.prems" in \<open>simp_all add: expand_def\<close>)
  ultimately show ?case
    using "3.prems" by (auto simp: expand_def checked_add_usize_def)
qed (auto simp: expand_def checked_add_usize_def)

section \<open>Encoding\<close>

lemma checked_add_unat: "checked_add a b = Some c \<Longrightarrow> unat c = unat a + unat b"
  unfolding checked_add_Some by blast

text \<open>What holds after the rows \<open>done_rows\<close> have been pushed.\<close>

definition encoded :: "usize list \<Rightarrow> posting_list \<times> u64 option \<Rightarrow> bool" where
  "encoded done_rows st \<longleftrightarrow> (let runs = rv_items (pl_runs (fst st)) in
     sorted_wrt (<) done_rows \<and> map unat (expand runs) = gaps 0 done_rows \<and> canonical_runs runs \<and>
     pl_row_count (fst st) = length done_rows \<and> length done_rows < usize_limit \<and>
     snd st = (if done_rows = [] then None else Some (word_of_nat (last done_rows))) \<and>
     (\<forall>row \<in> set done_rows. row < usize_limit))"

lemma posting_delta_Inr:
  assumes "posting_delta row previous = Inr d"
  shows "unat d = Suc (unat row) - base_of previous" and "base_of previous \<le> unat row" and "d \<noteq> 0"
proof -
  have "unat d = Suc (unat row) - base_of previous \<and> base_of previous \<le> unat row"
  proof (cases previous)
    case None
    then have "checked_add row 1 = Some d" using assms by (auto simp: posting_delta_def split: option.splits)
    from checked_add_unat [OF this] show ?thesis using None by (simp add: base_of_def)
  next
    case (Some l)
    then have d: "l < row" "d = row - l" using assms by (auto simp: posting_delta_def split: if_splits)
    then have "unat d = unat row - unat l" using unat_sub [of l row] by simp
    then show ?thesis using Some d(1) by (simp add: base_of_def word_less_nat_alt)
  qed
  then show "unat d = Suc (unat row) - base_of previous" and "base_of previous \<le> unat row" and "d \<noteq> 0" by auto
qed

lemma push_delta_Inr:
  assumes "push_delta H G runs d w = (Inr runs', w')" and "canonical_runs (rv_items runs)" and "d \<noteq> 0"
  shows "expand (rv_items runs') = expand (rv_items runs) @ [d] \<and> canonical_runs (rv_items runs')"
proof (cases "rv_items runs \<noteq> [] \<and> dr_delta (last (rv_items runs)) = d")
  case True
  then obtain rs run where r: "rv_items runs = rs @ [run]" "dr_delta run = d" by (metis append_butlast_last_id)
  then obtain n where n: "checked_add (dr_count run) 1 = Some n" and runs': "rv_items runs' = rs @ [run\<lparr>dr_count := n\<rparr>]"
    using assms(1) True by (auto simp: push_delta_def bindR_Inr)
  have "unat n = Suc (unat (dr_count run))" using checked_add_unat [OF n] by simp
  moreover from this have "n \<noteq> 0" by auto
  ultimately show ?thesis
    using assms(2) by (simp add: r runs' expand_snoc canonical_snoc replicate_append_same)
next
  case False
  then obtain c where "rv_items runs' = rv_items runs @ [\<lparr>dr_delta = d, dr_count = 1\<rparr>]"
    using assms(1) by (auto simp: push_delta_def bindR_Inr)
  then show ?thesis
    using assms(2,3) False by (auto simp: expand_snoc canonical_snoc)
qed

lemma push_row_encoded:
  assumes "push_row H G row st w = (Inr st', w')" and "encoded ys st"
  shows "encoded (ys @ [row]) st'"
proof -
  obtain posting previous where st: "st = (posting, previous)" by (cases st)
  obtain d n runs w1 w2 where row: "row < usize_limit" and d: "posting_delta (word_of_nat row) previous = Inr d"
    and n: "n = Suc (pl_row_count posting)" "n < usize_limit"
    and runs: "push_delta H G (pl_runs posting) d w1 = (Inr runs, w2)"
    and st': "st' = (\<lparr>pl_runs = runs, pl_row_count = n\<rparr>, Some (word_of_nat row))"
    using assms(1) by (auto simp: st push_row_def bindR_Inr u64_try_from_def split: if_splits)
  have enc: "sorted_wrt (<) ys" "map unat (expand (rv_items (pl_runs posting))) = gaps 0 ys"
    "canonical_runs (rv_items (pl_runs posting))" "pl_row_count posting = length ys"
    "previous = (if ys = [] then None else Some (word_of_nat (last ys)))" "\<forall>row \<in> set ys. row < usize_limit"
    using assms(2) by (simp_all add: encoded_def st Let_def)
  have unat: "unat (word_of_nat k :: u64) = k" if "k < usize_limit" for k
    using that by (simp add: usize_limit_eq unat_of_nat)
  have base: "base_of previous = (if ys = [] then 0 else Suc (last ys))"
    using enc(5,6) by (auto simp: base_of_def unat)
  have "last ys < row" if "ys \<noteq> []"
    using posting_delta_Inr(2) [OF d] that by (simp add: unat [OF row] base)
  then have "sorted_wrt (<) (ys @ [row])"
    using enc(1) by (cases ys rule: rev_cases) (auto simp: sorted_wrt_append)
  moreover have "map unat (expand (rv_items runs)) = gaps 0 (ys @ [row])"
    using push_delta_Inr [OF runs enc(3) posting_delta_Inr(3) [OF d]] enc(2) posting_delta_Inr(1) [OF d]
    by (simp add: gaps_append unat [OF row] base)
  ultimately show ?thesis
    using push_delta_Inr [OF runs enc(3) posting_delta_Inr(3) [OF d]] n row enc(4,6)
    by (auto simp: encoded_def st' Let_def)
qed

lemma push_rows_encoded:
  assumes "foldR (\<lambda>(index, row) st. thenR (index_checkpoint G index) (push_row H G row st)) (enumerate k xs) st w = (Inr st', w')"
    and "encoded ys st"
  shows "encoded (ys @ xs) st'"
  using assms
proof (induction xs arbitrary: k ys st w)
  case (Cons x xs)
  then obtain st1 u v where push: "push_row H G x st u = (Inr st1, v)"
    and rest: "foldR (\<lambda>(index, row) st. thenR (index_checkpoint G index) (push_row H G row st)) (enumerate (Suc k) xs) st1 v = (Inr st', w')"
    by (auto simp: bindR_Inr thenR_Inr)
  show ?case using Cons.IH [OF rest push_row_encoded [OF push Cons.prems(2)]] by simp
qed simp

lemma from_rows_encoded:
  assumes "from_rows H G rows w = (Inr posting, w')"
  shows "\<exists>previous. encoded rows (posting, previous)"
proof -
  obtain st u where st: "foldR (\<lambda>(index, row) st. thenR (index_checkpoint G index) (push_row H G row st))
      (enumerate 0 rows) (posting_default, None) w = (Inr st, u)" and p: "posting = fst st"
    using assms unfolding from_rows_def by (elim bindR_okE) (simp split: prod.splits)
  have "encoded [] (posting_default, None)"
    by (simp add: encoded_def posting_default_def expand_def usize_limit_def)
  from push_rows_encoded [OF st this] show ?thesis by (cases st) (auto simp: p)
qed

section \<open>Decoding\<close>

lemma visit_deltas_expand: "visit_deltas posting visit = foldR visit (expand (rv_items (pl_runs posting)))"
proof -
  have "foldR (\<lambda>run. foldR (\<lambda>_. visit (dr_delta run)) [0..<unat (dr_count run)]) runs = foldR visit (expand runs)" for runs
    by (induction runs)
      (simp_all add: expand_def foldR_constant foldR_Nil foldR_Cons foldR_append fun_eq_iff [of "foldR visit (_ @ _)"] del: foldR.simps retR_apply)
  then show ?thesis by (simp add: visit_deltas_def)
qed

text \<open>Decoding the distances of rows gives the rows back.\<close>

lemma decode_gaps:
  assumes "map unat ds = gaps (if ys = [] then 0 else Suc (last ys)) rows" and "sorted_wrt (<) (ys @ rows)"
    and "\<forall>row \<in> set (ys @ rows). row < usize_limit"
  shows "foldR decode_delta ds ys w = (Inr (ys @ rows), w)"
  using assms
proof (induction rows arbitrary: ds ys)
  case (Cons row rows)
  obtain d ds' where ds: "ds = d # ds'" "unat d = Suc row - (if ys = [] then 0 else Suc (last ys))"
    "map unat ds' = gaps (Suc row) rows"
    using Cons.prems(1) by (cases ds) auto
  have lim: "row < 2 ^ 64" using Cons.prems(3) by (simp add: usize_limit_eq)
  have "decode_delta d ys w = (Inr (ys @ [row]), w)"
  proof (cases "ys = []")
    case True
    then have d: "unat d = Suc row" using ds(2) by simp
    then have "1 \<le> d" by (simp add: word_le_nat_alt)
    then have "unat (d - 1) = row" using d by (simp add: unat_sub)
    then show ?thesis using True \<open>1 \<le> d\<close> by (simp add: decode_delta_def optionR_def)
  next
    case False
    let ?p = "last ys"
    have less: "?p < row" using Cons.prems(2) False by (auto simp: sorted_wrt_append)
    have p: "unat (word_of_nat ?p :: u64) = ?p" using less lim by (simp add: unat_of_nat)
    have d: "unat d = row - ?p" using ds(2) False by simp
    then have sum: "checked_add (word_of_nat ?p) d = Some (word_of_nat ?p + d)"
      using less lim by (simp add: checked_add_def p)
    then have "unat (word_of_nat ?p + d) = row" using less d by (simp add: checked_add_Some p)
    then show ?thesis using False sum by (simp add: decode_delta_def optionR_def)
  qed
  moreover have "foldR decode_delta ds' (ys @ [row]) w = (Inr ((ys @ [row]) @ rows), w)"
    by (rule Cons.IH) (use Cons.prems ds(3) in simp_all)
  ultimately show ?case by (simp add: ds(1) bindR_step)
qed simp

lemma posting_rows_decode:
  assumes "encoded rows (posting, previous)" and "try_reserve H (pl_row_count posting * size_of H T_usize) w = (True, w')"
  shows "posting_rows H posting w = (Inr rows, w')"
proof -
  have "foldR decode_delta (expand (rv_items (pl_runs posting))) [] w' = (Inr ([] @ rows), w')"
    by (rule decode_gaps) (use assms(1) in \<open>simp_all add: encoded_def Let_def\<close>)
  then show ?thesis using assms(2) by (simp add: posting_rows_def bindR_def visit_deltas_expand)
qed

section \<open>Set operations\<close>

lemma increasing_drop:
  assumes "sorted_wrt (<) xs" and "i < length xs" and "x \<in> set (drop (Suc i) xs)"
  shows "xs ! i < x"
  using assms by (metis Cons_nth_drop_Suc id_take_nth_drop list.simps(15) sorted_wrt.simps(2) sorted_wrt_append append_take_drop_id)

lemma intersect_loop_eq:
  assumes "sorted_wrt (<) xs" and "sorted_wrt (<) ys"
  shows "intersect_loop xs ys i j acc = acc @ filter (\<lambda>x. x \<in> set (drop j ys)) (drop i xs)"
  using assms
proof (induction xs ys i j acc rule: intersect_loop.induct)
  case (1 xs ys i j acc)
  show ?case
  proof (cases "i < length xs \<and> j < length ys")
    case False
    then show ?thesis by (subst intersect_loop.simps) auto
  next
    case True
    let ?x = "xs ! i" and ?y = "ys ! j"
    have dx: "drop i xs = ?x # drop (Suc i) xs" and dy: "drop j ys = ?y # drop (Suc j) ys"
      using True by (simp_all add: Cons_nth_drop_Suc)
    have gx: "\<And>x. x \<in> set (drop (Suc i) xs) \<Longrightarrow> ?x < x" and gy: "\<And>y. y \<in> set (drop (Suc j) ys) \<Longrightarrow> ?y < y"
      using True "1.prems" by (auto intro: increasing_drop)
    consider "?x < ?y" | "?y < ?x" | "?x = ?y" by linarith
    then show ?thesis
    proof cases
      case 1
      then have "?x \<notin> set (drop j ys)" using gy by (fastforce simp: dy)
      then show ?thesis using True 1 "1.IH"(1) "1.prems" by (subst intersect_loop.simps) (simp add: dx)
    next
      case 2
      then have "filter (\<lambda>x. x \<in> set (drop j ys)) (drop i xs) = filter (\<lambda>x. x \<in> set (drop (Suc j) ys)) (drop i xs)"
        using gx by (intro filter_cong) (fastforce simp: dx dy)+
      then show ?thesis using True 2 "1.IH"(2) "1.prems" by (subst intersect_loop.simps) simp
    next
      case 3
      then have "filter (\<lambda>x. x \<in> set (drop j ys)) (drop (Suc i) xs) = filter (\<lambda>x. x \<in> set (drop (Suc j) ys)) (drop (Suc i) xs)"
        using gx by (intro filter_cong) (fastforce simp: dy)+
      then show ?thesis using True 3 "1.IH"(3) "1.prems" by (subst intersect_loop.simps) (simp add: dx dy)
    qed
  qed
qed

lemma distinct_remdups_sorted: "sorted xs \<Longrightarrow> distinct (remdups_adj (xs :: usize list))"
  by (induction xs rule: remdups_adj.induct) auto

lemma union_rows_eq: "union_rows inputs = sorted_list_of_set (set (concat inputs))"
proof (rule sorted_distinct_set_unique)
  show "sorted (union_rows inputs)" by (simp add: union_rows_def sorted_remdups_adj)
  show "distinct (union_rows inputs)" by (simp add: union_rows_def distinct_remdups_sorted)
qed (simp_all add: union_rows_def)

section \<open>Which rows are accepted\<close>

definition postable :: "usize list \<Rightarrow> bool" where
  "postable rows \<longleftrightarrow> sorted_wrt (<) rows \<and> (\<forall>row \<in> set rows. row < usize_limit) \<and> (rows \<noteq> [] \<longrightarrow> Suc (hd rows) < usize_limit)"

lemma encoded_postable:
  assumes "encoded rows (posting, previous)"
  shows "postable rows"
proof -
  have "Suc (hd rows) < usize_limit" if "rows \<noteq> []"
  proof -
    have "hd (map unat (expand (rv_items (pl_runs posting)))) = Suc (hd rows)" "expand (rv_items (pl_runs posting)) \<noteq> []"
      using assms that by (cases rows; auto simp: encoded_def Let_def)+
    then have "unat (hd (expand (rv_items (pl_runs posting)))) = Suc (hd rows)" by (simp add: hd_map)
    then show ?thesis using unat_less_2p [of "hd (expand (rv_items (pl_runs posting)))"] by (simp add: usize_limit_eq)
  qed
  then show ?thesis using assms by (simp add: postable_def encoded_def Let_def)
qed

text \<open>A vector of runs grows only by doubling, so its capacity stays in proportion to its length.\<close>

definition bounded_runs :: "nat \<Rightarrow> delta_run rust_vec \<Rightarrow> bool" where
  "bounded_runs n runs \<longleftrightarrow> rv_capacity runs \<le> 2 * n + 4 \<and> length (rv_items runs) \<le> n"

context permissive_guard
begin

lemma push_delta_ok:
  assumes "roomy H" and "exact_capacity H" and "length (expand (rv_items runs)) < 2 ^ 47" and "n < 2 ^ 47" and "bounded_runs n runs"
  shows "\<exists>runs' w'. push_delta H G runs d w = (Inr runs', w') \<and> bounded_runs (Suc n) runs'"
proof (cases "rv_items runs \<noteq> [] \<and> dr_delta (last (rv_items runs)) = d")
  case True
  then obtain rs run where r: "rv_items runs = rs @ [run]" "dr_delta run = d" by (metis append_butlast_last_id)
  have "unat (dr_count run) < 2 ^ 47" using assms(3) by (simp add: r expand_snoc)
  then obtain k where k: "checked_add (dr_count run) 1 = Some k" by (simp add: checked_add_def)
  show ?thesis using assms(5) True by (simp add: push_delta_def r optionR_def k bounded_runs_def)
next
  case False
  have cap: "rv_capacity runs < 2 ^ 49" "length (rv_items runs) + 1 < 2 ^ 50"
    using assms(4,5) by (simp_all add: bounded_runs_def)
  obtain c w' where c: "index_reserve H G T_DeltaRun (length (rv_items runs)) (rv_capacity runs) 1 ''posting-run allocation'' w = (Inr c, w')"
    using okD [OF ok_index_reserve [OF assms(1) cap]] by blast
  then have "c = (if length (rv_items runs) + 1 \<le> rv_capacity runs then rv_capacity runs
      else max (length (rv_items runs) + 1) (max 4 (rv_capacity runs * 2)))"
    by (intro store_reserve_capacity [OF _ assms(2)]) (simp add: index_reserve_def)
  then have "c \<le> 2 * Suc n + 4" using assms(5) by (auto simp: bounded_runs_def)
  then show ?thesis
    using False c assms(5) by (auto simp: push_delta_def bindR_def bounded_runs_def)
qed

lemma push_row_ok:
  assumes "roomy H" and "exact_capacity H" and "encoded ys st" and "postable (ys @ row # rows)" and "length ys < 2 ^ 47"
    and "bounded_runs (length ys) (pl_runs (fst st))"
  shows "\<exists>st' w'. push_row H G row st w = (Inr st', w') \<and> bounded_runs (Suc (length ys)) (pl_runs (fst st'))"
proof -
  obtain posting previous where st: "st = (posting, previous)" by (cases st)
  have enc: "map unat (expand (rv_items (pl_runs posting))) = gaps 0 ys" "pl_row_count posting = length ys"
    "previous = (if ys = [] then None else Some (word_of_nat (last ys)))" "\<forall>row \<in> set ys. row < usize_limit"
    using assms(3) by (simp_all add: encoded_def st Let_def)
  have row: "row < usize_limit" "ys = [] \<Longrightarrow> Suc row < usize_limit" "ys \<noteq> [] \<Longrightarrow> last ys < row"
    using assms(4) by (auto simp: postable_def sorted_wrt_append)
  have unat: "unat (word_of_nat k :: u64) = k" if "k < usize_limit" for k
    using that by (simp add: usize_limit_eq unat_of_nat)
  have "\<exists>d. posting_delta (word_of_nat row) previous = Inr d"
    using row enc(3,4) by (cases "ys = []")
      (auto simp: posting_delta_def checked_add_def unat word_less_nat_alt usize_limit_eq split: option.splits)
  then obtain d where d: "posting_delta (word_of_nat row) previous = Inr d" by blast
  have "length (expand (rv_items (pl_runs posting))) < 2 ^ 47"
  proof -
    have "length (gaps b xs) = length xs" for b xs by (induction xs arbitrary: b) simp_all
    then show ?thesis using assms(5) enc(1) by (metis length_map)
  qed
  then obtain runs w' where "push_delta H G (pl_runs posting) d w = (Inr runs, w')" "bounded_runs (Suc (length ys)) runs"
    using push_delta_ok [OF assms(1,2) _ assms(5), of "pl_runs posting" d w] assms(6) st by auto
  moreover have n: "checked_add_usize (length ys) 1 = Some (Suc (length ys))"
    using assms(5) by (simp add: usize_limit_def)
  ultimately show ?thesis
    using row(1) d by (simp add: push_row_def st u64_try_from_def enc(2) n [unfolded One_nat_def] optionR_def resultR_def bindR_def del: checked_add_usize_Some)
qed

lemma push_rows_ok:
  assumes "roomy H" and "exact_capacity H" and "encoded ys st" and "postable (ys @ xs)" and "length (ys @ xs) < 2 ^ 47"
    and "bounded_runs (length ys) (pl_runs (fst st))"
  shows "\<exists>st' w'. foldR (\<lambda>(index, row) st. thenR (index_checkpoint G index) (push_row H G row st)) (enumerate k xs) st w = (Inr st', w')"
  using assms(3-)
proof (induction xs arbitrary: k ys st w)
  case (Cons x xs)
  obtain w1 where w1: "index_checkpoint G k w = (Inr (), w1)"
    using okD [OF ok_index_checkpoint] by (metis (full_types) unit.exhaust)
  obtain st1 w2 where push: "push_row H G x st w1 = (Inr st1, w2)" "bounded_runs (Suc (length ys)) (pl_runs (fst st1))"
    using push_row_ok [OF assms(1,2) Cons.prems(1,2), of w1] Cons.prems(3,4) by auto
  have "\<exists>st' w'. foldR (\<lambda>(index, row) st. thenR (index_checkpoint G index) (push_row H G row st)) (enumerate (Suc k) xs) st1 w2 = (Inr st', w')"
    by (rule Cons.IH [OF push_row_encoded [OF push(1) Cons.prems(1)]]) (use Cons.prems push(2) in simp_all)
  then show ?case by (simp add: thenR_def bindR_def push(1) w1)
qed simp

lemma from_rows_ok:
  assumes "roomy H" and "exact_capacity H" and "postable rows" and "length rows < 2 ^ 47"
  shows "\<exists>posting w'. from_rows H G rows w = (Inr posting, w')"
proof -
  have "\<exists>st' w'. foldR (\<lambda>(index, row) st. thenR (index_checkpoint G index) (push_row H G row st)) (enumerate 0 rows)
      (posting_default, None) w = (Inr st', w')"
    by (rule push_rows_ok [OF assms(1,2), of "[]"])
      (use assms(3,4) in \<open>simp_all add: encoded_def posting_default_def expand_def usize_limit_def bounded_runs_def\<close>)
  then show ?thesis by (auto simp: from_rows_def bindR_def split: prod.split)
qed

end

section \<open>Properties\<close>

text \<open>
  C28. Posting lists are a faithful and canonical encoding of sets of rows: rows that were encoded are
  strictly increasing, \<open>from_runs\<close> accepts the runs and gives the same list, and decoding gives the rows
  back whenever the allocator grants the memory for them.
\<close>

theorem posting_round_trip:
  assumes "from_rows H G rows w = (Inr posting, w')"
  shows "sorted_wrt (<) rows \<and> from_runs (pl_runs posting) = Inr posting \<and> pl_row_count posting = length rows \<and>
    (\<forall>u u'. try_reserve H (length rows * size_of H T_usize) u = (True, u') \<longrightarrow> posting_rows H posting u = (Inr rows, u'))"
proof -
  obtain previous where enc: "encoded rows (posting, previous)" using from_rows_encoded [OF assms] by blast
  have len: "length (expand (rv_items (pl_runs posting))) = length rows"
  proof -
    have "length (gaps b xs) = length xs" for b xs by (induction xs arbitrary: b) simp_all
    then show ?thesis using enc by (metis encoded_def fst_conv length_map)
  qed
  have "from_runs_loop None 0 (rv_items (pl_runs posting)) = Inr (0 + length (expand (rv_items (pl_runs posting))))"
    by (rule from_runs_loop_ok) (use enc len in \<open>simp_all add: encoded_def Let_def\<close>)
  moreover have "sorted_wrt (<) rows" "pl_row_count posting = length rows"
    using enc by (simp_all add: encoded_def Let_def)
  ultimately have "sorted_wrt (<) rows \<and> from_runs (pl_runs posting) = Inr posting \<and> pl_row_count posting = length rows"
    using len by (simp add: from_runs_def)
  moreover have "posting_rows H posting u = (Inr rows, u')"
    if "try_reserve H (length rows * size_of H T_usize) u = (True, u')" for u u'
    using posting_rows_decode [OF enc, of H u u'] that \<open>pl_row_count posting = length rows\<close> by simp
  ultimately show ?thesis by blast
qed

theorem posting_round_trip_witness:
  "\<exists>posting w'. from_rows unbounded_host allow_state_work [2, 5, 8, 9] () = (Inr posting, w') \<and>
     posting_rows unbounded_host posting () = (Inr [2, 5, 8, 9], ())"
proof -
  have "postable [2, 5, 8, 9]" by (simp add: postable_def usize_limit_def)
  then obtain posting w' where p: "from_rows unbounded_host allow_state_work [2, 5, 8, 9] () = (Inr posting, w')"
    using allow_all.from_rows_ok [OF roomy_unbounded_host exact_unbounded_host, of "[2, 5, 8, 9]" "()"] by auto
  have "try_reserve unbounded_host n () = (True, ())" for n
    by (simp add: try_reserve_def unbounded_host_def)
  then show ?thesis using posting_round_trip [OF p] p by blast
qed



text \<open>
  C30. The set operations on decoded rows: the intersection of two strictly increasing lists by two
  running indices is the list of their common rows in order, and the union of any lists is the strictly
  increasing list of all their rows.
\<close>

theorem row_sets:
  assumes "sorted_wrt (<) left" and "sorted_wrt (<) right"
  shows "intersect_rows left right = sorted_list_of_set (set left \<inter> set right) \<and>
    union_rows inputs = sorted_list_of_set (\<Union> (set ` set inputs))"
proof -
  have "intersect_rows left right = filter (\<lambda>x. x \<in> set right) left"
    using intersect_loop_eq [OF assms, of 0 0 "[]"] by (simp add: intersect_rows_def)
  moreover have "\<dots> = sorted_list_of_set (set left \<inter> set right)"
    using assms(1) sorted_wrt_filter [OF assms(1), of "\<lambda>x. x \<in> set right"]
    by (intro sorted_distinct_set_unique) (auto simp: strict_sorted_iff)
  ultimately show ?thesis using union_rows_eq [of inputs] by simp
qed

theorem row_sets_witness:
  "intersect_rows [1, 3, 4, 7] [3, 5, 7] = [3, 7] \<and> union_rows [[4, 1], [1, 2]] = [1, 2, 4]"
  using row_sets [of "[1, 3, 4, 7]" "[3, 5, 7]" "[[4, 1], [1, 2]]"] by (simp add: insert_commute)

end
