(* ===== verification/Store_Sorting.thy ===== *)
theory Store_Sorting
  imports Store_Error
begin

text \<open>
  The merge sort of the index that can be cancelled (\<open>qtrace-store/src/index/sorting.rs\<close>). A comparison is
  given by its \<open>is_le\<close>. The standard library does not say in which order \<open>sort_unstable_by\<close> leaves equal elements;
  the model fixes one, and nothing below depends on which.
\<close>

section \<open>The merge sort\<close>

fun insert_by :: "('a \<Rightarrow> 'a \<Rightarrow> bool) \<Rightarrow> 'a \<Rightarrow> 'a list \<Rightarrow> 'a list" where
  "insert_by le x [] = [x]"
| "insert_by le x (y # ys) = (if le x y then x # y # ys else y # insert_by le x ys)"

definition sort_unstable_by :: "('a \<Rightarrow> 'a \<Rightarrow> bool) \<Rightarrow> 'a list \<Rightarrow> 'a list" where
  "sort_unstable_by le xs = foldr (insert_by le) xs []"

definition CHUNK :: usize where
  "CHUNK = 4096"

definition saturating_mul_usize :: "usize \<Rightarrow> usize \<Rightarrow> usize" where
  "saturating_mul_usize a b = min (a * b) (usize_limit - 1)"

definition saturating_add_usize :: "usize \<Rightarrow> usize \<Rightarrow> usize" where
  "saturating_add_usize a b = min (a + b) (usize_limit - 1)"

text \<open>\<open>scratch.push\<close> and the checkpoint after every 4096 rows of output.\<close>

definition merge_push :: "'w work_guard \<Rightarrow> 'a \<Rightarrow> 'a list \<times> usize \<Rightarrow> ('w, index_error, 'a list \<times> usize) rm" where
  "merge_push G x = (\<lambda>(scratch, since).
     if since + 1 = 4096 then thenR (index_consume G work_default) (retR (scratch @ [x], 0))
     else retR (scratch @ [x], since + 1))"

text \<open>The two halves are consumed from the front; the three loops of the source are the three cases.\<close>

fun merge_runs :: "('a \<Rightarrow> 'a \<Rightarrow> bool) \<Rightarrow> 'w work_guard \<Rightarrow> 'a list \<Rightarrow> 'a list \<Rightarrow> 'a list \<times> usize \<Rightarrow> ('w, index_error, 'a list \<times> usize) rm" where
  "merge_runs le G (x # xs) (y # ys) st =
     (if le x y then bindR (merge_push G x st) (merge_runs le G xs (y # ys))
      else bindR (merge_push G y st) (merge_runs le G (x # xs) ys))"
| "merge_runs le G xs [] st = foldR (merge_push G) xs st"
| "merge_runs le G [] ys st = foldR (merge_push G) ys st"

definition merge_at :: "('a \<Rightarrow> 'a \<Rightarrow> bool) \<Rightarrow> 'w work_guard \<Rightarrow> usize \<Rightarrow> 'a list \<Rightarrow> usize \<Rightarrow> 'a list \<Rightarrow> ('w, index_error, 'a list) rm" where
  "merge_at le G width rows first scratch =
     thenR (index_consume G work_default)
       (let middle = min (saturating_add_usize first width) (length rows);
            upper = min (saturating_add_usize middle width) (length rows)
        in bindR (merge_runs le G (take (middle - first) (drop first rows)) (take (upper - middle) (drop middle rows)) (scratch, 0))
             (\<lambda>(scratch, since). retR scratch))"

text \<open>\<open>(0..len).step_by(step)\<close>\<close>

function step_by :: "usize \<Rightarrow> usize \<Rightarrow> usize \<Rightarrow> usize list" where
  "step_by first limit step = (if step = 0 \<or> limit \<le> first then [] else first # step_by (first + step) limit step)"
  by pat_completeness auto
termination
  by (relation "measure (\<lambda>(first, limit, step). limit - first)") auto

declare step_by.simps [simp del]

definition merge_pass :: "('a \<Rightarrow> 'a \<Rightarrow> bool) \<Rightarrow> 'w work_guard \<Rightarrow> usize \<Rightarrow> 'a list \<Rightarrow> ('w, index_error, 'a list) rm" where
  "merge_pass le G width rows = foldR (merge_at le G width rows) (step_by 0 (length rows) (saturating_mul_usize width 2)) []"

subsection \<open>What merging computes\<close>

fun merge_by :: "('a \<Rightarrow> 'a \<Rightarrow> bool) \<Rightarrow> 'a list \<Rightarrow> 'a list \<Rightarrow> 'a list" where
  "merge_by le (x # xs) (y # ys) = (if le x y then x # merge_by le xs (y # ys) else y # merge_by le (x # xs) ys)"
| "merge_by le xs [] = xs"
| "merge_by le [] ys = ys"

lemma mset_merge_by: "mset (merge_by le xs ys) = mset xs + mset ys"
  by (induction le xs ys rule: merge_by.induct) simp_all

lemma length_merge_by: "length (merge_by le xs ys) = length xs + length ys"
  by (induction le xs ys rule: merge_by.induct) simp_all

lemma merge_push_Inr: "merge_push G x st w = (Inr st', w') \<Longrightarrow> fst st' = fst st @ [x]"
  by (cases st) (auto simp: merge_push_def thenR_Inr split: if_splits)

lemma merge_pushes_Inr: "foldR (merge_push G) xs st w = (Inr st', w') \<Longrightarrow> fst st' = fst st @ xs"
proof (induction xs arbitrary: st w)
  case (Cons x xs)
  then obtain st1 w1 where "merge_push G x st w = (Inr st1, w1)" "foldR (merge_push G) xs st1 w1 = (Inr st', w')"
    by (auto simp: bindR_Inr)
  from Cons.IH [OF this(2)] merge_push_Inr [OF this(1)] show ?case by simp
qed simp

lemma merge_runs_Inr: "merge_runs le G xs ys st w = (Inr st', w') \<Longrightarrow> fst st' = fst st @ merge_by le xs ys"
proof (induction le G xs ys st arbitrary: w rule: merge_runs.induct)
  case (1 le G x xs y ys st)
  show ?case
  proof (cases "le x y")
    case True
    then obtain st1 w1 where "merge_push G x st w = (Inr st1, w1)" "merge_runs le G xs (y # ys) st1 w1 = (Inr st', w')"
      using "1.prems" by (auto simp: bindR_Inr)
    then show ?thesis using "1.IH"(1) [OF True] True by (auto dest!: merge_push_Inr)
  next
    case False
    then obtain st1 w1 where "merge_push G y st w = (Inr st1, w1)" "merge_runs le G (x # xs) ys st1 w1 = (Inr st', w')"
      using "1.prems" by (auto simp: bindR_Inr)
    then show ?thesis using "1.IH"(2) [OF False] False by (auto dest!: merge_push_Inr)
  qed
qed (simp_all add: merge_pushes_Inr)

lemma merge_at_Inr:
  assumes "merge_at le G width rows first scratch w = (Inr scratch', w')"
  defines "middle \<equiv> min (saturating_add_usize first width) (length rows)"
  defines "upper \<equiv> min (saturating_add_usize middle width) (length rows)"
  shows "scratch' = scratch @ merge_by le (take (middle - first) (drop first rows)) (take (upper - middle) (drop middle rows))"
  using assms by (auto simp: merge_at_def Let_def thenR_Inr bindR_Inr dest!: merge_runs_Inr split: prod.splits)

text \<open>Where nothing overflows, a pass merges the two halves of every chunk of double width.\<close>

definition merge_halves :: "('a \<Rightarrow> 'a \<Rightarrow> bool) \<Rightarrow> usize \<Rightarrow> 'a list \<Rightarrow> 'a list" where
  "merge_halves le width c = merge_by le (take width c) (drop width c)"

lemma min_saturating_add: "n < usize_limit \<Longrightarrow> min (saturating_add_usize a b) n = min (a + b) n"
  unfolding saturating_add_usize_def min.assoc by (simp add: min_absorb2)

lemma merge_at_halves:
  assumes "first < length rows" and "length rows < usize_limit" and "width < usize_limit" and "step = saturating_mul_usize width 2"
    and "middle = min (saturating_add_usize first width) (length rows)"
    and "upper = min (saturating_add_usize middle width) (length rows)"
  shows "merge_by le (take (middle - first) (drop first rows)) (take (upper - middle) (drop middle rows)) =
    merge_halves le width (take step (drop first rows))"
proof -
  let ?X = "drop first rows"
  have step: "width \<le> step" "step = width + width \<or> length rows \<le> step \<and> length rows \<le> width + width"
  proof -
    have "width \<le> step \<and> (step = width + width \<or> length rows \<le> step \<and> length rows \<le> width + width)"
      using assms(2,3) by (cases "width * 2 \<le> usize_limit - 1") (simp_all add: assms(4) saturating_mul_usize_def min_def, linarith)
    then show "width \<le> step" "step = width + width \<or> length rows \<le> step \<and> length rows \<le> width + width" by simp_all
  qed
  have mid: "middle = min (first + width) (length rows)" "upper = min (middle + width) (length rows)"
    unfolding assms(5,6) by (simp_all add: min_saturating_add [OF assms(2)])
  have "take width (take step ?X) = take width ?X" using step(1) by (simp add: min_def)
  then have "take width (take step ?X) = take (min width (length ?X)) ?X" by (cases "width \<le> length ?X") simp_all
  moreover have "middle - first = min width (length ?X)" using assms(1) mid(1) by auto
  ultimately have left: "take width (take step ?X) = take (middle - first) ?X" by simp
  have "drop width (take step ?X) = take (upper - middle) (drop middle rows)"
  proof (cases "first + width \<le> length rows")
    case True
    then have "middle = first + width" "upper - middle = min width (length (drop width ?X))" using mid by auto
    moreover have "take (step - width) (drop width ?X) = take (min width (length (drop width ?X))) (drop width ?X)"
    proof (cases "step = width + width")
      case True
      then show ?thesis by (cases "width \<le> length (drop width ?X)") simp_all
    next
      case False
      then have "length rows \<le> step" "length rows \<le> width + width" using step(2) by blast+
      then have "length (drop width ?X) \<le> step - width" "length (drop width ?X) \<le> width" by simp_all
      then show ?thesis by simp
    qed
    ultimately show ?thesis by (simp add: drop_take add.commute)
  next
    case False
    then show ?thesis using mid by (simp add: drop_take)
  qed
  with left show ?thesis by (simp add: merge_halves_def)
qed

lemma merge_pass_Inr:
  assumes "merge_pass le G width rows w = (Inr rows', w')" and "0 < width" and "width < length rows" and "length rows < usize_limit"
  shows "rows' = concat (map (merge_halves le width) (chunks (saturating_mul_usize width 2) rows))"
proof -
  let ?step = "saturating_mul_usize width 2"
  have step: "0 < ?step" using assms(2) by (simp add: saturating_mul_usize_def usize_limit_def)
  have "rows' = scratch @ concat (map (merge_halves le width) (chunks ?step (drop first rows)))"
    if "foldR (merge_at le G width rows) (step_by first (length rows) ?step) scratch w = (Inr rows', w')" for first scratch w
    using that
  proof (induction first "length rows" ?step arbitrary: scratch w rule: step_by.induct)
    case (1 first)
    show ?case
    proof (cases "length rows \<le> first")
      case True
      then show ?thesis using "1.prems" by (simp add: step_by.simps [of first] chunks.simps)
    next
      case False
      then obtain s1 w1 where s1: "merge_at le G width rows first scratch w = (Inr s1, w1)"
        and rest: "foldR (merge_at le G width rows) (step_by (first + ?step) (length rows) ?step) s1 w1 = (Inr rows', w')"
        using "1.prems" step by (auto simp: step_by.simps [of first] bindR_Inr)
      have "rows' = s1 @ concat (map (merge_halves le width) (chunks ?step (drop (first + ?step) rows)))"
        using "1.hyps" [OF _ rest] False step by auto
      moreover have "s1 = scratch @ merge_halves le width (take ?step (drop first rows))"
        using merge_at_Inr [OF s1] merge_at_halves [OF _ assms(4) order_less_trans [OF assms(3,4)] refl refl refl, of first le] False by simp
      moreover have "chunks ?step (drop first rows) = take ?step (drop first rows) # chunks ?step (drop (first + ?step) rows)"
        using False step by (subst chunks.simps) (simp add: add.commute)
      ultimately show ?thesis by simp
    qed
  qed
  from this [of 0 "[]" w] assms(1) show ?thesis by (simp add: merge_pass_def)
qed

lemma mset_merge_halves: "mset (merge_halves le width c) = mset c"
  unfolding merge_halves_def mset_merge_by by (simp flip: mset_append)

lemma mset_merge_pass:
  assumes "merge_pass le G width rows w = (Inr rows', w')" and "0 < width" and "width < length rows" and "length rows < usize_limit"
  shows "mset rows' = mset rows"
proof -
  have "mset (concat (map (merge_halves le width) cs)) = mset (concat cs)" for cs
    by (induction cs) (simp_all add: mset_merge_halves)
  then show ?thesis
    using merge_pass_Inr [OF assms] concat_chunks [of "saturating_mul_usize width 2" rows] assms(2)
    by (simp add: saturating_mul_usize_def usize_limit_def)
qed

lemma length_merge_pass:
  "merge_pass le G width rows w = (Inr rows', w') \<Longrightarrow> 0 < width \<Longrightarrow> width < length rows \<Longrightarrow> length rows < usize_limit \<Longrightarrow>
   length rows' = length rows"
  by (rule mset_eq_length [OF mset_merge_pass])

section \<open>The sort as a whole\<close>

text \<open>
  The loop over the widths. A vector is never longer than \<open>usize\<close> can count and the width starts at
  4096; the two extra conditions say so and hold in every run.
\<close>

function merge_loop :: "('a \<Rightarrow> 'a \<Rightarrow> bool) \<Rightarrow> 'w work_guard \<Rightarrow> usize \<Rightarrow> 'a list \<Rightarrow> 'w \<Rightarrow> (index_error + 'a list) \<times> 'w" where
  "merge_loop le G width rows w =
     (if width < length rows \<and> 0 < width \<and> length rows < usize_limit
      then (case merge_pass le G width rows w of
          (Inl e, w') \<Rightarrow> (Inl e, w')
        | (Inr rows', w') \<Rightarrow> merge_loop le G (saturating_mul_usize width 2) rows' w')
      else (Inr rows, w))"
  by pat_completeness auto
termination
  by (relation "measure (\<lambda>(le, G, width, rows, w). length rows - width)")
    (auto simp: saturating_mul_usize_def dest!: length_merge_pass [OF sym])

declare merge_loop.simps [simp del]

definition cancellable_sort_by ::
  "'w host \<Rightarrow> rust_type \<Rightarrow> ('a \<Rightarrow> 'a \<Rightarrow> bool) \<Rightarrow> 'w work_guard \<Rightarrow> 'a list \<Rightarrow> ('w, index_error, 'a list) rm" where
  "cancellable_sort_by H T le G rows =
     bindR (foldR (\<lambda>chunk sorted_rows. thenR (index_consume G work_default) (retR (sorted_rows @ sort_unstable_by le chunk)))
       (chunks CHUNK rows) []) (\<lambda>rows.
     if length rows \<le> CHUNK then retR rows
     else bindR (index_reserve H G T 0 0 (length rows) ''merge-sort scratch allocation'') (\<lambda>_.
          merge_loop le G CHUNK rows))"

definition cancellable_sort :: "'w host \<Rightarrow> rust_type \<Rightarrow> 'w work_guard \<Rightarrow> ('a :: linorder) list \<Rightarrow> ('w, index_error, 'a list) rm" where
  "cancellable_sort H T G rows = cancellable_sort_by H T (\<le>) G rows"

subsection \<open>The result is sorted\<close>

text \<open>What \<open>Ord\<close> and the comparison closures promise.\<close>

definition ordering :: "('a \<Rightarrow> 'a \<Rightarrow> bool) \<Rightarrow> bool" where
  "ordering le \<longleftrightarrow> (\<forall>x y. le x y \<or> le y x) \<and> (\<forall>x y z. le x y \<longrightarrow> le y z \<longrightarrow> le x z)"

lemma mset_insert_by: "mset (insert_by le x xs) = add_mset x (mset xs)"
  by (induction xs) simp_all

lemma mset_sort_unstable_by: "mset (sort_unstable_by le xs) = mset xs"
  unfolding sort_unstable_by_def by (induction xs) (simp_all add: mset_insert_by)

lemma sorted_insert_by: "ordering le \<Longrightarrow> sorted_wrt le xs \<Longrightarrow> sorted_wrt le (insert_by le x xs)"
proof (induction xs)
  case (Cons y ys)
  have "set (insert_by le x ys) = insert x (set ys)" by (metis mset_insert_by set_mset_add_mset_insert set_mset_mset)
  then show ?case using Cons unfolding ordering_def by (auto intro: Cons.IH)
qed simp

lemma sorted_sort_unstable_by: "ordering le \<Longrightarrow> sorted_wrt le (sort_unstable_by le xs)"
  unfolding sort_unstable_by_def by (induction xs) (simp_all add: sorted_insert_by)

lemma set_merge_by: "set (merge_by le xs ys) = set xs \<union> set ys"
  by (metis mset_merge_by set_mset_mset set_mset_union)

lemma ordering_trans: "ordering le \<Longrightarrow> le x y \<Longrightarrow> le y z \<Longrightarrow> le x z"
  unfolding ordering_def by blast

lemma ordering_other: "ordering le \<Longrightarrow> \<not> le x y \<Longrightarrow> le y x"
  unfolding ordering_def by blast

lemma sorted_merge_by:
  assumes "ordering le"
  shows "sorted_wrt le xs \<Longrightarrow> sorted_wrt le ys \<Longrightarrow> sorted_wrt le (merge_by le xs ys)"
  using assms
proof (induction le xs ys rule: merge_by.induct)
  case (1 le x xs y ys)
  show ?case
  proof (cases "le x y")
    case True
    then have "le x z" if "z \<in> set xs \<union> set (y # ys)" for z
      using that "1.prems" by (auto intro: ordering_trans [of le x y z])
    then show ?thesis using True 1 by (simp add: set_merge_by)
  next
    case False
    then have "le y z" if "z \<in> set (x # xs) \<union> set ys" for z
      using that "1.prems" by (auto intro: ordering_trans [of le y x z] ordering_other)
    then show ?thesis using False 1 by (simp add: set_merge_by)
  qed
qed simp_all

lemma chunks_map:
  assumes "\<And>c. length (f c) = length c" and "0 < n"
  shows "chunks n (concat (map f (chunks n xs))) = map f (chunks n xs)"
  using assms(2)
proof (induction n xs rule: chunks.induct)
  case (1 n xs)
  show ?case
  proof (cases "xs = []")
    case True
    then show ?thesis by (simp add: chunks.simps)
  next
    case False
    have u: "chunks n xs = take n xs # chunks n (drop n xs)" using False 1(2) by (simp add: chunks.simps [of n xs])
    let ?r = "concat (map f (chunks n (drop n xs)))"
    have "f (take n xs) \<noteq> []" using False 1(2) assms(1) [of "take n xs"] by (metis length_0_conv take_eq_Nil neq0_conv)
    then have "f (take n xs) @ ?r \<noteq> []" by simp
    moreover have "take n (f (take n xs) @ ?r) = f (take n xs)" and "drop n (f (take n xs) @ ?r) = ?r"
      using assms(1) [of "take n xs"] by (cases "n \<le> length xs"; simp add: chunks.simps)+
    ultimately show ?thesis
      using 1 False unfolding u by (subst chunks.simps) simp
  qed
qed

lemma sorted_halves:
  assumes "\<forall>c \<in> set (chunks n xs). P c" and "P []" and "0 < n" and "c \<in> set (chunks (n + n) xs)"
  shows "P (take n c) \<and> P (drop n c)"
  using assms(1,4)
proof (induction "n + n" xs rule: chunks.induct)
  case (1 xs)
  have ne: "xs \<noteq> []" using "1.prems"(2) by (auto simp: chunks.simps [of _ "[]"])
  have c2: "chunks (n + n) xs = take (n + n) xs # chunks (n + n) (drop (n + n) xs)"
    using ne assms(3) by (simp add: chunks.simps [of "n + n" xs])
  have c1: "chunks n xs = take n xs # chunks n (drop n xs)" using ne assms(3) by (simp add: chunks.simps [of n xs])
  have d: "drop n (take (n + n) xs) = take n (drop n xs)" by (simp add: drop_take)
  have "P (take n (drop n xs)) \<and> (\<forall>c \<in> set (chunks n (drop (n + n) xs)). P c)"
  proof (cases "drop n xs = []")
    case True
    then show ?thesis using assms(2) by (simp add: chunks.simps flip: drop_drop)
  next
    case False
    then have "chunks n (drop n xs) = take n (drop n xs) # chunks n (drop (n + n) xs)"
      using assms(3) by (simp add: chunks.simps [of n "drop n xs"])
    then show ?thesis using "1.prems"(1) c1 by simp
  qed
  then show ?case
    using "1.prems" "1.hyps" ne assms(3) c1 c2 d by auto
qed

lemma chunks_whole: "length xs \<le> n \<Longrightarrow> xs \<noteq> [] \<Longrightarrow> chunks n xs = [xs]"
  by (cases n) (simp_all add: chunks.simps [of _ xs] chunks.simps [of _ "[]"])

lemma sorted_merge_pass:
  assumes "merge_pass le G width rows w = (Inr rows', w')" and "0 < width" and "width < length rows" and "length rows < usize_limit"
    and "ordering le" and "\<forall>c \<in> set (chunks width rows). sorted_wrt le c"
  shows "\<forall>c \<in> set (chunks (saturating_mul_usize width 2) rows'). sorted_wrt le c"
proof -
  let ?s = "saturating_mul_usize width 2"
  have s: "0 < ?s" using assms(2) by (simp add: saturating_mul_usize_def usize_limit_def)
  have len: "length (merge_halves le width c) = length c" for c
    by (metis mset_eq_length mset_merge_halves)
  have "chunks ?s rows' = map (merge_halves le width) (chunks ?s rows)"
    unfolding merge_pass_Inr [OF assms(1-4)] by (rule chunks_map [OF len s])
  moreover have "sorted_wrt le (merge_halves le width c)" if c: "c \<in> set (chunks ?s rows)" for c
  proof -
    have "c \<in> set (chunks (width + width) rows)"
    proof (cases "width + width \<le> usize_limit - 1")
      case True
      then show ?thesis using c by (simp add: saturating_mul_usize_def mult_2_right min_absorb1)
    next
      case False
      then have "length rows \<le> ?s" "length rows \<le> width + width" using assms(4) by (simp_all add: saturating_mul_usize_def)
      moreover have "rows \<noteq> []" using assms(3) by auto
      ultimately show ?thesis using c by (simp add: chunks_whole)
    qed
    from sorted_halves [OF assms(6) _ assms(2) this] show ?thesis
      unfolding merge_halves_def by (intro sorted_merge_by [OF assms(5)]) simp_all
  qed
  ultimately show ?thesis by simp
qed

lemma merge_loop_sorted:
  assumes "merge_loop le G width rows w = (Inr rows', w')" and "ordering le" and "0 < width" and "length rows < usize_limit"
    and "\<forall>c \<in> set (chunks width rows). sorted_wrt le c"
  shows "mset rows' = mset rows \<and> sorted_wrt le rows'"
  using assms
proof (induction le G width rows w rule: merge_loop.induct)
  case (1 le G width rows w)
  show ?case
  proof (cases "width < length rows")
    case False
    then have "rows' = rows" using "1.prems"(1) by (simp add: merge_loop.simps [of le])
    moreover have "sorted_wrt le rows"
      using "1.prems"(5) False chunks_whole [of rows width] by (cases "rows = []") simp_all
    ultimately show ?thesis by simp
  next
    case True
    then obtain rows1 w1 where p: "merge_pass le G width rows w = (Inr rows1, w1)"
      and l: "merge_loop le G (saturating_mul_usize width 2) rows1 w1 = (Inr rows', w')"
      using "1.prems"(1,3,4) by (auto simp: merge_loop.simps [of le _ width] split: prod.splits sum.splits)
    have m: "mset rows1 = mset rows" by (rule mset_merge_pass [OF p "1.prems"(3) True "1.prems"(4)])
    have "mset rows' = mset rows1 \<and> sorted_wrt le rows'"
    proof (rule "1.IH" [OF _ p [symmetric] refl l "1.prems"(2)])
      show "\<forall>c \<in> set (chunks (saturating_mul_usize width 2) rows1). sorted_wrt le c"
        by (rule sorted_merge_pass [OF p "1.prems"(3) True "1.prems"(4,2,5)])
    qed (use True "1.prems"(3,4) mset_eq_length [OF m] in \<open>simp_all add: saturating_mul_usize_def usize_limit_def\<close>)
    with m show ?thesis by simp
  qed
qed

lemma yields_chunk_sorts:
  "yieldsR (foldR (\<lambda>chunk acc. thenR (index_consume G work_default) (retR (acc @ sort_unstable_by le chunk))) cs [])
     (concat (map (sort_unstable_by le) cs))"
proof -
  have "fold (\<lambda>chunk acc. acc @ sort_unstable_by le chunk) cs acc = acc @ concat (map (sort_unstable_by le) cs)" for acc
    by (induction cs arbitrary: acc) simp_all
  then show ?thesis
    using yields_fold [where f = "\<lambda>chunk acc. thenR (index_consume G work_default) (retR (acc @ sort_unstable_by le chunk))"
        and g = "\<lambda>chunk acc. acc @ sort_unstable_by le chunk" and xs = cs and a = "[]", OF yields_then [OF yields_ret]]
    by (simp del: retR_apply)
qed

lemma cancellable_sort_Inr:
  assumes "cancellable_sort_by H T le G rows w = (Inr rows', w')" and "ordering le" and "length rows < usize_limit"
  shows "mset rows' = mset rows \<and> sorted_wrt le rows'"
proof -
  let ?rows = "concat (map (sort_unstable_by le) (chunks CHUNK rows))"
  obtain w1 where run: "(if length ?rows \<le> CHUNK then retR ?rows
      else bindR (index_reserve H G T 0 0 (length ?rows) ''merge-sort scratch allocation'') (\<lambda>_. merge_loop le G CHUNK ?rows)) w1 = (Inr rows', w')"
    using assms(1) unfolding cancellable_sort_by_def
    by (elim bindR_okE) (metis yieldsD [OF yields_chunk_sorts])
  have "mset (concat (map (sort_unstable_by le) cs)) = mset (concat cs)" for cs
    by (induction cs) (simp_all add: mset_sort_unstable_by)
  then have m: "mset ?rows = mset rows" by (simp add: concat_chunks CHUNK_def)
  have "length (sort_unstable_by le c) = length c" for c by (metis mset_eq_length mset_sort_unstable_by)
  then have "chunks CHUNK ?rows = map (sort_unstable_by le) (chunks CHUNK rows)" by (rule chunks_map) (simp add: CHUNK_def)
  then have sorted: "\<forall>c \<in> set (chunks CHUNK ?rows). sorted_wrt le c" by (simp add: sorted_sort_unstable_by assms(2))
  show ?thesis
  proof (cases "length ?rows \<le> CHUNK")
    case True
    then have "rows' = ?rows" using run by simp
    moreover have "sorted_wrt le ?rows"
    proof (cases "?rows = []")
      case True
      then show ?thesis by (simp only: sorted_wrt.simps)
    next
      case ne: False
      then show ?thesis using sorted chunks_whole [OF True ne] by simp
    qed
    ultimately show ?thesis using m by simp
  next
    case False
    then obtain w2 where "merge_loop le G CHUNK ?rows w2 = (Inr rows', w')" using run by (auto simp: bindR_Inr)
    from merge_loop_sorted [OF this assms(2) _ _ sorted] show ?thesis
      using m assms(3) mset_eq_length [OF m] by (simp add: CHUNK_def)
  qed
qed

context permissive_guard
begin

lemma ok_merge_push: "okR (merge_push G x st)"
  by (cases st) (auto simp: merge_push_def simp del: retR_apply intro!: ok_then ok_index_consume ok_ret)

lemma ok_merge_runs: "okR (merge_runs le G xs ys st)"
proof (induction "length xs + length ys" arbitrary: xs ys st rule: less_induct)
  case less
  show ?case
    by (cases xs; cases ys) (auto simp: ok_fold ok_merge_push simp del: foldR.simps intro!: ok_bind less)
qed

lemma ok_merge_pass: "okR (merge_pass le G width rows)"
  unfolding merge_pass_def merge_at_def Let_def
  by (rule ok_fold) (auto simp del: retR_apply intro!: ok_then ok_index_consume ok_bind ok_merge_runs ok_ret)

lemma ok_merge_loop: "okR (merge_loop le G width rows)"
proof -
  have "\<exists>y t. merge_loop le G' width rows w = (Inr y, t)" if "G' = G" for G' w
    using that
  proof (induction le G' width rows w rule: merge_loop.induct)
    case (1 le G' width rows w)
    obtain rows1 w1 where p: "merge_pass le G' width rows w = (Inr rows1, w1)"
      using okD [OF ok_merge_pass] "1.prems" by blast
    show ?case
    proof (cases "width < length rows \<and> 0 < width \<and> length rows < usize_limit")
      case True
      then show ?thesis
        using "1.IH" [OF True p [symmetric] refl "1.prems"] p by (simp add: merge_loop.simps [of le G' width rows])
    next
      case False
      then show ?thesis by (subst merge_loop.simps) auto
    qed
  qed
  then show ?thesis by (simp add: okR_def)
qed

lemma ok_cancellable_sort:
  assumes "roomy H" and "length rows < 2 ^ 50"
  shows "okR (cancellable_sort_by H T le G rows)"
  unfolding cancellable_sort_by_def
proof (rule ok_bind_value [OF _ yields_chunk_sorts])
  show "okR (foldR (\<lambda>chunk acc. thenR (index_consume G work_default) (retR (acc @ sort_unstable_by le chunk))) (chunks CHUNK rows) [])"
    by (rule ok_fold) (auto simp del: retR_apply intro!: ok_then ok_index_consume ok_ret)
  have "length (sort_unstable_by le c) = length c" for c by (metis mset_eq_length mset_sort_unstable_by)
  then have "length (concat (map (sort_unstable_by le) cs)) = length (concat cs)" for cs by (induction cs) simp_all
  then have "length (concat (map (sort_unstable_by le) (chunks CHUNK rows))) < 2 ^ 50"
    using assms(2) by (simp add: concat_chunks CHUNK_def)
  then show "okR (if length (concat (map (sort_unstable_by le) (chunks CHUNK rows))) \<le> CHUNK
      then retR (concat (map (sort_unstable_by le) (chunks CHUNK rows)))
      else bindR (index_reserve H G T 0 0 (length (concat (map (sort_unstable_by le) (chunks CHUNK rows)))) ''merge-sort scratch allocation'')
        (\<lambda>_. merge_loop le G CHUNK (concat (map (sort_unstable_by le) (chunks CHUNK rows)))))"
    using assms(1) by (auto simp del: retR_apply simp: ok_ret intro!: ok_bind ok_index_reserve ok_merge_loop)
qed

end

section \<open>Properties\<close>

text \<open>
  C31. The cancellable merge sort sorts: for any total order, whatever the guard does, a run that succeeds
  returns a sorted permutation of the rows; and where the guard refuses nothing and memory is
  available, it does succeed.
\<close>

theorem cancellable_sort_sorts:
  assumes "ordering le" and "length rows < 2 ^ 50"
  shows "(\<forall>rows' w'. cancellable_sort_by H T le G rows w = (Inr rows', w') \<longrightarrow> mset rows' = mset rows \<and> sorted_wrt le rows') \<and>
    (permissive_guard G \<and> roomy H \<longrightarrow> (\<exists>rows' w'. cancellable_sort_by H T le G rows w = (Inr rows', w')))"
proof (intro conjI allI impI)
  show "mset rows' = mset rows" "sorted_wrt le rows'" if "cancellable_sort_by H T le G rows w = (Inr rows', w')" for rows' w'
    using cancellable_sort_Inr [OF that assms(1)] assms(2) by (simp_all add: usize_limit_def)
  show "\<exists>rows' w'. cancellable_sort_by H T le G rows w = (Inr rows', w')" if "permissive_guard G \<and> roomy H"
    by (rule okD [OF permissive_guard.ok_cancellable_sort [OF _ _ assms(2)]]) (use that in simp_all)
qed

theorem cancellable_sort_sorts_witness:
  "\<exists>rows' w'. cancellable_sort_by unbounded_host T_usize (\<le>) allow_state_work [3 :: nat, 1, 2] () = (Inr rows', w') \<and> rows' = [1, 2, 3]"
proof -
  have o: "ordering ((\<le>) :: nat \<Rightarrow> nat \<Rightarrow> bool)" by (auto simp: ordering_def)
  note * = cancellable_sort_sorts [OF o, of "[3, 1, 2]" unbounded_host T_usize allow_state_work "()"]
  obtain rows' w' where run: "cancellable_sort_by unbounded_host T_usize (\<le>) allow_state_work [3 :: nat, 1, 2] () = (Inr rows', w')"
    using * allow_all.permissive_guard_axioms roomy_unbounded_host by auto
  then have "mset rows' = mset [3, 1, 2]" "sorted rows'" using * by auto
  then have "sort [3, 1, 2] = rows'" by (intro properties_for_sort) auto
  with run show ?thesis by auto
qed

end
