(* ===== verification/Store_Rows.thy ===== *)
theory Store_Rows
  imports Store_Postings Store_Sorting
begin

text \<open>
  The radix sort of row numbers and the binary search of the index (\<open>qtrace-store/src/index/mod.rs\<close>).
  Both charge every row they look at to the guard.
\<close>

section \<open>The radix sort of rows\<close>

definition row_byte :: "usize \<Rightarrow> usize \<Rightarrow> nat" where
  "row_byte pass row = unat (to_le_bytes 8 (word_of_nat row :: u64) ! pass)"

record radix_work =
  rw_rows :: usize
  rw_passes :: usize
  rw_dedup :: usize

definition radix_work_for_rows :: "usize \<Rightarrow> radix_work" where
  "radix_work_for_rows rows = \<lparr>rw_rows = rows, rw_passes = (if rows \<ge> 2 then 1 else 0) * (64 div 8),
     rw_dedup = (rows - 1) * (if rows \<ge> 2 then 1 else 0)\<rparr>"

definition radix_checked_total :: "radix_work \<Rightarrow> index_error + u64" where
  "radix_checked_total work =
     (case u64_try_from (rw_rows work) of None \<Rightarrow> Inl (index_resource ''radix row work overflow'') | Some rows \<Rightarrow>
      case u64_try_from (rw_passes work) of None \<Rightarrow> Inl (index_resource ''radix pass work overflow'') | Some passes \<Rightarrow>
      case u64_try_from (rw_dedup work) of None \<Rightarrow> Inl (index_resource ''radix dedup work overflow'') | Some dedup \<Rightarrow>
      case Option.bind (checked_mul rows 2) (\<lambda>per_pass.
           Option.bind (checked_add per_pass 256) (\<lambda>per_pass.
           Option.bind (checked_mul per_pass passes) (\<lambda>work.
           checked_add work dedup))) of
        None \<Rightarrow> Inl (index_resource ''radix work overflow'') | Some all_work \<Rightarrow> Inr all_work)"

definition row_counts :: "'w work_guard \<Rightarrow> usize \<Rightarrow> usize list \<Rightarrow> ('w, index_error, usize list) rm" where
  "row_counts G pass rows = foldR (\<lambda>chunk counts. thenR (consume_row_work G (length chunk))
     (retR (fold (\<lambda>row counts. counts[row_byte pass row := counts ! row_byte pass row + 1]) chunk counts)))
     (chunks 4096 rows) (replicate 256 0)"

text \<open>Every count becomes the sum of those before it.\<close>

fun exclusive_sums :: "usize \<Rightarrow> usize list \<Rightarrow> usize list" where
  "exclusive_sums position [] = []"
| "exclusive_sums position (n # counts) = position # exclusive_sums (position + n) counts"

definition row_scatter :: "'w work_guard \<Rightarrow> usize \<Rightarrow> usize list \<Rightarrow> usize list \<times> usize list \<Rightarrow> ('w, index_error, usize list \<times> usize list) rm" where
  "row_scatter G pass rows = foldR (\<lambda>chunk st. thenR (consume_row_work G (length chunk))
     (retR (fold (\<lambda>row (scratch, slots). (scratch[slots ! row_byte pass row := row],
        slots[row_byte pass row := slots ! row_byte pass row + 1])) chunk st))) (chunks 4096 rows)"

definition row_pass :: "'w work_guard \<Rightarrow> usize \<Rightarrow> usize list \<times> usize list \<Rightarrow> ('w, index_error, usize list \<times> usize list) rm" where
  "row_pass G pass = (\<lambda>(rows, scratch).
     bindR (row_counts G pass rows) (\<lambda>counts.
     thenR (consume_row_work G (length counts))
       (bindR (row_scatter G pass rows (scratch, exclusive_sums 0 counts)) (\<lambda>(scratch, slots).
        retR (scratch, rows)))))"

text \<open>The in-place removal of adjacent duplicates, in blocks of 4096 indices.\<close>

definition dedup_step :: "usize \<Rightarrow> usize list \<times> usize \<Rightarrow> usize list \<times> usize" where
  "dedup_step index = (\<lambda>(rows, output).
     if rows ! index \<noteq> rows ! (output - 1) then (rows[output := rows ! index], output + 1) else (rows, output))"

definition dedup_rows :: "'w work_guard \<Rightarrow> usize list \<Rightarrow> ('w, index_error, usize list) rm" where
  "dedup_rows G rows =
     bindR (foldR (\<lambda>index st. let upper = min (index + 4096) (length rows) in
        thenR (consume_row_work G (upper - index)) (retR (fold dedup_step [index..<upper] st)))
       (step_by 1 (length rows) 4096) (rows, 1)) (\<lambda>(rows, output).
     retR (take output rows))"

definition radix_sort_unique_rows :: "'w host \<Rightarrow> 'w work_guard \<Rightarrow> usize list \<Rightarrow> ('w, index_error, usize list) rm" where
  "radix_sort_unique_rows H G rows =
     (let work = radix_work_for_rows (length rows) in
      if rw_passes work = 0 then retR rows
      else bindR (index_reserve H G T_usize 0 0 (length rows) ''bounded row radix scratch allocation'') (\<lambda>_.
           bindR (foldR (row_pass G) [0..<rw_passes work] (rows, replicate (length rows) 0)) (\<lambda>(rows, scratch).
           dedup_rows G rows)))"

section \<open>The binary search\<close>

function partition_loop ::
  "'a list \<Rightarrow> 'w work_guard \<Rightarrow> ('a \<Rightarrow> bool) \<Rightarrow> usize \<Rightarrow> usize \<Rightarrow> u64 \<Rightarrow> 'w \<Rightarrow> (index_error + usize \<times> u64) \<times> 'w" where
  "partition_loop values G predicate left right work w =
     (if left < right
      then (case consume_row_work G 1 w of
          (Inl e, w') \<Rightarrow> (Inl e, w')
        | (Inr _, w') \<Rightarrow> (case checked_add work 1 of
              None \<Rightarrow> (Inl (index_resource ''partition work overflow''), w')
            | Some work' \<Rightarrow>
                let middle = left + (right - left) div 2 in
                if predicate (values ! middle) then partition_loop values G predicate (middle + 1) right work' w'
                else partition_loop values G predicate left middle work' w'))
      else (Inr (left, work), w))"
  by pat_completeness auto
termination
  by (relation "measure (\<lambda>(vs, G, p, left, right, work, w). right - left)") auto

declare partition_loop.simps [simp del]

definition guarded_partition_point_with_work ::
  "'a list \<Rightarrow> 'w work_guard \<Rightarrow> ('a \<Rightarrow> bool) \<Rightarrow> ('w, index_error, usize \<times> u64) rm" where
  "guarded_partition_point_with_work values G predicate = partition_loop values G predicate 0 (length values) 0"

definition guarded_partition_point :: "'a list \<Rightarrow> 'w work_guard \<Rightarrow> ('a \<Rightarrow> bool) \<Rightarrow> ('w, index_error, usize) rm" where
  "guarded_partition_point values G predicate =
     bindR (guarded_partition_point_with_work values G predicate) (\<lambda>(point, work). retR point)"

section \<open>What the radix sort computes\<close>

lemma row_byte_less: "row_byte pass row < 256"
  using unat_less_2p [of "to_le_bytes 8 (word_of_nat row :: u64) ! pass"] by (simp add: row_byte_def)

lemma row_digits:
  assumes "row < usize_limit"
  shows "digit_sum row_byte 8 row = row"
proof -
  have "digit_sum row_byte (length (to_le_bytes 8 (word_of_nat row :: u64))) row = le_nat (to_le_bytes 8 (word_of_nat row :: u64))"
    by (rule digit_sum_bytes) (simp add: row_byte_def)
  then show ?thesis
    using assms by (simp add: to_le_bytes_def le_nat_le_bytes_nat unat_of_nat usize_limit_eq)
qed

lemma yields_row_counts: "yieldsR (row_counts G pass rows) (bucket_counts (row_byte pass) rows)"
proof -
  let ?f = "\<lambda>row counts. counts[row_byte pass row := counts ! row_byte pass row + 1]"
  have "yieldsR (row_counts G pass rows) (fold (fold ?f) (chunks 4096 rows) (replicate 256 0))"
    unfolding row_counts_def by (rule yields_fold) (rule yields_then [OF yields_ret])
  then show ?thesis by (simp add: fold_chunks bucket_counts_def)
qed

lemma exclusive_sums_eq: "exclusive_sums p counts = map (\<lambda>b. p + sum_list (take b counts)) [0..<length counts]"
  by (induction counts arbitrary: p) (simp_all add: upt_conv_Cons map_Suc_upt [symmetric] add.assoc comp_def del: upt_Suc)

lemma yields_row_scatter: "yieldsR (row_scatter G pass rows st) (scatter (row_byte pass) rows st)"
proof -
  let ?f = "\<lambda>row (scratch, slots). (scratch[slots ! row_byte pass row := row], slots[row_byte pass row := slots ! row_byte pass row + 1])"
  have "yieldsR (row_scatter G pass rows st) (fold (fold ?f) (chunks 4096 rows) st)"
    unfolding row_scatter_def by (rule yields_fold) (rule yields_then [OF yields_ret])
  then show ?thesis by (simp add: fold_chunks scatter_def)
qed

lemma yields_row_pass:
  assumes "length scratch = length rows"
  shows "yieldsR (row_pass G pass (rows, scratch)) (sort_key (row_byte pass) rows, rows)"
proof -
  have "exclusive_sums 0 (bucket_counts (row_byte pass) rows) = bucket_offsets (bucket_counts (row_byte pass) rows)"
    by (simp add: exclusive_sums_eq bucket_offsets_def)
  then have "fst (scatter (row_byte pass) rows (scratch, exclusive_sums 0 (bucket_counts (row_byte pass) rows))) = sort_key (row_byte pass) rows"
    using scatter_sort [of rows "row_byte pass" scratch] row_byte_less assms by simp
  then show ?thesis
    unfolding row_pass_def
    by (auto intro!: yields_bind [OF yields_row_counts] yields_then yields_bind [OF yields_row_scatter] simp: split_beta yields_ret)
qed

text \<open>Adjacent duplicates: the part in front of \<open>output\<close> is done, the part from the index on is untouched.\<close>

definition deduped :: "usize list \<Rightarrow> usize \<Rightarrow> usize list \<times> usize \<Rightarrow> bool" where
  "deduped rows index st \<longleftrightarrow> length (fst st) = length rows \<and> 0 < snd st \<and> snd st \<le> index \<and>
     take (snd st) (fst st) = remdups_adj (take index rows) \<and> drop index (fst st) = drop index rows"

lemma remdups_adj_snoc:
  assumes "xs \<noteq> []"
  shows "remdups_adj (xs @ [x]) = (if last xs = x then remdups_adj xs else remdups_adj xs @ [x])"
  using remdups_adj_append [of "butlast xs" "last xs" "[x]"] assms
  by (simp add: remdups_adj_append'' del: remdups_adj_append)

lemma last_remdups_adj: "last (remdups_adj xs) = last xs"
  by (induction xs rule: remdups_adj.induct) auto

lemma dedup_step_deduped:
  assumes "deduped rows index st" and "index < length rows"
  shows "deduped rows (Suc index) (dedup_step index st)"
proof -
  obtain r out where st: "st = (r, out)" by (cases st)
  have d: "length r = length rows" "0 < out" "out \<le> index" "take out r = remdups_adj (take index rows)" "drop index r = drop index rows"
    using assms(1) by (simp_all add: deduped_def st)
  have x: "r ! index = rows ! index" using d(1,5) assms(2) by (metis hd_drop_conv_nth)
  have "last (take out r) = r ! (out - 1)" using d(1-3) assms(2) by (subst last_conv_nth) auto
  then have l: "r ! (out - 1) = last (take index rows)" using d(4) by (simp add: last_remdups_adj)
  have next_rows: "take (Suc index) rows = take index rows @ [rows ! index]" using assms(2) by (rule take_Suc_conv_app_nth)
  have step: "dedup_step index st = (if rows ! index = last (take index rows) then (r, out) else (r[out := rows ! index], out + 1))"
    unfolding dedup_step_def st prod.case x l by simp
  have ne: "take index rows \<noteq> []" using d(2,3) assms(2) by auto
  have drop: "drop (Suc index) r = drop (Suc index) rows"
    using d(5) by (metis drop_drop plus_1_eq_Suc)
  show ?thesis
  proof (cases "rows ! index = last (take index rows)")
    case True
    then have "dedup_step index st = (r, out)" by (simp add: step)
    then show ?thesis
      using d drop True by (simp add: deduped_def next_rows remdups_adj_snoc [OF ne])
  next
    case False
    then have "dedup_step index st = (r[out := rows ! index], Suc out)" by (simp add: step)
    moreover have "take (Suc out) (r[out := rows ! index]) = take out r @ [rows ! index]"
      using d(1,3) assms(2) by (simp add: take_Suc_conv_app_nth)
    ultimately show ?thesis
      using d drop False by (simp add: deduped_def next_rows remdups_adj_snoc [OF ne])
  qed
qed

lemma fold_dedup:
  assumes "rows \<noteq> []" and "0 < n" and "n \<le> length rows"
  shows "deduped rows n (fold dedup_step [1..<n] (rows, 1))"
  using assms(2,3)
proof (induction n rule: nat_induct_non_zero)
  case 1
  have "take (Suc 0) rows = remdups_adj (take (Suc 0) rows)" using assms(1) by (cases rows) simp_all
  then show ?case by (simp add: deduped_def)
next
  case (Suc n)
  then show ?case using dedup_step_deduped [of rows n] by simp
qed

lemma upt_append: "i \<le> j \<Longrightarrow> j \<le> k \<Longrightarrow> [i..<k] = [i..<j] @ [j..<k]"
  using upt_add_eq_append [of i j "k - j"] by simp

lemma blocks_upt:
  assumes "0 < step"
  shows "concat (map (\<lambda>index. [index..<min (index + step) n]) (step_by first n step)) = [first..<n]"
  using assms
proof (induction first n step rule: step_by.induct)
  case (1 first n step)
  let ?block = "\<lambda>index. [index..<min (index + step) n]"
  show ?case
  proof (cases "n \<le> first")
    case True
    then have "step_by first n step = []" by (subst step_by.simps) simp
    then show ?thesis using True by simp
  next
    case False
    then have "step_by first n step = first # step_by (first + step) n step" using "1.prems" by (subst step_by.simps) simp
    then have "concat (map ?block (step_by first n step)) = ?block first @ [first + step..<n]"
      using "1.IH" "1.prems" False by simp
    also have "\<dots> = [first..<n]"
    proof (cases "first + step \<le> n")
      case True
      then show ?thesis using upt_append [of first "first + step" n] by (simp add: min_absorb1)
    next
      case False
      then show ?thesis by (simp add: min_absorb2)
    qed
    finally show ?thesis .
  qed
qed

lemma yields_dedup:
  assumes "rows \<noteq> []"
  shows "yieldsR (dedup_rows G rows) (remdups_adj rows)"
proof -
  let ?block = "\<lambda>index. fold dedup_step [index..<min (index + 4096) (length rows)]"
  have fold: "fold ?block is st = fold dedup_step (concat (map (\<lambda>index. [index..<min (index + 4096) (length rows)]) is)) st" for "is" st
    by (induction "is" arbitrary: st) simp_all
  let ?st = "fold dedup_step [1..<length rows] (rows, 1)"
  have st: "fold ?block (step_by 1 (length rows) 4096) (rows, 1) = ?st" by (simp only: fold blocks_upt)
  have loop: "yieldsR (foldR (\<lambda>index st. let upper = min (index + 4096) (length rows) in
      thenR (consume_row_work G (upper - index)) (retR (fold dedup_step [index..<upper] st))) (step_by 1 (length rows) 4096) (rows, 1)) ?st"
    unfolding st [symmetric] Let_def by (rule yields_fold) (rule yields_then [OF yields_ret])
  have eq: "take (snd ?st) (fst ?st) = remdups_adj rows"
    using fold_dedup [OF assms, of "length rows"] assms by (simp add: deduped_def)
  have "yieldsR (case ?st of (rows, output) \<Rightarrow> retR (take output rows)) (remdups_adj rows)"
    unfolding split_beta eq by (rule yields_ret)
  then show ?thesis unfolding dedup_rows_def by (rule yields_bind [OF loop])
qed

lemma distinct_remdups_adj_sorted: "sorted xs \<Longrightarrow> distinct (remdups_adj xs)" for xs :: "'a :: linorder list"
  by (induction xs rule: remdups_adj.induct) (auto simp: remdups_adj_set)

lemma insort_key_agree: "\<forall>y \<in> insert x (set xs). f y = g y \<Longrightarrow> insort_key f x xs = insort_key g x xs"
  by (induction xs) simp_all

lemma sort_key_agree: "\<forall>y \<in> set xs. f y = g y \<Longrightarrow> sort_key f xs = sort_key g xs"
  by (induction xs) (simp_all add: insort_key_agree)

lemma yields_radix_sort_unique:
  assumes "\<forall>row \<in> set rows. row < usize_limit"
  shows "yieldsR (radix_sort_unique_rows H G rows) (sorted_list_of_set (set rows))"
proof (cases "length rows < 2")
  case True
  then have "sorted_list_of_set (set rows) = rows" by (cases rows rule: remdups_adj.cases) simp_all
  then show ?thesis using True by (simp add: radix_sort_unique_rows_def radix_work_for_rows_def Let_def yields_ret del: retR_apply)
next
  case False
  have "sort_key (digit_sum row_byte 8) rows = sort rows"
    using assms by (intro sort_key_agree) (simp_all add: row_digits)
  moreover have "remdups_adj (sort rows) = sorted_list_of_set (set rows)"
    by (rule sorted_distinct_set_unique) (simp_all add: sorted_remdups_adj distinct_remdups_adj_sorted)
  moreover have "sort rows \<noteq> []" using False by (cases rows) auto
  ultimately have dedup: "yieldsR (dedup_rows G (sort_key (digit_sum row_byte 8) rows)) (sorted_list_of_set (set rows))"
    using yields_dedup [of "sort rows" G] by simp
  have loop: "yieldsR (foldR (row_pass G) [0..<8] (rows, replicate (length rows) 0))
      (sort_key (digit_sum row_byte 8) rows, sort_key (digit_sum row_byte 7) rows)"
    using yields_radix [where f = "row_pass G" and d = row_byte and xs = rows and n = 8, OF yields_row_pass row_byte_less] by simp
  have "yieldsR (bindR (foldR (row_pass G) [0..<8] (rows, replicate (length rows) 0)) (\<lambda>(rows, scratch). dedup_rows G rows))
      (sorted_list_of_set (set rows))"
    by (rule yields_bind [OF loop]) (unfold prod.case, rule dedup)
  moreover have "rw_passes (radix_work_for_rows (length rows)) = 8" using False by (simp add: radix_work_for_rows_def)
  ultimately show ?thesis
    unfolding radix_sort_unique_rows_def Let_def by (simp add: yields_bind_any)
qed

section \<open>What the binary search computes\<close>

text \<open>Between the bounds lies the point where the predicate changes; a step halves the distance.\<close>

lemma halved:
  assumes "k + 1 \<le> (work :: nat)" and "2 ^ (work - (k + 1)) \<le> max 1 (2 * half)" and "half \<le> whole div 2" and "0 < (whole :: nat)"
  shows "k \<le> work \<and> (2 :: nat) ^ (work - k) \<le> max 1 (2 * whole)"
proof -
  have "(2 :: nat) ^ (work - k) = 2 * 2 ^ (work - (k + 1))"
    using assms(1) by (metis Suc_diff_le add.commute diff_Suc_Suc plus_1_eq_Suc power_Suc)
  then show ?thesis using assms by (simp add: max_def split: if_splits)
qed

lemma partition_loop_Inr:
  assumes "partition_loop vs G p l r k w = (Inr (point, work), w')" and "l \<le> r" and "r \<le> length vs"
    and "\<forall>i < l. p (vs ! i)" and "\<forall>i. r \<le> i \<and> i < length vs \<longrightarrow> \<not> p (vs ! i)"
    and "\<forall>i j. i < j \<and> j < length vs \<and> p (vs ! j) \<longrightarrow> p (vs ! i)"
  shows "point \<le> length vs \<and> (\<forall>i < point. p (vs ! i)) \<and> (\<forall>i. point \<le> i \<and> i < length vs \<longrightarrow> \<not> p (vs ! i)) \<and>
    unat k \<le> unat work \<and> 2 ^ (unat work - unat k) \<le> max 1 (2 * (r - l))"
  using assms
proof (induction vs G p l r k w rule: partition_loop.induct)
  case (1 vs G p l r k w)
  show ?case
  proof (cases "l < r")
    case False
    then have "point = l" "work = k" "l = r" using "1.prems"(1,2) unfolding partition_loop.simps [of vs G p l r k w] by simp_all
    then show ?thesis using "1.prems" by simp
  next
    case True
    let ?m = "l + (r - l) div 2"
    have m: "l \<le> ?m" "?m < r" "?m < length vs" using True "1.prems"(3) by auto
    from "1.prems"(1) True obtain w1 k1 where g: "consume_row_work G 1 w = (Inr (), w1)" and k1: "checked_add k 1 = Some k1"
      and rest: "(if p (vs ! ?m) then partition_loop vs G p (?m + 1) r k1 w1 else partition_loop vs G p l ?m k1 w1) = (Inr (point, work), w')"
      unfolding partition_loop.simps [of vs G p l r k w] Let_def
      by (cases "consume_row_work G 1 w"; cases "fst (consume_row_work G 1 w)"; cases "checked_add k 1") simp_all
    have u: "unat k1 = unat k + 1" using checked_add_unat [OF k1] by simp
    show ?thesis
    proof (cases "p (vs ! ?m)")
      case left: True
      have "\<forall>i < ?m + 1. p (vs ! i)" using left m(3) "1.prems"(6) by (metis Suc_eq_plus1 less_Suc_eq)
      then have ih: "point \<le> length vs \<and> (\<forall>i < point. p (vs ! i)) \<and> (\<forall>i. point \<le> i \<and> i < length vs \<longrightarrow> \<not> p (vs ! i)) \<and>
          unat k1 \<le> unat work \<and> 2 ^ (unat work - unat k1) \<le> max 1 (2 * (r - (?m + 1)))"
        using "1.IH"(1) [OF True g [symmetric] refl k1 refl left] rest left m "1.prems" by simp
      then show ?thesis using halved [of "unat k" "unat work" "r - (?m + 1)" "r - l"] True u by simp
    next
      case right: False
      have "\<forall>i. ?m \<le> i \<and> i < length vs \<longrightarrow> \<not> p (vs ! i)" using right "1.prems"(6) by (metis le_neq_implies_less)
      then have ih: "point \<le> length vs \<and> (\<forall>i < point. p (vs ! i)) \<and> (\<forall>i. point \<le> i \<and> i < length vs \<longrightarrow> \<not> p (vs ! i)) \<and>
          unat k1 \<le> unat work \<and> 2 ^ (unat work - unat k1) \<le> max 1 (2 * (?m - l))"
        using "1.IH"(2) [OF True g [symmetric] refl k1 refl right] rest right m "1.prems" by simp
      then show ?thesis using halved [of "unat k" "unat work" "?m - l" "r - l"] True u by simp
    qed
  qed
qed

section \<open>What the guard is charged\<close>

text \<open>A reading of the guard's state that grows by the rows of every accepted request, and by nothing else.\<close>

definition meters :: "'w host \<Rightarrow> 'w work_guard \<Rightarrow> ('w \<Rightarrow> nat) \<Rightarrow> bool" where
  "meters H G charged \<longleftrightarrow>
     (\<forall>d w u w'. wg_consume G d w = (Inr u, w') \<longrightarrow> charged w' = charged w + unat (wd_rows d)) \<and>
     (\<forall>d s w u w'. wg_begin_allocation_scope G d s w = (Inr u, w') \<longrightarrow> charged w' = charged w + unat (wd_rows d)) \<and>
     (\<forall>w. charged (wg_end_allocation_scope G w) = charged w) \<and>
     (\<forall>n w. charged (snd (heap_reserve H n w)) = charged w)"

definition chargesR :: "('w \<Rightarrow> nat) \<Rightarrow> ('w, 'e, 'a) rm \<Rightarrow> nat \<Rightarrow> bool" where
  "chargesR charged m n \<longleftrightarrow> (\<forall>w x w'. m w = (Inr x, w') \<longrightarrow> charged w' = charged w + n)"

lemma charges_ret: "chargesR charged (retR x) 0"
  by (simp add: chargesR_def)

lemma charges_bind: "chargesR charged m a \<Longrightarrow> (\<And>x. chargesR charged (k x) b) \<Longrightarrow> chargesR charged (bindR m k) (a + b)"
  unfolding chargesR_def bindR_Inr by (metis add.assoc)

lemma charges_bind_value:
  "chargesR charged m a \<Longrightarrow> yieldsR m x \<Longrightarrow> chargesR charged (k x) b \<Longrightarrow> chargesR charged (bindR m k) (a + b)"
  unfolding chargesR_def yieldsR_def bindR_Inr by (metis add.assoc)

lemma charges_then: "chargesR charged m a \<Longrightarrow> chargesR charged n b \<Longrightarrow> chargesR charged (thenR m n) (a + b)"
  unfolding thenR_def by (rule charges_bind)

lemma charges_fold:
  assumes "\<And>x a. x \<in> set xs \<Longrightarrow> chargesR charged (f x a) (c x)"
  shows "chargesR charged (foldR f xs a) (sum_list (map c xs))"
  using assms
proof (induction xs arbitrary: a)
  case Nil
  then show ?case by (simp add: foldR_Nil charges_ret del: foldR.simps retR_apply)
next
  case (Cons x xs)
  have "chargesR charged (bindR (f x a) (foldR f xs)) (c x + sum_list (map c xs))"
    using Cons by (intro charges_bind) simp_all
  then show ?case by (simp add: foldR_Cons del: foldR.simps)
qed

lemma charges_row_work:
  assumes "meters H G charged" and "n < usize_limit"
  shows "chargesR charged (consume_row_work G n) n"
  using assms by (auto simp: chargesR_def consume_row_work_def index_consume_def meters_def u64_try_from_def unat_of_nat usize_limit_eq)

lemma charges_mapErr: "chargesR charged m a \<Longrightarrow> chargesR charged (mapErrR f m) a"
  by (simp add: chargesR_def)

lemma charges_scope:
  assumes "meters H G charged" and "chargesR charged body 0"
  shows "chargesR charged (store_scope G b sl body) 0"
proof -
  have "chargesR charged (allocation_scope_begin G b sl) 0"
    using assms(1) by (simp add: chargesR_def allocation_scope_begin_def allocation_scope_begin_with_delta_def meters_def work_default_def)
  moreover have "chargesR charged (\<lambda>w. case body w of (r, w') \<Rightarrow> (r, allocation_scope_drop G w')) 0"
    using assms by (simp add: chargesR_def allocation_scope_drop_def meters_def split: prod.split)
  ultimately show ?thesis
    unfolding store_scope_def by (subst add_0 [symmetric]) (intro charges_bind charges_mapErr)
qed

lemma charges_try_reserve:
  assumes "meters H G charged"
  shows "chargesR charged (\<lambda>w. case try_reserve H n w of (ok, w') \<Rightarrow> (if ok then Inr c else Inl e, w')) 0"
proof -
  have "charged (snd (try_reserve H n w)) = charged w" for w
    using assms by (simp add: try_reserve_def meters_def)
  then show ?thesis by (auto simp: chargesR_def split_beta)
qed

lemma charges_pure: "chargesR charged (resultR r) 0" "chargesR charged (optionR e v) 0"
  by (simp_all add: chargesR_def)

lemma charges_reserve:
  assumes "meters H G charged"
  shows "chargesR charged (index_reserve H G T len cap additional label) 0"
proof -
  note scope = charges_scope [OF assms charges_try_reserve [OF assms]]
  have bind: "chargesR charged (bindR m k) 0" if "chargesR charged m 0" "\<And>x. chargesR charged (k x) 0" for m k
    using charges_bind [of charged m 0 k 0] that by simp
  show ?thesis
    unfolding index_reserve_def store_reserve_vec_def
    by (intro charges_mapErr bind charges_pure) (simp add: scope charges_ret bind charges_pure del: retR_apply)
qed

lemma charges_chunks:
  assumes "meters H G charged" and "length rows < usize_limit"
  shows "chargesR charged (foldR (\<lambda>chunk st. thenR (consume_row_work G (length chunk)) (retR (f chunk st))) (chunks 4096 rows) st) (length rows)"
proof -
  have chunk: "length chunk < usize_limit" if "chunk \<in> set (chunks 4096 rows)" for chunk
  proof -
    have "length chunk \<le> length (concat (chunks 4096 rows))"
      using that by (simp add: length_concat member_le_sum_list)
    then show ?thesis using assms(2) by (simp add: concat_chunks)
  qed
  have "chargesR charged (thenR (consume_row_work G (length chunk)) (retR (f chunk st))) (length chunk)"
    if "chunk \<in> set (chunks 4096 rows)" for chunk st
    using charges_then [OF charges_row_work [OF assms(1) chunk [OF that]] charges_ret] by simp
  then have "chargesR charged (foldR (\<lambda>chunk st. thenR (consume_row_work G (length chunk)) (retR (f chunk st))) (chunks 4096 rows) st)
      (sum_list (map length (chunks 4096 rows)))"
    by (rule charges_fold)
  then show ?thesis by (simp add: concat_chunks flip: length_concat)
qed

lemma length_bucket_counts: "length (bucket_counts d xs) = 256"
proof -
  have "length (fold (\<lambda>x counts. counts[d x := counts ! d x + 1]) xs counts) = length counts" for counts :: "usize list"
    by (induction xs arbitrary: counts) simp_all
  then show ?thesis by (simp add: bucket_counts_def)
qed

lemma charges_row_pass:
  assumes "meters H G charged" and "length rows < usize_limit"
  shows "chargesR charged (row_pass G pass (rows, scratch)) (2 * length rows + 256)"
proof -
  note chunks = charges_chunks [OF assms]
  have slots: "chargesR charged (consume_row_work G (length (bucket_counts (row_byte pass) rows))) 256"
    using charges_row_work [OF assms(1), of 256] by (simp add: usize_limit_eq length_bucket_counts)
  have "chargesR charged (row_pass G pass (rows, scratch)) (length rows + (256 + (length rows + 0)))"
    unfolding row_pass_def prod.case
  proof (rule charges_bind_value [OF _ yields_row_counts])
    show "chargesR charged (row_counts G pass rows) (length rows)" unfolding row_counts_def by (rule chunks)
    show "chargesR charged (thenR (consume_row_work G (length (bucket_counts (row_byte pass) rows)))
        (bindR (row_scatter G pass rows (scratch, exclusive_sums 0 (bucket_counts (row_byte pass) rows))) (\<lambda>(scratch, slots). retR (scratch, rows))))
        (256 + (length rows + 0))"
      unfolding row_scatter_def by (intro charges_then slots charges_bind chunks) (simp add: charges_ret split_beta del: retR_apply)
  qed
  moreover have "length rows + (256 + (length rows + 0)) = 2 * length rows + 256" by simp
  ultimately show ?thesis by (simp only:)
qed

lemma charges_row_passes:
  assumes "meters H G charged" and "length rows < usize_limit"
  shows "chargesR charged (foldR (row_pass G) [0..<n] (rows, replicate (length rows) 0)) (n * (2 * length rows + 256))"
proof (induction n)
  case 0
  show ?case by (simp add: foldR_Nil charges_ret del: foldR.simps retR_apply)
next
  case (Suc n)
  have loop: "yieldsR (foldR (row_pass G) [0..<n] (rows, replicate (length rows) 0))
      (sort_key (digit_sum row_byte n) rows, if n = 0 then replicate (length rows) 0 else sort_key (digit_sum row_byte (n - 1)) rows)"
    by (rule yields_radix [OF yields_row_pass row_byte_less]) simp_all
  have "chargesR charged (bindR (foldR (row_pass G) [0..<n] (rows, replicate (length rows) 0)) (row_pass G n))
      (n * (2 * length rows + 256) + (2 * length rows + 256))"
    using charges_row_pass [OF assms(1), of "sort_key (digit_sum row_byte n) rows"] assms(2)
    by (intro charges_bind_value [OF Suc loop]) simp
  then show ?case by (simp add: foldR_snoc add.commute upt_Suc_append del: upt_Suc)
qed

lemma charges_dedup:
  assumes "meters H G charged" and "length rows < usize_limit"
  shows "chargesR charged (dedup_rows G rows) (length rows - 1)"
proof -
  let ?n = "length rows" and ?blocks = "step_by 1 (length rows) 4096"
  have "chargesR charged (let upper = min (index + 4096) ?n in
      thenR (consume_row_work G (upper - index)) (retR (fold dedup_step [index..<upper] st))) (min (index + 4096) ?n - index)" for index st
    unfolding Let_def
    using charges_then [OF charges_row_work [OF assms(1), of "min (index + 4096) ?n - index"] charges_ret] assms(2)
    by (simp add: less_imp_diff_less)
  then have "chargesR charged (foldR (\<lambda>index st. let upper = min (index + 4096) ?n in
      thenR (consume_row_work G (upper - index)) (retR (fold dedup_step [index..<upper] st))) ?blocks (rows, 1))
      (sum_list (map (\<lambda>index. min (index + 4096) ?n - index) ?blocks))"
    by (rule charges_fold)
  moreover have "sum_list (map (\<lambda>index. min (index + 4096) ?n - index) ?blocks) = length [1..<?n]"
    using arg_cong [OF blocks_upt [of 4096 ?n 1], of length] by (simp add: length_concat comp_def)
  ultimately have "chargesR charged (dedup_rows G rows) (length [1..<?n] + 0)"
    unfolding dedup_rows_def by (intro charges_bind) (simp_all add: split_beta charges_ret del: retR_apply)
  then show ?thesis by simp
qed

lemma checked_of_nat:
  "a + b < 2 ^ 64 \<Longrightarrow> checked_add (word_of_nat a :: u64) (word_of_nat b) = Some (word_of_nat (a + b))"
  "a * b < 2 ^ 64 \<Longrightarrow> a < 2 ^ 64 \<Longrightarrow> b < 2 ^ 64 \<Longrightarrow> checked_mul (word_of_nat a :: u64) (word_of_nat b) = Some (word_of_nat (a * b))"
  by (simp_all add: checked_add_def checked_mul_def unat_of_nat)

lemma radix_total:
  assumes "n < 2 ^ 50"
  shows "\<exists>t. radix_checked_total (radix_work_for_rows n) = Inr t \<and>
    unat t = rw_passes (radix_work_for_rows n) * (2 * n + 256) + rw_dedup (radix_work_for_rows n)"
proof (cases "n < 2")
  case True
  then show ?thesis
    by (cases n) (auto simp: radix_checked_total_def radix_work_for_rows_def u64_try_from_def usize_limit_eq checked_add_def checked_mul_def)
next
  case False
  then have passes: "rw_passes (radix_work_for_rows n) = 8" and dedup: "rw_dedup (radix_work_for_rows n) = n - 1"
    and rows: "rw_rows (radix_work_for_rows n) = n"
    by (simp_all add: radix_work_for_rows_def)
  have tries: "u64_try_from n = Some (word_of_nat n)" "u64_try_from 8 = Some (word_of_nat 8)"
    "u64_try_from (n - 1) = Some (word_of_nat (n - 1))"
    using assms by (simp_all add: u64_try_from_def usize_limit_eq)
  have steps: "checked_mul (word_of_nat n :: u64) 2 = Some (word_of_nat (n * 2))"
    "checked_add (word_of_nat (n * 2) :: u64) 256 = Some (word_of_nat (n * 2 + 256))"
    "checked_mul (word_of_nat (n * 2 + 256) :: u64) (word_of_nat 8) = Some (word_of_nat ((n * 2 + 256) * 8))"
    "checked_add (word_of_nat ((n * 2 + 256) * 8) :: u64) (word_of_nat (n - 1)) = Some (word_of_nat ((n * 2 + 256) * 8 + (n - 1)))"
    using assms checked_of_nat(2) [of n 2] checked_of_nat(1) [of "n * 2" 256] checked_of_nat(2) [of "n * 2 + 256" 8]
      checked_of_nat(1) [of "(n * 2 + 256) * 8" "n - 1"]
    by (simp_all only: of_nat_numeral) auto
  have "radix_checked_total (radix_work_for_rows n) = Inr (word_of_nat ((n * 2 + 256) * 8 + (n - 1)))"
    unfolding radix_checked_total_def passes dedup rows tries option.case steps bind.simps ..
  moreover have "unat (word_of_nat ((n * 2 + 256) * 8 + (n - 1)) :: u64) = (n * 2 + 256) * 8 + (n - 1)"
    using assms by (subst unat_of_nat) simp
  ultimately show ?thesis unfolding passes dedup by (auto simp: algebra_simps)
qed

lemma charges_radix_sort:
  assumes "meters H G charged" and "length rows < usize_limit"
  shows "chargesR charged (radix_sort_unique_rows H G rows)
    (rw_passes (radix_work_for_rows (length rows)) * (2 * length rows + 256) + rw_dedup (radix_work_for_rows (length rows)))"
proof (cases "length rows < 2")
  case True
  then show ?thesis by (simp add: radix_sort_unique_rows_def radix_work_for_rows_def Let_def charges_ret del: retR_apply)
next
  case False
  have loop: "yieldsR (foldR (row_pass G) [0..<8] (rows, replicate (length rows) 0))
      (sort_key (digit_sum row_byte 8) rows, sort_key (digit_sum row_byte 7) rows)"
    using yields_radix [where f = "row_pass G" and d = row_byte and xs = rows and n = 8, OF yields_row_pass row_byte_less] by simp
  have "chargesR charged (dedup_rows G (sort_key (digit_sum row_byte 8) rows)) (length rows - 1)"
    using charges_dedup [OF assms(1), of "sort_key (digit_sum row_byte 8) rows"] assms(2) by simp
  then have "chargesR charged (case (sort_key (digit_sum row_byte 8) rows, sort_key (digit_sum row_byte 7) rows) of
      (rows, scratch) \<Rightarrow> dedup_rows G rows) (length rows - 1)"
    unfolding prod.case .
  then have "chargesR charged (bindR (foldR (row_pass G) [0..<8] (rows, replicate (length rows) 0)) (\<lambda>(rows, scratch). dedup_rows G rows))
      (8 * (2 * length rows + 256) + (length rows - 1))"
    by (rule charges_bind_value [OF charges_row_passes [OF assms] loop])
  then have "chargesR charged (bindR (index_reserve H G T_usize 0 0 (length rows) label)
      (\<lambda>_. bindR (foldR (row_pass G) [0..<8] (rows, replicate (length rows) 0)) (\<lambda>(rows, scratch). dedup_rows G rows)))
      (0 + (8 * (2 * length rows + 256) + (length rows - 1)))" for label
    by (rule charges_bind [OF charges_reserve [OF assms(1)]])
  moreover have "rw_passes (radix_work_for_rows (length rows)) = 8" "rw_dedup (radix_work_for_rows (length rows)) = length rows - 1"
    using False by (simp_all add: radix_work_for_rows_def)
  ultimately show ?thesis unfolding radix_sort_unique_rows_def Let_def by simp
qed

lemma partition_loop_charges:
  assumes "meters H G charged" and "partition_loop vs G p l r k w = (Inr (point, work), w')"
  shows "unat work + charged w = unat k + charged w'"
  using assms(2)
proof (induction "r - l" arbitrary: l r k w rule: less_induct)
  case less
  show ?case
  proof (cases "l < r")
    case False
    then show ?thesis using less.prems by (subst (asm) partition_loop.simps) simp
  next
    case True
    let ?m = "l + (r - l) div 2"
    from less.prems True obtain w1 k1 where g: "consume_row_work G 1 w = (Inr (), w1)" and k1: "checked_add k 1 = Some k1"
      and rest: "(if p (vs ! ?m) then partition_loop vs G p (?m + 1) r k1 w1 else partition_loop vs G p l ?m k1 w1) = (Inr (point, work), w')"
      unfolding partition_loop.simps [of vs G p l r k w] Let_def
      by (cases "consume_row_work G 1 w"; cases "fst (consume_row_work G 1 w)"; cases "checked_add k 1") simp_all
    have "unat work + charged w1 = unat k1 + charged w'"
      using rest less.hyps [of r "?m + 1"] less.hyps [of ?m l] True by (cases "p (vs ! ?m)") simp_all
    moreover have "charged w1 = charged w + 1"
      using charges_row_work [OF assms(1), of 1] g by (simp add: chargesR_def usize_limit_eq)
    ultimately show ?thesis using checked_add_unat [OF k1] by simp
  qed
qed

context permissive_guard
begin

lemma ok_radix_sort_unique:
  assumes "roomy H" and "length rows < 2 ^ 50"
  shows "okR (radix_sort_unique_rows H G rows)"
proof -
  have pass: "okR (row_pass G pass st)" for pass st
    unfolding row_pass_def row_counts_def row_scatter_def split_beta
    by (intro ok_bind ok_then ok_fold ok_row_work ok_ret)
  have dedup: "okR (dedup_rows G rows)" for rows
    unfolding dedup_rows_def split_beta Let_def by (intro ok_bind ok_then ok_fold ok_row_work ok_ret)
  have "okR (bindR (index_reserve H G T_usize 0 0 (length rows) label) (\<lambda>_. bindR (foldR (row_pass G) passes st) (\<lambda>(rows, scratch). dedup_rows G rows)))"
    for label passes st
    unfolding split_beta using assms by (intro ok_bind ok_fold pass dedup ok_index_reserve) simp_all
  then show ?thesis by (simp add: radix_sort_unique_rows_def Let_def ok_ret del: retR_apply)
qed

lemma ok_partition:
  assumes "unat k + (r - l) < 2 ^ 64"
  shows "\<exists>x w'. partition_loop vs G p l r k w = (Inr x, w')"
  using assms
proof (induction "r - l" arbitrary: l r k w rule: less_induct)
  case less
  show ?case
  proof (cases "l < r")
    case False
    then show ?thesis by (subst partition_loop.simps) simp
  next
    case True
    let ?m = "l + (r - l) div 2"
    obtain w1 where g: "consume_row_work G 1 w = (Inr (), w1)" using okD [OF ok_row_work] by fastforce
    have k1: "checked_add k 1 = Some (k + 1)" using less.prems True by (simp add: checked_add_def)
    then have u: "unat (k + 1) = unat k + 1" using checked_add_unat by fastforce
    have "\<exists>x w'. (if p (vs ! ?m) then partition_loop vs G p (?m + 1) r (k + 1) w1 else partition_loop vs G p l ?m (k + 1) w1) = (Inr x, w')"
      using less.hyps [of r "?m + 1" "k + 1" w1] less.hyps [of ?m l "k + 1" w1] less.prems True u by auto
    then show ?thesis using True g k1 by (subst partition_loop.simps) (simp add: Let_def)
  qed
qed

end

section \<open>Properties\<close>

text \<open>
  C32. The radix sort of row numbers computes the sorted list of the distinct rows. A run that succeeds
  returns it whatever the guard does, and where the guard refuses nothing and memory is available the
  run succeeds.
\<close>

theorem row_sort_unique:
  assumes "\<forall>row \<in> set rows. row < usize_limit" and "length rows < 2 ^ 50"
  shows "(\<forall>rows' w'. radix_sort_unique_rows H G rows w = (Inr rows', w') \<longrightarrow> rows' = sorted_list_of_set (set rows)) \<and>
    (permissive_guard G \<and> roomy H \<longrightarrow> (\<exists>rows' w'. radix_sort_unique_rows H G rows w = (Inr rows', w')))"
proof (intro conjI allI impI)
  show "rows' = sorted_list_of_set (set rows)" if "radix_sort_unique_rows H G rows w = (Inr rows', w')" for rows' w'
    by (rule yieldsD [OF yields_radix_sort_unique [OF assms(1)] that])
  show "\<exists>rows' w'. radix_sort_unique_rows H G rows w = (Inr rows', w')" if "permissive_guard G \<and> roomy H"
    by (rule okD [OF permissive_guard.ok_radix_sort_unique [OF _ _ assms(2)]]) (use that in simp_all)
qed

theorem row_sort_unique_witness:
  "\<exists>w'. radix_sort_unique_rows unbounded_host allow_state_work [300, 7, 300, 2] () = (Inr [2, 7, 300], w')"
proof -
  let ?rows = "[300, 7, 300, 2 :: nat]"
  have rows: "\<forall>row \<in> set ?rows. row < usize_limit" and len: "length ?rows < 2 ^ 50" by (simp_all add: usize_limit_eq)
  note * = row_sort_unique [OF rows len, of unbounded_host allow_state_work "()"]
  obtain rows' w' where run: "radix_sort_unique_rows unbounded_host allow_state_work ?rows () = (Inr rows', w')"
    using * allow_all.permissive_guard_axioms roomy_unbounded_host by blast
  moreover from run * have "rows' = sorted_list_of_set (set ?rows)" by blast
  moreover have "sorted_list_of_set (set [300, 7, 300, 2 :: nat]) = [2, 7, 300]"
    by (simp only: sorted_list_of_set_sort_remdups) simp
  ultimately show ?thesis by auto
qed

text \<open>
  C33. The work the store announces for sorting rows is the work done: a run that succeeds has charged
  the guard exactly the rows of \<open>RadixWork::for_rows(len).checked_total()\<close>, which does not overflow.
\<close>

theorem row_sort_charges:
  assumes "meters H G charged" and "length rows < 2 ^ 50"
    and "radix_sort_unique_rows H G rows w = (Inr rows', w')"
  shows "\<exists>t. radix_checked_total (radix_work_for_rows (length rows)) = Inr t \<and> charged w' = charged w + unat t"
proof -
  have "length rows < usize_limit" using assms(2) by (simp add: usize_limit_eq)
  from charges_radix_sort [OF assms(1) this] show ?thesis
    using radix_total [OF assms(2)] assms(3) by (auto simp: chargesR_def)
qed

text \<open>A guard that accepts everything and counts the rows.\<close>

definition counting_guard :: "nat work_guard" where
  "counting_guard = default_guard (\<lambda>delta n. (Inr (), n + unat (wd_rows delta)))"

lemma counting_guard_meters: "meters unbounded_host counting_guard (\<lambda>n. n)"
  by (simp add: meters_def counting_guard_def default_guard_def unbounded_host_def)

lemma counting_guard_permits: "permissive_guard counting_guard"
  by unfold_locales (simp_all add: counting_guard_def default_guard_def)

theorem row_sort_charges_witness:
  "\<exists>rows'. radix_sort_unique_rows unbounded_host counting_guard [300, 7, 300, 2] 0 = (Inr rows', 2115)"
proof -
  obtain rows' n where run: "radix_sort_unique_rows unbounded_host counting_guard [300, 7, 300, 2] 0 = (Inr rows', n)"
    using okD [OF permissive_guard.ok_radix_sort_unique [OF counting_guard_permits roomy_unbounded_host]] by fastforce
  have len: "length [300, 7, 300, 2 :: nat] = 4" by simp
  have "length [300, 7, 300, 2 :: nat] < 2 ^ 50" by simp
  from row_sort_charges [OF counting_guard_meters this run]
  obtain t where t: "radix_checked_total (radix_work_for_rows 4) = Inr t" "n = 0 + unat t" unfolding len by blast
  have "unat t = 2115" using radix_total [of 4] t(1) by (auto simp: radix_work_for_rows_def)
  then show ?thesis using run t(2) by auto
qed

text \<open>
  C34. The guarded binary search finds the partition point of a predicate that is true on a prefix of the
  values: the number of values it holds for. It looks at no more than 1 + log2 of the length many values,
  charges the guard one row for each and reports that number; where the guard refuses nothing it succeeds.
\<close>

theorem partition_point_found:
  assumes "\<forall>i j. i < j \<and> j < length vs \<and> p (vs ! j) \<longrightarrow> p (vs ! i)" and "length vs < usize_limit"
  shows "(\<forall>point work w'. guarded_partition_point_with_work vs G p w = (Inr (point, work), w') \<longrightarrow>
      point \<le> length vs \<and> (\<forall>i < length vs. p (vs ! i) \<longleftrightarrow> i < point) \<and> 2 ^ unat work \<le> max 1 (2 * length vs) \<and>
      (\<forall>charged. meters H G charged \<longrightarrow> charged w' = charged w + unat work)) \<and>
    (permissive_guard G \<longrightarrow> (\<exists>point work w'. guarded_partition_point_with_work vs G p w = (Inr (point, work), w')))"
proof (intro conjI allI impI)
  fix point work w'
  assume run: "guarded_partition_point_with_work vs G p w = (Inr (point, work), w')"
  note loop = run [unfolded guarded_partition_point_with_work_def]
  have found: "point \<le> length vs \<and> (\<forall>i < point. p (vs ! i)) \<and> (\<forall>i. point \<le> i \<and> i < length vs \<longrightarrow> \<not> p (vs ! i)) \<and>
      unat (0 :: u64) \<le> unat work \<and> 2 ^ (unat work - unat (0 :: u64)) \<le> max 1 (2 * (length vs - 0))"
    by (rule partition_loop_Inr [OF loop _ _ _ _ assms(1)]) auto
  then show "point \<le> length vs" "2 ^ unat work \<le> max 1 (2 * length vs)" by simp_all
  show "p (vs ! i) \<longleftrightarrow> i < point" if "i < length vs" for i using found that by (meson linorder_not_less)
  show "charged w' = charged w + unat work" if "meters H G charged" for charged
    using partition_loop_charges [OF that loop] by simp
next
  assume "permissive_guard G"
  from permissive_guard.ok_partition [OF this, of 0 "length vs" 0 vs p w]
  show "\<exists>point work w'. guarded_partition_point_with_work vs G p w = (Inr (point, work), w')"
    using assms(2) by (auto simp: guarded_partition_point_with_work_def usize_limit_eq)
qed

theorem partition_point_found_witness:
  "\<exists>point work n. guarded_partition_point_with_work [1 :: nat, 3, 5, 7, 9] counting_guard (\<lambda>v. v < 6) 0 = (Inr (point, work), n) \<and>
     point = 3 \<and> n = unat work \<and> 2 ^ unat work \<le> (10 :: nat)"
proof -
  let ?vs = "[1 :: nat, 3, 5, 7, 9]" and ?p = "\<lambda>v :: nat. v < 6"
  have mono: "\<forall>i j. i < j \<and> j < length ?vs \<and> ?p (?vs ! j) \<longrightarrow> ?p (?vs ! i)"
  proof (intro allI impI)
    fix i j
    assume ij: "i < j \<and> j < length ?vs \<and> ?p (?vs ! j)"
    have "sorted ?vs" by simp
    then have "?vs ! i \<le> ?vs ! j" using ij by (intro sorted_nth_mono) simp_all
    also have "\<dots> < 6" using ij by blast
    finally show "?p (?vs ! i)" .
  qed
  have len: "length ?vs < usize_limit" by (simp add: usize_limit_eq)
  note * = partition_point_found [OF mono len, of counting_guard 0 unbounded_host]
  obtain point work n where run: "guarded_partition_point_with_work ?vs counting_guard ?p 0 = (Inr (point, work), n)"
    using * counting_guard_permits by blast
  with * have found: "point \<le> length ?vs" "\<forall>i < length ?vs. ?p (?vs ! i) \<longleftrightarrow> i < point" "2 ^ unat work \<le> max 1 (2 * length ?vs)"
    "\<forall>charged. meters unbounded_host counting_guard charged \<longrightarrow> charged n = charged 0 + unat work"
    by blast+
  have "?p (?vs ! 2) \<longleftrightarrow> 2 < point" "?p (?vs ! 3) \<longleftrightarrow> 3 < point" 
    using spec [OF found(2), of 2] spec [OF found(2), of 3] by auto
  then have "point = 3" by simp
  moreover have "n = unat work" using found(4) counting_guard_meters by fastforce
  ultimately show ?thesis using run found(3) by auto
qed

end
