(* ===== verification/Spec2Isabelle.thy ===== *)
theory Spec2Isabelle
  imports Qtrb_Budget Service_Jobs Flight_Sort Store_Rows
begin

text \<open>
  A verification development for the offline analyzer of qtrace (\<open>src/qtrace-ui/crates\<close>).

  \<^bold>\<open>The program.\<close> A tracer on an Android device writes what a program executes into QTRB streams. The
  analyzer reads them on a desktop. It has four crates. \<open>qtrace-provider\<close> decodes traces into events;
  every allocation and every piece of work it does is first authorized by a work guard. \<open>qtrace-store\<close>
  builds and caches an index over the events. \<open>qtrace-analysis\<close> answers queries. \<open>qtrace-service\<close> runs
  requests as background jobs, gives each a budget that acts as its work guard, and sends results and
  errors to the user interface.

  \<^bold>\<open>Modelling.\<close> Rust integers are words of their width and \<open>usize\<close> is \<^typ>\<open>nat\<close> with the limit \<open>usize_limit\<close>
  written out; strings are their UTF-8 bytes. Code that may fail is a function of type \<open>rm\<close>: it takes a
  state and returns an error or a value together with the new state. The state of everything outside the
  program (guard, allocator, files) is a type parameter, the world. A guard is a record of operations on
  the world, because \<open>WorkGuard\<close> is a trait; the allocator and the layout of types are the record \<open>host\<close>; a
  source of bytes is a record of operations as well. Theorems hold for all of them unless they say
  otherwise. Structs are records, enums are datatypes, hash maps are association lists with a capacity.

  \<^bold>\<open>Theories.\<close>
  \<^item> \<open>Qtrace_Prelude\<close>: checked and saturating arithmetic, little-endian bytes, UTF-8, the monad \<open>rm\<close>, and
    step relations: what every successful or failing run of a computation does to the state, with the
    locale \<open>step_frame\<close> whose rules follow the structure of the code. \<open>Qtrace_Loops\<close>: loops in the monad,
    whose value does not depend on the guard, and the counting pass the radix sorts share.
  \<^item> \<open>Provider_Control\<close>, \<open>Provider_Allocation\<close>, \<open>Provider_Source\<close>, \<open>Provider_Model\<close>: work deltas, guards and
    errors (\<open>control.rs\<close>, \<open>error.rs\<close>), guarded allocation (\<open>allocation.rs\<close>), sources (\<open>source.rs\<close>) and the event
    model (\<open>model.rs\<close>). The locales \<open>guarded_world\<close> and \<open>permissive_guard\<close> are what a client of a guard may
    rely on.
  \<^item> \<open>Qtrb_Wire\<close>, \<open>Qtrb_Events\<close>: payload cursor and record decoders (\<open>qtrb/cursor.rs\<close>, \<open>wire.rs\<close>, \<open>events.rs\<close>). They
    accept exactly the encodings of well-formed values.
  \<^item> \<open>Qtrb_Stream\<close>: the stream provider (\<open>qtrb/mod.rs\<close>): header, record framing, dictionaries, fragment
    groups, terminals, the event loop, poisoning after an error, and the summary.
  \<^item> \<open>Qtrb_Trace\<close>, \<open>Qtrb_Spec\<close>, \<open>Qtrb_Refinement\<close>, \<open>Qtrb_Traces\<close>: what each handler does when it succeeds; an
    abstract specification of a QTRB stream as an inductive relation between records and events; the
    simulation that relates every run of the cursor to it; and consequences of the specification.
  \<^item> \<open>Qtrb_Properties\<close>: the properties of the stream provider. \<open>Qtrace_Eval\<close> and \<open>Qtrb_Sample\<close> run the
    decoder on a concrete trace inside the logic, for the instances of the theorems.
  \<^item> \<open>Service_Budget\<close>: the budget of a request (\<open>budget.rs\<close>) with its atomic counters, also under
    interleaving. \<open>Qtrb_Steps\<close> and \<open>Qtrb_Budget\<close> compose it with the decoder: a request never allocates more
    than its budget, and the cursor obeys its calling discipline.
  \<^item> \<open>Service_Ids\<close>, \<open>Service_Error\<close>, \<open>Service_Jobs\<close>: numbers as text (\<open>dto.rs\<close>), errors for the user interface
    (\<open>error.rs\<close>), and the registry of jobs (\<open>jobs.rs\<close>) as a transition system over all its operations.
  \<^item> \<open>Flight_Sort\<close>: the radix sort of the flight recovery (\<open>flight/sort.rs\<close>).
  \<^item> \<open>Store_Error\<close>, \<open>Store_Postings\<close>, \<open>Store_Sorting\<close>, \<open>Store_Rows\<close>: errors and allocation of the store, posting lists
    (\<open>index/postings.rs\<close>), the merge sort that can be cancelled (\<open>index/sorting.rs\<close>), and the radix sort and
    binary search of row numbers with the work they charge (\<open>index/mod.rs\<close>).

  \<^bold>\<open>Termination and bounds.\<close> No definition uses fuel. The event loop of the cursor terminates because every
  iteration that does not return consumes a record; the retention loop of the registry because it
  removes a job. The loop that permutes values along the cycles of an order ends only for a permutation;
  it is a partial function, and it is proved to return. Hypotheses such as \<open>n < 2 ^ 50\<close> on lengths exclude
  overflow of byte and work counts. \<open>roomy\<close> (the allocator has memory, types are small) and
  \<open>permissive_guard\<close> appear only where a theorem says that an operation succeeds.

  \<^bold>\<open>Not modelled.\<close> Memory-mapped input, the flight-recorder recovery apart from its sort, the index builder
  and its queries, the cache and its file protocols, the analysis crate, request orchestration, the user
  interface and the tracer itself. JSON through serde is left out. Concurrency is modelled as sequences
  of atomic steps where the source uses atomics or a lock.
\<close>

end
